(* ===== verification/Sidera_Prelude.thy ===== *)
theory Sidera_Prelude
  imports Main "HOL-Library.Word" "HOL-Library.Monad_Syntax"
begin

text \<open>
  Shared vocabulary of the development: Go errors as values, the result monad in which
  every fallible operation of the program is written, the string functions of Go's
  \<^verbatim>\<open>strings\<close> package that the sources use, and the generic list and option lemmas on
  which the component proofs rest.

  A Go string is a sequence of bytes and is modelled as a \<^typ>\<open>string\<close> (a list of
  8-bit characters); \<^verbatim>\<open>len\<close> is \<^const>\<open>length\<close>. A call that returns
  \<^verbatim>\<open>(T, error)\<close> is a value of \<^verbatim>\<open>error + T\<close>: \<^term>\<open>Inl e\<close> for
  an error, \<^term>\<open>Inr x\<close> for a result with a nil error.
\<close>

named_theorems go_defs \<open>definitions of small operations, unfolded by component proofs\<close>
named_theorems go_simps \<open>rewrite rules for the operations of a component\<close>

subsection \<open>Errors and results\<close>

text \<open>
  \<^verbatim>\<open>E.New(...)\<close> concatenates its arguments to a message, \<^verbatim>\<open>E.Cause(err, ...)\<close>
  wraps an error with a message, \<^verbatim>\<open>E.Errors(...)\<close> and \<^verbatim>\<open>E.Cause1(...)\<close>
  join errors into one that unwraps to all of them; \<^verbatim>\<open>panic\<close> ends the goroutine and
  is kept apart from errors.
\<close>

datatype error =
    E_New string
  | E_Cause error string
  | E_Sentinel string
  | E_Errors "error list"

text \<open>\<^verbatim>\<open>errors.Is\<close> for a sentinel target, \<^verbatim>\<open>E.Errors\<close> and \<^verbatim>\<open>E.Cause1\<close>.\<close>

fun error_Is :: "error \<Rightarrow> error \<Rightarrow> bool" where
  "error_Is (E_New msg) target = (E_New msg = target)"
| "error_Is (E_Cause err msg) target = (E_Cause err msg = target \<or> error_Is err target)"
| "error_Is (E_Sentinel name) target = (E_Sentinel name = target)"
| "error_Is (E_Errors errs) target = (E_Errors errs = target \<or> list_ex (\<lambda>err. error_Is err target) errs)"

fun Errors :: "error list \<Rightarrow> error option" where
  "Errors [] = None"
| "Errors [err] = Some err"
| "Errors errs = Some (E_Errors errs)"

definition Cause1 :: "error \<Rightarrow> error \<Rightarrow> error" where
  "Cause1 err cause = E_Errors [err, cause]"

definition ErrInvalid :: error where
  "ErrInvalid = E_Sentinel ''invalid argument''"

definition ErrClosed :: error where
  "ErrClosed = E_Sentinel ''file already closed''"

type_synonym 'a result = "error + 'a"

definition ok :: "'a \<Rightarrow> 'a result" where
  "ok x = Inr x"

definition bind_result :: "'a result \<Rightarrow> ('a \<Rightarrow> 'b result) \<Rightarrow> 'b result" where
  "bind_result m f = (case m of Inl e \<Rightarrow> Inl e | Inr x \<Rightarrow> f x)"

definition cause_result :: "string \<Rightarrow> 'a result \<Rightarrow> 'a result" where
  "cause_result msg m = (case m of Inl e \<Rightarrow> Inl (E_Cause e msg) | Inr x \<Rightarrow> Inr x)"

lemma bind_result_simps [simp]:
  "bind_result (Inl e) f = Inl e"
  "bind_result (Inr x) f = f x"
  by (simp_all add: bind_result_def)

lemma cause_result_simps [simp]:
  "cause_result msg (Inl e) = Inl (E_Cause e msg)"
  "cause_result msg (Inr x) = Inr x"
  by (simp_all add: cause_result_def)

lemma bind_result_eq_Inr [simp]:
  "bind_result m f = Inr y \<longleftrightarrow> (\<exists>x. m = Inr x \<and> f x = Inr y)"
  by (cases m) simp_all

lemma bind_result_eq_Inl:
  "bind_result m f = Inl e \<longleftrightarrow> m = Inl e \<or> (\<exists>x. m = Inr x \<and> f x = Inl e)"
  by (cases m) auto

lemma cause_result_eq_Inr [simp]: "cause_result msg m = Inr y \<longleftrightarrow> m = Inr y"
  by (cases m) simp_all

lemma bind_result_cong [fundef_cong]:
  assumes "m = m'" and "\<And>x. m' = Inr x \<Longrightarrow> f x = f' x"
  shows "bind_result m f = bind_result m' f'"
  using assms by (cases m') simp_all

lemma cause_result_cong [fundef_cong]:
  "msg = msg' \<Longrightarrow> m = m' \<Longrightarrow> cause_result msg m = cause_result msg' m'"
  by simp

text \<open>The loop \<^verbatim>\<open>for i, x := range xs\<close> whose body may return an error.\<close>

fun map_result :: "('a \<Rightarrow> 'b result) \<Rightarrow> 'a list \<Rightarrow> 'b list result" where
  "map_result f [] = Inr []"
| "map_result f (x # xs) =
     bind_result (f x) (\<lambda>y. bind_result (map_result f xs) (\<lambda>ys. Inr (y # ys)))"

lemma map_result_cong [fundef_cong]:
  assumes "xs = ys" and "\<And>x. x \<in> set ys \<Longrightarrow> f x = g x"
  shows "map_result f xs = map_result g ys"
proof -
  have "(\<And>x. x \<in> set ys \<Longrightarrow> f x = g x) \<Longrightarrow> map_result f ys = map_result g ys"
    by (induction ys) simp_all
  then show ?thesis using assms by simp
qed

lemma map_result_Inr_length: "map_result f xs = Inr ys \<Longrightarrow> length ys = length xs"
  by (induction xs arbitrary: ys) auto

lemma map_result_Inr_iff:
  "map_result f xs = Inr ys \<longleftrightarrow> list_all2 (\<lambda>x y. f x = Inr y) xs ys"
proof (induction xs arbitrary: ys)
  case Nil
  then show ?case by auto
next
  case (Cons x xs)
  then show ?case by (cases ys) auto
qed

subsection \<open>Strings\<close>

definition is_ascii :: "string \<Rightarrow> bool" where
  "is_ascii s = list_all (\<lambda>c. (of_char c :: nat) < 128) s"

definition lower_byte :: "char \<Rightarrow> char" where
  "lower_byte c =
     (if (65::nat) \<le> of_char c \<and> (of_char c :: nat) \<le> 90 then char_of ((of_char c :: nat) + 32) else c)"

fun has_prefix :: "string \<Rightarrow> string \<Rightarrow> bool" where
  "has_prefix s [] = True"
| "has_prefix [] (p # ps) = False"
| "has_prefix (c # s) (p # ps) = (c = p \<and> has_prefix s ps)"

definition has_suffix :: "string \<Rightarrow> string \<Rightarrow> bool" where
  "has_suffix s t = has_prefix (rev s) (rev t)"

fun str_contains :: "string \<Rightarrow> string \<Rightarrow> bool" where
  "str_contains [] t = (t = [])"
| "str_contains (c # s) t = (has_prefix (c # s) t \<or> str_contains s t)"

fun str_index :: "string \<Rightarrow> char \<Rightarrow> nat option" where
  "str_index [] c = None"
| "str_index (d # s) c = (if c = d then Some 0 else map_option Suc (str_index s c))"

fun str_join :: "string \<Rightarrow> string list \<Rightarrow> string" where
  "str_join sep [] = []"
| "str_join sep [x] = x"
| "str_join sep (x # y # xs) = x @ sep @ str_join sep (y # xs)"

fun show_nat :: "nat \<Rightarrow> string" where
  "show_nat n =
     (if n < 10 then [char_of (48 + n)] else show_nat (n div 10) @ [char_of (48 + n mod 10)])"

declare show_nat.simps [simp del]

definition show_int :: "int \<Rightarrow> string" where
  "show_int i = (if i < 0 then CHR ''-'' # show_nat (nat (- i)) else show_nat (nat i))"

lemma has_prefix_iff: "has_prefix s p \<longleftrightarrow> (\<exists>t. s = p @ t)"
  by (induction s p rule: has_prefix.induct) auto

lemma has_suffix_iff: "has_suffix s p \<longleftrightarrow> (\<exists>t. s = t @ p)"
proof -
  have "has_suffix s p \<longleftrightarrow> (\<exists>t. rev s = rev p @ t)"
    by (simp add: has_suffix_def has_prefix_iff)
  also have "\<dots> \<longleftrightarrow> (\<exists>t. s = t @ p)"
    by (metis rev_append rev_rev_ident)
  finally show ?thesis .
qed

lemma str_contains_iff: "str_contains s t \<longleftrightarrow> (\<exists>a b. s = a @ t @ b)"
proof (induction s)
  case Nil
  then show ?case by auto
next
  case (Cons c s)
  show ?case
  proof
    assume "str_contains (c # s) t"
    then consider "has_prefix (c # s) t" | "str_contains s t" by auto
    then show "\<exists>a b. c # s = a @ t @ b"
    proof cases
      case 1
      then show ?thesis by (metis append_Nil has_prefix_iff)
    next
      case 2
      then show ?thesis using Cons.IH by (metis append_Cons)
    qed
  next
    assume "\<exists>a b. c # s = a @ t @ b"
    then obtain a b where ab: "c # s = a @ t @ b" by blast
    show "str_contains (c # s) t"
    proof (cases a)
      case Nil
      with ab have "has_prefix (c # s) t" by (auto simp: has_prefix_iff)
      then show ?thesis by simp
    next
      case (Cons d a')
      with ab have "s = a' @ t @ b" by simp
      with \<open>str_contains s t = (\<exists>a b. s = a @ t @ b)\<close> have "str_contains s t" by blast
      then show ?thesis by simp
    qed
  qed
qed

lemma str_index_Some: "str_index s c = Some i \<Longrightarrow> i < length s \<and> s ! i = c \<and> c \<notin> set (take i s)"
  by (induction s arbitrary: i) (auto split: if_splits)

lemma str_index_None: "str_index s c = None \<longleftrightarrow> c \<notin> set s"
  by (induction s) auto

subsection \<open>Maps with boolean values\<close>

text \<open>
  A Go \<^verbatim>\<open>map[K]bool\<close> filled by \<^verbatim>\<open>m[k] = true\<close> in a loop and read by
  \<^verbatim>\<open>m[k]\<close>: the reading is true exactly for the keys that were stored.
\<close>

definition map_get :: "('k \<rightharpoonup> bool) \<Rightarrow> 'k \<Rightarrow> bool" where
  "map_get m k = (case m k of None \<Rightarrow> False | Some b \<Rightarrow> b)"

fun map_set_all :: "('k \<rightharpoonup> bool) \<Rightarrow> 'k list \<Rightarrow> ('k \<rightharpoonup> bool)" where
  "map_set_all m [] = m"
| "map_set_all m (k # ks) = map_set_all (m(k \<mapsto> True)) ks"

lemma map_get_set_all: "map_get (map_set_all m ks) k \<longleftrightarrow> k \<in> set ks \<or> map_get m k"
  by (induction ks arbitrary: m) (auto simp: map_get_def)

lemma map_get_of_list [simp]: "map_get (map_set_all Map.empty ks) k \<longleftrightarrow> k \<in> set ks"
  by (simp add: map_get_set_all) (simp add: map_get_def)

end
