(* ===== verification/Netip.thy ===== *)
theory Netip
  imports Sidera_Prelude
begin

text \<open>
  The part of Go's standard package \<^verbatim>\<open>net/netip\<close> the sources use: addresses with
  their three families (the zero value, IPv4, IPv6 with a zone), the successor
  \<^verbatim>\<open>Addr.Next\<close>, and prefixes with \<^verbatim>\<open>Contains\<close> and \<^verbatim>\<open>Overlaps\<close>.
  Addresses are machine words, so the wrap-around of \<^verbatim>\<open>Next\<close> at the last address
  is the one of the library: it returns the zero \<^verbatim>\<open>Addr\<close>.
\<close>

unbundle bit_operations_syntax

type_synonym byte = "8 word"

subsection \<open>Addresses\<close>

text \<open>
  \<^verbatim>\<open>Addr{addr uint128, z}\<close>: \<open>Z0\<close> is any value whose \<^verbatim>\<open>z\<close> is the
  zero handle, that is an invalid address; the zero value of the type is \<open>Z0 0\<close>.
\<close>

datatype netip_addr = Z0 "128 word" | A4 "32 word" | A6 "128 word" string

abbreviation addr_zero :: netip_addr where
  "addr_zero \<equiv> Z0 0"

fun addr_IsValid :: "netip_addr \<Rightarrow> bool" where
  "addr_IsValid (Z0 _) = False"
| "addr_IsValid _ = True"

fun addr_Is4 :: "netip_addr \<Rightarrow> bool" where
  "addr_Is4 (A4 _) = True"
| "addr_Is4 _ = False"

fun addr_Is6 :: "netip_addr \<Rightarrow> bool" where
  "addr_Is6 (A6 _ _) = True"
| "addr_Is6 _ = False"

fun addr_hasZone :: "netip_addr \<Rightarrow> bool" where
  "addr_hasZone (A6 _ z) = (z \<noteq> [])"
| "addr_hasZone _ = False"

fun addr_BitLen :: "netip_addr \<Rightarrow> nat" where
  "addr_BitLen (Z0 _) = 0"
| "addr_BitLen (A4 _) = 32"
| "addr_BitLen (A6 _ _) = 128"

fun addr_Next :: "netip_addr \<Rightarrow> netip_addr" where
  "addr_Next (A4 w) = (if w + 1 = 0 then addr_zero else A4 (w + 1))"
| "addr_Next (A6 w z) = (if w + 1 = 0 then addr_zero else A6 (w + 1) z)"
| "addr_Next (Z0 w) = (if w + 1 = 0 then addr_zero else Z0 (w + 1))"

text \<open>\<^verbatim>\<open>As16\<close>: an IPv4 address is read as its IPv4-mapped IPv6 address.\<close>

fun addr_As16 :: "netip_addr \<Rightarrow> 128 word" where
  "addr_As16 (A4 w) = push_bit 32 0xFFFF OR ucast w"
| "addr_As16 (A6 w _) = w"
| "addr_As16 (Z0 w) = w"

subsection \<open>Prefixes\<close>

text \<open>\<^verbatim>\<open>Prefix{ip Addr, bitsPlusOne uint8}\<close>; \<open>bitsPlusOne = 0\<close> is an invalid prefix.\<close>

record netip_prefix =
  pfx_ip :: netip_addr
  pfx_bitsPlusOne :: nat

definition prefix_zero :: netip_prefix where
  "prefix_zero = \<lparr>pfx_ip = addr_zero, pfx_bitsPlusOne = 0\<rparr>"

fun addr_withoutZone :: "netip_addr \<Rightarrow> netip_addr" where
  "addr_withoutZone (A6 w _) = A6 w []"
| "addr_withoutZone a = a"

definition PrefixFrom :: "netip_addr \<Rightarrow> int \<Rightarrow> netip_prefix" where
  "PrefixFrom ip bits =
     \<lparr>pfx_ip = addr_withoutZone ip,
      pfx_bitsPlusOne =
        (if addr_IsValid ip \<and> 0 \<le> bits \<and> bits \<le> int (addr_BitLen ip) then nat bits + 1 else 0)\<rparr>"

definition prefix_IsValid :: "netip_prefix \<Rightarrow> bool" where
  "prefix_IsValid p = (0 < pfx_bitsPlusOne p)"

definition prefix_Bits :: "netip_prefix \<Rightarrow> nat" where
  "prefix_Bits p = pfx_bitsPlusOne p - 1"

definition prefix_Contains :: "netip_prefix \<Rightarrow> netip_addr \<Rightarrow> bool" where
  "prefix_Contains p ip =
     (if \<not> prefix_IsValid p \<or> addr_hasZone ip then False
      else case (pfx_ip p, ip) of
        (A4 u, A4 w) \<Rightarrow> drop_bit (32 - prefix_Bits p) (w XOR u) = 0
      | (A6 u _, A6 w _) \<Rightarrow> drop_bit (128 - prefix_Bits p) (w XOR u) = 0
      | _ \<Rightarrow> False)"

definition prefix_Overlaps :: "netip_prefix \<Rightarrow> netip_prefix \<Rightarrow> bool" where
  "prefix_Overlaps p q =
     (if \<not> prefix_IsValid p \<or> \<not> prefix_IsValid q then False
      else if p = q then True
      else if addr_Is4 (pfx_ip p) \<noteq> addr_Is4 (pfx_ip q) then False
      else let minBits = min (prefix_Bits p) (prefix_Bits q) in
        minBits = 0 \<or>
        (case (pfx_ip p, pfx_ip q) of
           (A4 u, A4 w) \<Rightarrow> drop_bit (32 - minBits) u = drop_bit (32 - minBits) w
         | (A6 u _, A6 w _) \<Rightarrow> drop_bit (128 - minBits) u = drop_bit (128 - minBits) w
         | _ \<Rightarrow> False))"

subsection \<open>Facts\<close>

lemma xor_eq_0_iff: "(u :: 'a::len word) XOR w = 0 \<longleftrightarrow> u = w"
proof
  assume "u XOR w = 0"
  then have "(u XOR w) XOR w = w" by simp
  then show "u = w" by (simp add: xor.assoc)
qed simp

lemma unat_drop_bit: "unat (drop_bit n (w :: 'a::len word)) = unat w div 2 ^ n"
  by (simp add: unat_drop_bit_eq flip: drop_bit_eq_div)

lemma drop_bit_xor_eq_0_iff:
  fixes u w :: "'a::len word"
  shows "drop_bit n (w XOR u) = 0 \<longleftrightarrow> unat w div 2 ^ n = unat u div 2 ^ n"
proof -
  have "drop_bit n (w XOR u) = 0 \<longleftrightarrow> drop_bit n w = drop_bit n u"
    by (simp add: xor_eq_0_iff)
  also have "\<dots> \<longleftrightarrow> unat w div 2 ^ n = unat u div 2 ^ n"
    by (simp add: word_unat_eq_iff unat_drop_bit)
  finally show ?thesis .
qed

text \<open>An IPv4 prefix contains exactly the addresses that agree on its leading bits.\<close>

lemma prefix_Contains_4:
  "prefix_Contains \<lparr>pfx_ip = A4 u, pfx_bitsPlusOne = Suc b\<rparr> (A4 w) \<longleftrightarrow>
     unat w div 2 ^ (32 - b) = unat u div 2 ^ (32 - b)"
  using drop_bit_xor_eq_0_iff [of "32 - b" w u]
  by (simp add: prefix_Contains_def prefix_IsValid_def prefix_Bits_def del: drop_bit_xor)

lemma prefix_Contains_6:
  "prefix_Contains \<lparr>pfx_ip = A6 u z, pfx_bitsPlusOne = Suc b\<rparr> (A6 w []) \<longleftrightarrow>
     unat w div 2 ^ (128 - b) = unat u div 2 ^ (128 - b)"
  using drop_bit_xor_eq_0_iff [of "128 - b" w u]
  by (simp add: prefix_Contains_def prefix_IsValid_def prefix_Bits_def del: drop_bit_xor)

lemma prefix_Contains_valid: "prefix_Contains p a \<Longrightarrow> addr_IsValid a"
  by (cases a) (auto simp: prefix_Contains_def split: if_splits netip_addr.splits)

lemma prefix_Contains_family:
  "prefix_Contains p a \<Longrightarrow> addr_Is4 a = addr_Is4 (pfx_ip p)"
  by (auto simp: prefix_Contains_def split: if_splits netip_addr.splits)

lemma addr_valid_cases: "addr_IsValid a \<longleftrightarrow> addr_Is4 a \<or> addr_Is6 a"
  by (cases a) simp_all

end
