(* ===== verification/Metadata.thy ===== *)
theory Metadata
  imports Netip
begin

text \<open>
  The data every rule, sniffer and router step works on: \<^verbatim>\<open>adapter.InboundContext\<close>
  (\<^verbatim>\<open>adapter/inbound.go\<close>) with the socket addresses, DNS messages and process
  information it refers to, and the operations of that file on it.

  Code outside the repository is a parameter: the record \<open>env\<close> collects the functions
  of third-party packages (\<^verbatim>\<open>M.Socksaddr\<close> predicates, \<^verbatim>\<open>netipx.IPSet\<close>,
  \<^verbatim>\<open>domain.Matcher\<close>, compiled regular expressions, Unicode case mapping) and the
  state of other components that rule items read (the network manager, the Clash mode,
  the outbounds with preferred routes). The type variable \<^verbatim>\<open>'x\<close> is the type of the
  matcher objects of \<^verbatim>\<open>sing/common/domain\<close>. The \<^verbatim>\<open>PreferredDomain\<close> and
  \<^verbatim>\<open>PreferredAddress\<close> methods of the outbounds (tailscale, openvpn, openconnect,
  wireguard, bridge) read at most \<^verbatim>\<open>PreMatch\<close> of the context, so that flag is what
  their parameters take.
\<close>

subsection \<open>Socket addresses\<close>

text \<open>\<^verbatim>\<open>M.Socksaddr{Addr, Port, Fqdn}\<close>, the literal the sources build.\<close>

record socksaddr =
  sa_Addr :: netip_addr
  sa_Port :: "16 word"
  sa_Fqdn :: string

definition socksaddr_zero :: socksaddr where
  "socksaddr_zero = \<lparr>sa_Addr = addr_zero, sa_Port = 0, sa_Fqdn = []\<rparr>"

subsection \<open>DNS messages\<close>

datatype svcb_value = SVCBIPv4Hint "byte list list" | SVCBIPv6Hint "byte list list" | SVCBOther

datatype rr_data = RD_A "byte list" | RD_AAAA "byte list" | RD_HTTPS "svcb_value list" | RD_Other string

record dns_rr =
  rr_Name :: string
  rr_Type :: "16 word"
  rr_Ttl :: "32 word"
  rr_Data :: rr_data

record dns_question =
  q_Name :: string
  q_Type :: "16 word"
  q_Class :: "16 word"

record dns_msg =
  msg_Id :: "16 word"
  msg_Response :: bool
  msg_Authoritative :: bool
  msg_RecursionDesired :: bool
  msg_RecursionAvailable :: bool
  msg_Rcode :: int
  msg_Question :: "dns_question list"
  msg_Answer :: "dns_rr list"
  msg_Ns :: "dns_rr list"
  msg_Extra :: "dns_rr list"

subsection \<open>Processes and interfaces\<close>

record connection_owner =
  co_ProcessID :: "32 word"
  co_UserId :: int
  co_UserName :: string
  co_ProcessPath :: string
  co_AndroidPackageNames :: "string list"

type_synonym interface_type = byte

record network_interface =
  ni_Name :: string
  ni_Addresses :: "netip_prefix list"
  ni_Type :: interface_type
  ni_Expensive :: bool
  ni_Constrained :: bool

text \<open>\<^verbatim>\<open>tlsspoof.Method\<close>; the first value is its zero.\<close>

datatype spoof_method = MethodWrongSequence | MethodWrongChecksum | MethodWrongAcknowledgment
  | MethodWrongMD5Sig | MethodWrongTimestamp

subsection \<open>InboundContext\<close>

text \<open>
  \<^verbatim>\<open>time.Duration\<close> is its number of nanoseconds. \<open>SniffContext\<close>, an
  \<^verbatim>\<open>any\<close> in the source, only ever holds the QUIC sniffer's crypto fragments
  (offset, length, payload). A nil slice and an empty one are both the empty list: the
  code only asks for their length.
\<close>

record inbound_context =
  mc_Inbound :: string
  mc_InboundType :: string
  mc_IPVersion :: byte
  mc_Network :: string
  mc_Source :: socksaddr
  mc_Destination :: socksaddr
  mc_User :: string
  mc_Outbound :: string
  mc_Protocol :: string
  mc_Domain :: string
  mc_Client :: string
  mc_SniffContext :: "(nat \<times> nat \<times> byte list) list option"
  mc_SnifferNames :: "string list"
  mc_SniffError :: "error option"
  mc_InboundDetour :: string
  mc_LastInbound :: string
  mc_OriginDestination :: socksaddr
  mc_RouteOriginalDestination :: socksaddr
  mc_UDPDisableDomainUnmapping :: bool
  mc_UDPConnect :: bool
  mc_UDPTimeout :: int
  mc_TLSFragment :: bool
  mc_TLSFragmentFallbackDelay :: int
  mc_TLSRecordFragment :: bool
  mc_TLSSpoof :: string
  mc_TLSSpoofMethod :: spoof_method
  mc_NetworkStrategy :: "byte option"
  mc_NetworkType :: "interface_type list"
  mc_FallbackNetworkType :: "interface_type list"
  mc_FallbackDelay :: int
  mc_DestinationAddresses :: "netip_addr list"
  mc_DNSResponse :: "dns_msg option"
  mc_NamedDNSResponses :: "string \<rightharpoonup> dns_msg"
  mc_DestinationAddressMatchFromResponse :: bool
  mc_SourceGeoIPCode :: string
  mc_GeoIPCode :: string
  mc_ProcessInfo :: "connection_owner option"
  mc_SourceMACAddress :: "byte list option"
  mc_SourceHostname :: string
  mc_QueryType :: "16 word"
  mc_FakeIP :: bool
  mc_PreMatch :: bool
  mc_IPCIDRMatchSource :: bool
  mc_IPCIDRAcceptEmpty :: bool
  mc_SourceAddressMatch :: bool
  mc_SourcePortMatch :: bool
  mc_DestinationAddressMatch :: bool
  mc_DestinationPortMatch :: bool
  mc_DidMatch :: bool
  mc_IgnoreDestinationIPCIDRMatch :: bool

definition ResetRuleMatchCache :: "inbound_context \<Rightarrow> inbound_context" where
  "ResetRuleMatchCache c = c\<lparr>
     mc_SourceAddressMatch := False,
     mc_SourcePortMatch := False,
     mc_DestinationAddressMatch := False,
     mc_DestinationPortMatch := False,
     mc_DidMatch := False\<rparr>"

definition ResetRuleCache :: "inbound_context \<Rightarrow> inbound_context" where
  "ResetRuleCache c =
     ResetRuleMatchCache (c\<lparr>mc_IPCIDRMatchSource := False, mc_IPCIDRAcceptEmpty := False\<rparr>)"

definition context_zero :: inbound_context where
  "context_zero = \<lparr>
     mc_Inbound = [], mc_InboundType = [], mc_IPVersion = 0, mc_Network = [],
     mc_Source = socksaddr_zero, mc_Destination = socksaddr_zero, mc_User = [], mc_Outbound = [],
     mc_Protocol = [], mc_Domain = [], mc_Client = [], mc_SniffContext = None,
     mc_SnifferNames = [], mc_SniffError = None, mc_InboundDetour = [], mc_LastInbound = [],
     mc_OriginDestination = socksaddr_zero, mc_RouteOriginalDestination = socksaddr_zero,
     mc_UDPDisableDomainUnmapping = False, mc_UDPConnect = False, mc_UDPTimeout = 0,
     mc_TLSFragment = False, mc_TLSFragmentFallbackDelay = 0, mc_TLSRecordFragment = False,
     mc_TLSSpoof = [], mc_TLSSpoofMethod = MethodWrongSequence, mc_NetworkStrategy = None, mc_NetworkType = [],
     mc_FallbackNetworkType = [], mc_FallbackDelay = 0, mc_DestinationAddresses = [],
     mc_DNSResponse = None, mc_NamedDNSResponses = Map.empty,
     mc_DestinationAddressMatchFromResponse = False, mc_SourceGeoIPCode = [], mc_GeoIPCode = [],
     mc_ProcessInfo = None, mc_SourceMACAddress = None, mc_SourceHostname = [],
     mc_QueryType = 0, mc_FakeIP = False, mc_PreMatch = False,
     mc_IPCIDRMatchSource = False, mc_IPCIDRAcceptEmpty = False,
     mc_SourceAddressMatch = False, mc_SourcePortMatch = False,
     mc_DestinationAddressMatch = False, mc_DestinationPortMatch = False,
     mc_DidMatch = False, mc_IgnoreDestinationIPCIDRMatch = False\<rparr>"

subsection \<open>The environment\<close>

text \<open>
  \<^verbatim>\<open>netipx.IPSet\<close> is the slice of inclusive address ranges that
  \<^verbatim>\<open>common/srs/ip_set.go\<close> reads out of it (\<^verbatim>\<open>myIPSet\<close>).
\<close>

type_synonym ipset = "(netip_addr \<times> netip_addr) list"

datatype ipset_entry = BuilderPrefix netip_prefix | BuilderAddr netip_addr

record 'x env =
  x_IsIP :: "socksaddr \<Rightarrow> bool"
  x_IsIPv4 :: "socksaddr \<Rightarrow> bool"
  x_IsIPv6 :: "socksaddr \<Rightarrow> bool"
  x_IsDomain :: "socksaddr \<Rightarrow> bool"
  x_IsValid :: "socksaddr \<Rightarrow> bool"
  x_IsDomainName :: "string \<Rightarrow> bool"
  x_AddrFromIP :: "byte list \<Rightarrow> netip_addr"
  x_IsPublicAddr :: "netip_addr \<Rightarrow> bool"
  x_IPSetContains :: "ipset \<Rightarrow> netip_addr \<Rightarrow> bool"
  x_IPSetBuild :: "ipset_entry list \<Rightarrow> ipset result"
  x_NewMatcher :: "string list \<Rightarrow> string list \<Rightarrow> bool \<Rightarrow> 'x"
  x_MatcherMatch :: "'x \<Rightarrow> string \<Rightarrow> bool"
  x_NewAdGuardMatcher :: "string list \<Rightarrow> 'x"
  x_AdGuardMatch :: "'x \<Rightarrow> string \<Rightarrow> bool"
  x_RegexpCompile :: "string \<Rightarrow> error option"
  x_MatchString :: "string \<Rightarrow> string \<Rightarrow> bool"
  x_UnicodeToLower :: "string \<Rightarrow> string"
  x_UnicodeEqualFold :: "string \<Rightarrow> string \<Rightarrow> bool"
  x_IsDuplicate :: "dns_rr \<Rightarrow> dns_rr \<Rightarrow> bool"
  x_RRString :: "dns_rr \<Rightarrow> string"
  x_RcodeToString :: "int \<Rightarrow> string"
  x_TypeToString :: "16 word \<Rightarrow> string option"
  x_CanonicalName :: "string \<Rightarrow> string"
  x_PreferredDomain :: "string \<Rightarrow> bool \<Rightarrow> string \<Rightarrow> bool"
  x_PreferredAddress :: "string \<Rightarrow> bool \<Rightarrow> netip_addr \<Rightarrow> bool"
  x_DNSPreferredDomain :: "string \<Rightarrow> string \<Rightarrow> bool"
  w_IsAndroid :: bool
  w_DefaultNetworkInterface :: "network_interface option"
  w_NetworkInterfaces :: "network_interface list"
  w_FinderInterfaces :: "network_interface list"
  w_MonitorDefaultInterface :: "network_interface option"
  w_MyInterfaces :: "string list"
  w_WIFI_SSID :: string
  w_WIFI_BSSID :: string
  w_ClashMode :: "string option"

text \<open>
  \<^verbatim>\<open>strings.ToLower\<close> and \<^verbatim>\<open>strings.EqualFold\<close> have an ASCII case and
  fall back to the Unicode tables, which are a parameter.
\<close>

definition ToLower :: "'x env \<Rightarrow> string \<Rightarrow> string" where
  "ToLower e s = (if is_ascii s then map lower_byte s else x_UnicodeToLower e s)"

definition EqualFold :: "'x env \<Rightarrow> string \<Rightarrow> string \<Rightarrow> bool" where
  "EqualFold e s t =
     (if is_ascii s \<and> is_ascii t then map lower_byte s = map lower_byte t else x_UnicodeEqualFold e s t)"

subsection \<open>Addresses of a DNS response\<close>

text \<open>\<^verbatim>\<open>netip.Addr.Unmap\<close>: an IPv4-mapped IPv6 address becomes its IPv4 address.\<close>

fun addr_Unmap :: "netip_addr \<Rightarrow> netip_addr" where
  "addr_Unmap (A6 w z) = (if drop_bit 32 w = 0xFFFF then A4 (ucast w) else A6 w z)"
| "addr_Unmap a = a"

definition valid_addrs :: "netip_addr list \<Rightarrow> netip_addr list" where
  "valid_addrs = filter addr_IsValid"

fun svcb_addresses :: "'x env \<Rightarrow> svcb_value \<Rightarrow> netip_addr list" where
  "svcb_addresses e (SVCBIPv4Hint hints) = valid_addrs (map (\<lambda>ip. addr_Unmap (x_AddrFromIP e ip)) hints)"
| "svcb_addresses e (SVCBIPv6Hint hints) = valid_addrs (map (x_AddrFromIP e) hints)"
| "svcb_addresses e SVCBOther = []"

fun rr_addresses :: "'x env \<Rightarrow> rr_data \<Rightarrow> netip_addr list" where
  "rr_addresses e (RD_A ip) = valid_addrs [x_AddrFromIP e ip]"
| "rr_addresses e (RD_AAAA ip) = valid_addrs [x_AddrFromIP e ip]"
| "rr_addresses e (RD_HTTPS values) = concat (map (svcb_addresses e) values)"
| "rr_addresses e (RD_Other _) = []"

definition DNSResponseAddresses :: "'x env \<Rightarrow> dns_msg option \<Rightarrow> netip_addr list" where
  "DNSResponseAddresses e response =
     (case response of
        None \<Rightarrow> []
      | Some m \<Rightarrow>
          if msg_Rcode m \<noteq> 0 then []
          else concat (map (\<lambda>record. rr_addresses e (rr_Data record)) (msg_Answer m)))"

definition DNSResponseAddressesForMatch :: "'x env \<Rightarrow> inbound_context \<Rightarrow> netip_addr list" where
  "DNSResponseAddressesForMatch e c = DNSResponseAddresses e (mc_DNSResponse c)"

lemma DNSResponseAddresses_valid:
  "a \<in> set (DNSResponseAddresses e r) \<Longrightarrow> addr_IsValid a"
proof -
  have svcb: "a \<in> set (svcb_addresses e v) \<Longrightarrow> addr_IsValid a" for v
    by (cases v) (auto simp: valid_addrs_def)
  have "a \<in> set (rr_addresses e d) \<Longrightarrow> addr_IsValid a" for d
    by (cases d) (auto simp: valid_addrs_def svcb split: if_splits)
  then show "a \<in> set (DNSResponseAddresses e r) \<Longrightarrow> addr_IsValid a"
    by (auto simp: DNSResponseAddresses_def split: option.splits if_splits)
qed

subsection \<open>Copies of the context\<close>

text \<open>
  The flags a rule item reads besides the connection's own data are the two address
  flags; the match caches are written by the rules only. A context that differs from
  another in its caches only is equal to it after a reset.
\<close>

definition same_conn :: "inbound_context \<Rightarrow> inbound_context \<Rightarrow> bool" where
  "same_conn c d \<longleftrightarrow> ResetRuleMatchCache c = ResetRuleMatchCache d"

lemma ResetRuleMatchCache_idem [simp]:
  "ResetRuleMatchCache (ResetRuleMatchCache c) = ResetRuleMatchCache c"
  by (simp add: ResetRuleMatchCache_def)

lemma ResetRuleCache_idem [simp]: "ResetRuleCache (ResetRuleCache c) = ResetRuleCache c"
  by (simp add: ResetRuleCache_def ResetRuleMatchCache_def)

lemma Reset_DidMatch [simp]:
  "ResetRuleMatchCache (c\<lparr>mc_DidMatch := b\<rparr>) = ResetRuleMatchCache c"
  "ResetRuleCache (c\<lparr>mc_DidMatch := b\<rparr>) = ResetRuleCache c"
  by (simp_all add: ResetRuleCache_def ResetRuleMatchCache_def)

end
