(* ===== verification/Netip_Text.thy ===== *)
theory Netip_Text
  imports Netip
begin

text \<open>
  The textual forms of Go's \<^verbatim>\<open>net/netip\<close> and \<^verbatim>\<open>net\<close> packages that the
  configuration uses: \<^verbatim>\<open>ParseAddr\<close>, \<^verbatim>\<open>ParsePrefix\<close>, their \<^verbatim>\<open>String\<close>
  methods, \<^verbatim>\<open>strconv.ParseUint\<close>, and \<^verbatim>\<open>net.ParseMAC\<close> with
  \<^verbatim>\<open>HardwareAddr.String\<close>. The eight 16-bit groups of an IPv6 address stand for the
  sixteen bytes the parser fills.
\<close>

subsection \<open>Digits\<close>

definition is_digit :: "char \<Rightarrow> bool" where
  "is_digit c = ((48::nat) \<le> of_char c \<and> (of_char c :: nat) \<le> 57)"

definition digit_val :: "char \<Rightarrow> nat" where
  "digit_val c = of_char c - 48"

definition hex_val :: "char \<Rightarrow> nat option" where
  "hex_val c =
     (let n = (of_char c :: nat) in
      if 48 \<le> n \<and> n \<le> 57 then Some (n - 48)
      else if 97 \<le> n \<and> n \<le> 102 then Some (n - 97 + 10)
      else if 65 \<le> n \<and> n \<le> 70 then Some (n - 65 + 10)
      else None)"

definition is_hex :: "char \<Rightarrow> bool" where
  "is_hex c = (hex_val c \<noteq> None)"

definition hex_digit :: "nat \<Rightarrow> char" where
  "hex_digit n = (if n < 10 then char_of (48 + n) else char_of (87 + n))"

definition hex_num :: "string \<Rightarrow> nat" where
  "hex_num s = foldl (\<lambda>acc c. acc * 16 + (case hex_val c of Some d \<Rightarrow> d | None \<Rightarrow> 0)) 0 s"

definition dec_num :: "string \<Rightarrow> int" where
  "dec_num s = foldl (\<lambda>acc c. acc * 10 + int (digit_val c)) 0 s"

text \<open>\<^verbatim>\<open>strconv.ParseUint(s, 10, bits)\<close>.\<close>

definition ParseUint :: "nat \<Rightarrow> string \<Rightarrow> nat result" where
  "ParseUint bits s =
     (if s = [] then Inl (E_Sentinel ''invalid syntax'')
      else if \<not> list_all is_digit s then Inl (E_Sentinel ''invalid syntax'')
      else if 2 ^ bits \<le> dec_num s then Inl (E_Sentinel ''value out of range'')
      else Inr (nat (dec_num s)))"

subsection \<open>IPv4\<close>

fun parse_ipv4_loop :: "string \<Rightarrow> nat \<Rightarrow> nat \<Rightarrow> nat list \<Rightarrow> bool \<Rightarrow> nat list result" where
  \<comment> \<open>rest, \<open>val\<close>, \<open>digLen\<close>, the fields stored so far, whether a dot may not come now\<close>
  "parse_ipv4_loop [] val digLen flds dotBad =
     (if length flds < 3 then Inl (E_New ''IPv4 address too short'') else Inr (flds @ [val]))"
| "parse_ipv4_loop (c # s) val digLen flds dotBad =
     (if is_digit c then
        if digLen = 1 \<and> val = 0 then Inl (E_New ''IPv4 field has octet with leading zero'')
        else let val' = val * 10 + digit_val c in
          if 255 < val' then Inl (E_New ''IPv4 field has value >255'')
          else parse_ipv4_loop s val' (digLen + 1) flds False
      else if c = CHR ''.'' then
        if dotBad \<or> s = [] then Inl (E_New ''IPv4 field must have at least one digit'')
        else if length flds = 3 then Inl (E_New ''IPv4 address too long'')
        else parse_ipv4_loop s 0 0 (flds @ [val]) True
      else Inl (E_New ''unexpected character''))"

definition parse_ipv4_fields :: "string \<Rightarrow> nat list result" where
  "parse_ipv4_fields s = parse_ipv4_loop s 0 0 [] True"

definition addr4_of_fields :: "nat list \<Rightarrow> 32 word" where
  "addr4_of_fields flds = foldl (\<lambda>acc b. acc * 256 + of_nat b) 0 flds"

definition parse_ipv4 :: "string \<Rightarrow> netip_addr result" where
  "parse_ipv4 s = bind_result (parse_ipv4_fields s) (\<lambda>flds. Inr (A4 (addr4_of_fields flds)))"

subsection \<open>IPv6\<close>

text \<open>
  One round of the loop reads a group of hex digits. \<open>gs\<close> are the groups read so far
  (the byte position \<^verbatim>\<open>i\<close> of the source is twice their number), \<open>el\<close> the position
  of the ellipsis; the result is the state when the loop is left, with the unread rest.
\<close>

function parse_ipv6_loop ::
  "string \<Rightarrow> nat list \<Rightarrow> nat option \<Rightarrow> (nat list \<times> nat option \<times> string) result" where
  "parse_ipv6_loop s gs el =
     (if 8 \<le> length gs then Inr (gs, el, s)
      else let ds = takeWhile is_hex s; rest = dropWhile is_hex s in
        if 4 < length ds then Inl (E_New ''each group must have 4 or fewer digits'')
        else if ds = [] then Inl (E_New ''each colon-separated field must have at least one digit'')
        else if rest \<noteq> [] \<and> hd rest = CHR ''.'' then
          if el = None \<and> length gs \<noteq> 6 then
            Inl (E_New ''embedded IPv4 address must replace the final 2 fields of the address'')
          else if 6 < length gs then
            Inl (E_New ''too many hex fields to fit an embedded IPv4 at the end of the address'')
          else bind_result (parse_ipv4_fields s) (\<lambda>flds.
            case flds of
              [a, b, c, d] \<Rightarrow> Inr (gs @ [a * 256 + b, c * 256 + d], el, [])
            | _ \<Rightarrow> Inl (E_New ''unreachable''))
        else case rest of
          [] \<Rightarrow> Inr (gs @ [hex_num ds], el, [])
        | [c] \<Rightarrow> Inl (E_New (if c \<noteq> CHR '':'' then ''unexpected character, want colon''
                        else ''colon must be followed by more characters''))
        | c # d # t \<Rightarrow>
            if c \<noteq> CHR '':'' then Inl (E_New ''unexpected character, want colon'')
            else if d \<noteq> CHR '':'' then parse_ipv6_loop (d # t) (gs @ [hex_num ds]) el
            else if el \<noteq> None then Inl (E_New ''multiple :: in address'')
            else if t = [] then Inr (gs @ [hex_num ds], Some (Suc (length gs)), [])
            else parse_ipv6_loop t (gs @ [hex_num ds]) (Some (Suc (length gs))))"
  by pat_completeness auto
termination
  by (relation "measure (\<lambda>(s, gs, el). 8 - length gs)") auto

declare parse_ipv6_loop.simps [simp del]

definition addr6_of_groups :: "nat list \<Rightarrow> 128 word" where
  "addr6_of_groups gs = foldl (\<lambda>acc g. acc * 65536 + of_nat g) 0 gs"

definition split_zone :: "string \<Rightarrow> string \<times> string option" where
  "split_zone s =
     (case str_index s (CHR ''%'') of
        None \<Rightarrow> (s, None)
      | Some i \<Rightarrow> (take i s, Some (drop (Suc i) s)))"

definition finish_ipv6 :: "nat list \<Rightarrow> nat option \<Rightarrow> string \<Rightarrow> string \<Rightarrow> netip_addr result" where
  "finish_ipv6 gs el rest zone =
     (if rest \<noteq> [] then Inl (E_New ''trailing garbage after address'')
      else if length gs < 8 then
        (case el of
           None \<Rightarrow> Inl (E_New ''address string too short'')
         | Some i \<Rightarrow>
             Inr (A6 (addr6_of_groups (take i gs @ replicate (8 - length gs) 0 @ drop i gs)) zone))
      else if el \<noteq> None then Inl (E_New ''the :: must expand to at least one field of zeros'')
      else Inr (A6 (addr6_of_groups gs) zone))"

definition parse_ipv6 :: "string \<Rightarrow> netip_addr result" where
  "parse_ipv6 inp =
     (let (s, zoneOpt) = split_zone inp in
      if zoneOpt = Some [] then Inl (E_New ''zone must be a non-empty string'')
      else let zone = (case zoneOpt of None \<Rightarrow> [] | Some z \<Rightarrow> z) in
        if has_prefix s ''::'' then
          if drop 2 s = [] then Inr (A6 0 zone)
          else bind_result (parse_ipv6_loop (drop 2 s) [] (Some 0))
                 (\<lambda>(gs, el, rest). finish_ipv6 gs el rest zone)
        else bind_result (parse_ipv6_loop s [] None)
               (\<lambda>(gs, el, rest). finish_ipv6 gs el rest zone))"

text \<open>The first of the characters dot, colon and percent decides the family.\<close>

fun ParseAddr_scan :: "string \<Rightarrow> string \<Rightarrow> netip_addr result" where
  "ParseAddr_scan s [] = Inl (E_New ''unable to parse IP'')"
| "ParseAddr_scan s (c # cs) =
     (if c = CHR ''.'' then parse_ipv4 s
      else if c = CHR '':'' then parse_ipv6 s
      else if c = CHR ''%'' then Inl (E_New ''missing IPv6 address'')
      else ParseAddr_scan s cs)"

definition ParseAddr :: "string \<Rightarrow> netip_addr result" where
  "ParseAddr s = ParseAddr_scan s s"

fun last_index :: "string \<Rightarrow> char \<Rightarrow> nat option" where
  "last_index [] c = None"
| "last_index (d # s) c =
     (case last_index s c of Some i \<Rightarrow> Some (Suc i) | None \<Rightarrow> if c = d then Some 0 else None)"

definition ParsePrefix :: "string \<Rightarrow> netip_prefix result" where
  "ParsePrefix s =
     (case last_index s (CHR ''/'') of
        None \<Rightarrow> Inl (E_New ''no slash'')
      | Some i \<Rightarrow> bind_result (ParseAddr (take i s)) (\<lambda>ip.
          if addr_hasZone ip then Inl (E_New ''IPv6 zones cannot be present in a prefix'')
          else let bitsStr = drop (Suc i) s in
            if 1 < length bitsStr \<and> \<not> (is_digit (hd bitsStr) \<and> hd bitsStr \<noteq> CHR ''0'')
            then Inl (E_New ''bad bits after slash'')
            else bind_result (ParseUint 63 bitsStr) (\<lambda>bits.
              if addr_BitLen ip < bits then Inl (E_New ''prefix length out of range'')
              else Inr (PrefixFrom ip (int bits)))))"

subsection \<open>Printing addresses\<close>

definition addr4_fields :: "32 word \<Rightarrow> nat list" where
  "addr4_fields w = map (\<lambda>i. unat (take_bit 8 (drop_bit i w))) [24, 16, 8, 0]"

definition addr4_String :: "32 word \<Rightarrow> string" where
  "addr4_String w = str_join ''.'' (map show_nat (addr4_fields w))"

fun show_hex :: "nat \<Rightarrow> string" where
  "show_hex n = (if n < 16 then [hex_digit n] else show_hex (n div 16) @ [hex_digit (n mod 16)])"

declare show_hex.simps [simp del]

definition addr6_groups :: "128 word \<Rightarrow> nat list" where
  "addr6_groups w = map (\<lambda>i. unat (take_bit 16 (drop_bit i w))) [112, 96, 80, 64, 48, 32, 16, 0]"

text \<open>The first longest run of at least two zero groups, as start and end.\<close>

definition zero_run :: "nat list \<Rightarrow> (nat \<times> nat) option" where
  "zero_run gs =
     foldl (\<lambda>best i.
       let l = length (takeWhile (\<lambda>g. g = 0) (drop i gs)) in
       if 2 \<le> l \<and> (case best of None \<Rightarrow> True | Some (a, b) \<Rightarrow> b - a < l) then Some (i, i + l) else best)
     None [0..<8]"

definition addr6_String :: "128 word \<Rightarrow> string" where
  "addr6_String w =
     (let gs = addr6_groups w; hex = (\<lambda>xs. str_join '':'' (map show_hex xs)) in
      case zero_run gs of
        None \<Rightarrow> hex gs
      | Some (a, b) \<Rightarrow> hex (take a gs) @ ''::'' @ hex (drop b gs))"

definition zone_String :: "string \<Rightarrow> string" where
  "zone_String z = (if z = [] then [] else CHR ''%'' # z)"

fun addr_String :: "netip_addr \<Rightarrow> string" where
  "addr_String (Z0 _) = ''invalid IP''"
| "addr_String (A4 w) = addr4_String w"
| "addr_String (A6 w z) =
     (if drop_bit 32 w = 0xFFFF then ''::ffff:'' @ addr4_String (ucast w) @ zone_String z
      else addr6_String w @ zone_String z)"

definition prefix_String :: "netip_prefix \<Rightarrow> string" where
  "prefix_String p =
     (if \<not> prefix_IsValid p then ''invalid Prefix''
      else addr_String (pfx_ip p) @ ''/'' @ show_nat (prefix_Bits p))"

subsection \<open>Hardware addresses\<close>

definition hex_byte :: "byte \<Rightarrow> string" where
  "hex_byte b = [hex_digit (unat b div 16), hex_digit (unat b mod 16)]"

definition mac_String :: "byte list \<Rightarrow> string" where
  "mac_String hw = str_join '':'' (map hex_byte hw)"

definition xtoi :: "char \<Rightarrow> char \<Rightarrow> byte option" where
  "xtoi a b =
     (case (hex_val a, hex_val b) of
        (Some x, Some y) \<Rightarrow> Some (of_nat (x * 16 + y))
      | _ \<Rightarrow> None)"

text \<open>
  \<^verbatim>\<open>xtoi2(s, e)\<close> over the rest of the input: two hex digits, then the separator
  \<open>e\<close> unless the input ends; the loop moves past the separator.
\<close>

fun parse_mac_colon :: "char \<Rightarrow> string \<Rightarrow> byte list option" where
  "parse_mac_colon e [a, b] = map_option (\<lambda>x. [x]) (xtoi a b)"
| "parse_mac_colon e (a # b # c # s) =
     (if c \<noteq> e then None
      else case (xtoi a b, parse_mac_colon e s) of
        (Some x, Some xs) \<Rightarrow> Some (x # xs) | _ \<Rightarrow> None)"
| "parse_mac_colon e _ = None"

fun parse_mac_dot :: "string \<Rightarrow> byte list option" where
  "parse_mac_dot [a, b, c, d] =
     (case (xtoi a b, xtoi c d) of (Some x, Some y) \<Rightarrow> Some [x, y] | _ \<Rightarrow> None)"
| "parse_mac_dot (a # b # c # d # e # s) =
     (if e \<noteq> CHR ''.'' then None
      else case (xtoi a b, xtoi c d, parse_mac_dot s) of
        (Some x, Some y, Some xs) \<Rightarrow> Some (x # y # xs) | _ \<Rightarrow> None)"
| "parse_mac_dot _ = None"

definition mac_len_ok :: "nat \<Rightarrow> bool" where
  "mac_len_ok n = (n = 6 \<or> n = 8 \<or> n = 20)"

definition ParseMAC :: "string \<Rightarrow> byte list option" where
  "ParseMAC s =
     (if length s < 14 then None
      else if s ! 2 = CHR '':'' \<or> s ! 2 = CHR ''-'' then
        if (length s + 1) mod 3 \<noteq> 0 \<or> \<not> mac_len_ok ((length s + 1) div 3) then None
        else parse_mac_colon (s ! 2) s
      else if s ! 4 = CHR ''.'' then
        if (length s + 1) mod 5 \<noteq> 0 \<or> \<not> mac_len_ok (2 * (length s + 1) div 5) then None
        else parse_mac_dot s
      else None)"

subsection \<open>Facts\<close>

lemma hex_val_hex_digit: "n < 16 \<Longrightarrow> hex_val (hex_digit n) = Some n"
  by (auto simp: hex_val_def hex_digit_def Let_def of_char_of)

lemma is_hex_hex_digit [simp]: "n < 16 \<Longrightarrow> is_hex (hex_digit n)"
  by (simp add: is_hex_def hex_val_hex_digit)

lemma xtoi_hex_byte: "xtoi (hex_digit (unat b div 16)) (hex_digit (unat b mod 16)) = Some (b :: byte)"
proof -
  have "unat b < 256" using unsigned_less [of b, where ?'a = nat] by simp
  then have "unat b div 16 < 16" by auto
  then show ?thesis
    by (simp add: xtoi_def hex_val_hex_digit)
qed

text \<open>Printing a hardware address and parsing it again gives the address back.\<close>

lemma parse_mac_colon_print:
  "hw \<noteq> [] \<Longrightarrow> parse_mac_colon (CHR '':'') (mac_String hw) = Some hw"
proof (induction hw)
  case Nil
  then show ?case by simp
next
  case (Cons b hw)
  show ?case
  proof (cases hw)
    case Nil
    then show ?thesis by (simp add: mac_String_def hex_byte_def xtoi_hex_byte)
  next
    case (Cons c cs)
    have "mac_String (b # hw) =
        hex_digit (unat b div 16) # hex_digit (unat b mod 16) # CHR '':'' # mac_String hw"
      by (simp add: mac_String_def hex_byte_def Cons)
    then show ?thesis using Cons.IH Cons by (simp add: xtoi_hex_byte)
  qed
qed

lemma length_mac_String: "hw \<noteq> [] \<Longrightarrow> length (mac_String hw) = 3 * length hw - 1"
proof (induction hw)
  case Nil
  then show ?case by simp
next
  case (Cons b hw)
  then show ?case
    by (cases hw) (auto simp: mac_String_def hex_byte_def)
qed

lemma ParseMAC_mac_String:
  assumes "mac_len_ok (length hw)"
  shows "ParseMAC (mac_String hw) = Some hw"
proof -
  from assms have ne: "hw \<noteq> []" and len: "6 \<le> length hw" by (auto simp: mac_len_ok_def)
  then obtain b c cs where hw: "hw = b # c # cs"
    by (cases hw; cases "tl hw") auto
  have l: "length (mac_String hw) = 3 * length hw - 1" using ne by (rule length_mac_String)
  have "mac_String hw ! 2 = CHR '':''"
    by (simp add: hw mac_String_def hex_byte_def)
  moreover have "length (mac_String hw) + 1 = 3 * length hw" using l len by simp
  ultimately show ?thesis
    using assms len l parse_mac_colon_print [OF ne] by (simp add: ParseMAC_def)
qed

lemma parse_ipv4_loop_length:
  "parse_ipv4_loop s val d flds b = Inr r \<Longrightarrow> length flds \<le> 3 \<Longrightarrow> length r = 4"
proof (induction s val d flds b rule: parse_ipv4_loop.induct)
  case (1 val d flds b)
  then show ?case by (auto split: if_splits)
next
  case (2 c s val d flds b)
  then show ?case by (simp add: Let_def split: if_splits)
qed

lemma parse_ipv4_fields_length: "parse_ipv4_fields s = Inr r \<Longrightarrow> length r = 4"
  by (auto simp: parse_ipv4_fields_def dest: parse_ipv4_loop_length)

end
