(* ===== verification/Rule_Item.thy ===== *)
theory Rule_Item
  imports Metadata Netip_Text
begin

text \<open>
  The rule items of \<^verbatim>\<open>route/rule/rule_item_*.go\<close> and
  \<^verbatim>\<open>rule_*interface_address.go\<close>: one constructor per item type with the fields of
  its struct, the constructor functions \<^verbatim>\<open>New...Item\<close>, and the methods
  \<^verbatim>\<open>Match\<close> and \<^verbatim>\<open>String\<close>. No \<^verbatim>\<open>Match\<close> of an item writes to the context,
  so it is a predicate. An outbound or DNS transport resolved by \<^verbatim>\<open>Start\<close> is
  represented by its tag, a compiled regular expression by its source text.
\<close>

subsection \<open>The items\<close>

type_synonym 'k bool_map = "'k \<rightharpoonup> bool"

datatype record_selector = SelAnswer | SelNs | SelExtra

datatype 'x rule_item =
    InboundItem "string list" "string bool_map"
  | IPVersionItem bool
  | NetworkItem "string list" "string bool_map"
  | AuthUserItem "string list" "string bool_map"
  | ProtocolItem "string list" "string bool_map"
  | ClientItem "string list" "string bool_map"
  | DomainItem 'x string
  | DomainKeywordItem "string list"
  | DomainRegexItem "string list" string
  | AdGuardDomainItem 'x
  | IPCIDRItem ipset bool string
  | IPIsPrivateItem bool
  | IPAcceptAnyItem
  | PortItem "16 word list" "(16 word) bool_map" bool
  | PortRangeItem bool "string list" "(16 word \<times> 16 word) list"
  | ProcessItem "string list" "string bool_map"
  | ProcessPathItem "string list" "string bool_map"
  | ProcessPathRegexItem "string list" string
  | PackageNameItem "string list" "string bool_map"
  | PackageNameRegexItem "string list" string
  | UserItem "string list" "string bool_map"
  | UserIdItem "int list" "int bool_map"
  | OutboundItem "string list" "string bool_map" bool
  | ClashModeItem string
  | NetworkTypeItem "interface_type list"
  | NetworkIsExpensiveItem
  | NetworkIsConstrainedItem
  | WIFISSIDItem "string list" "string bool_map"
  | WIFIBSSIDItem "string list" "string bool_map"
  | InterfaceAddressItem "(string \<times> netip_prefix list) list" string
  | NetworkInterfaceAddressItem "(interface_type \<times> netip_prefix list) list" string
  | DefaultInterfaceAddressItem "netip_prefix list"
  | SourceMACAddressItem "string list" "string bool_map"
  | SourceHostnameItem "string list" "string bool_map"
  | PreferredByItem "string list" "string list"
  | PreferredByDNSItem "string list" "string list"
  | QueryTypeItem "16 word list" "(16 word) bool_map"
  | DNSResponseRCodeItem int
  | DNSResponseRecordItem string "dns_rr option list" record_selector

subsection \<open>Shared pieces\<close>

text \<open>The host name a rule matches: the sniffed or mapped domain, else the requested one.\<close>

definition domainHost :: "inbound_context \<Rightarrow> string" where
  "domainHost metadata =
     (if mc_Domain metadata \<noteq> [] then mc_Domain metadata else sa_Fqdn (mc_Destination metadata))"

definition describe_all :: "string \<Rightarrow> string list \<Rightarrow> string" where
  "describe_all name xs =
     (case xs of [x] \<Rightarrow> name @ x | _ \<Rightarrow> name @ ''['' @ str_join '' '' xs @ '']'')"

definition describe_three :: "string \<Rightarrow> string \<Rightarrow> string list \<Rightarrow> string" where
  \<comment> \<open>more than three elements are cut, with \<open>dots\<close> before the bracket\<close>
  "describe_three name dots xs =
     (case xs of
        [x] \<Rightarrow> name @ x
      | _ \<Rightarrow> if 3 < length xs then name @ ''['' @ str_join '' '' (take 3 xs) @ dots @ '']''
             else name @ ''['' @ str_join '' '' xs @ '']'')"

fun interface_type_String :: "interface_type \<Rightarrow> string" where
  "interface_type_String t =
     (if t = 0 then ''wifi'' else if t = 1 then ''cellular'' else if t = 2 then ''ethernet''
      else if t = 3 then ''other'' else show_nat (unat t))"

definition DNSQueryTypeToString :: "'x env \<Rightarrow> 16 word \<Rightarrow> string" where
  "DNSQueryTypeToString e t = (case x_TypeToString e t of Some name \<Rightarrow> name | None \<Rightarrow> show_nat (unat t))"

text \<open>\<^verbatim>\<open>filepath.Base\<close> with the Unix separator.\<close>

definition Base :: "string \<Rightarrow> string" where
  "Base path =
     (if path = [] then ''.''
      else let stripped = rev (dropWhile (\<lambda>c. c = CHR ''/'') (rev path));
               element = rev (takeWhile (\<lambda>c. c \<noteq> CHR ''/'') (rev stripped))
           in if element = [] then ''/'' else element)"

text \<open>\<^verbatim>\<open>strings.TrimSpace\<close> for ASCII white space.\<close>

definition is_space :: "char \<Rightarrow> bool" where
  "is_space c = ((of_char c :: nat) \<in> {9, 10, 11, 12, 13, 32})"

definition TrimSpace :: "string \<Rightarrow> string" where
  "TrimSpace s = rev (dropWhile is_space (rev (dropWhile is_space s)))"

fun decode_hex :: "string \<Rightarrow> byte list option" where
  "decode_hex [] = Some []"
| "decode_hex (a # b # s) =
     (case (xtoi a b, decode_hex s) of (Some x, Some xs) \<Rightarrow> Some (x # xs) | _ \<Rightarrow> None)"
| "decode_hex [a] = None"

definition NormalizeWIFIBSSID :: "string \<Rightarrow> string" where
  "NormalizeWIFIBSSID raw =
     (let bssid = TrimSpace raw;
          fallback =
            (if length bssid = 12 then
               (case decode_hex bssid of Some hw \<Rightarrow> mac_String hw | None \<Rightarrow> bssid)
             else bssid)
      in if bssid = [] then []
         else case ParseMAC bssid of
           Some hw \<Rightarrow> if length hw = 6 then mac_String hw else fallback
         | None \<Rightarrow> fallback)"

subsection \<open>Constructors\<close>

definition NewInboundRule :: "string list \<Rightarrow> 'x rule_item" where
  "NewInboundRule inbounds = InboundItem inbounds (map_set_all Map.empty inbounds)"

definition NewIPVersionItem :: "bool \<Rightarrow> 'x rule_item" where
  "NewIPVersionItem isIPv6 = IPVersionItem isIPv6"

definition NewNetworkItem :: "string list \<Rightarrow> 'x rule_item" where
  "NewNetworkItem networks = NetworkItem networks (map_set_all Map.empty networks)"

definition NewAuthUserItem :: "string list \<Rightarrow> 'x rule_item" where
  "NewAuthUserItem users = AuthUserItem users (map_set_all Map.empty users)"

definition NewProtocolItem :: "string list \<Rightarrow> 'x rule_item" where
  "NewProtocolItem protocols = ProtocolItem protocols (map_set_all Map.empty protocols)"

definition NewClientItem :: "string list \<Rightarrow> 'x rule_item" where
  "NewClientItem clients = ClientItem clients (map_set_all Map.empty clients)"

definition NewDomainItem :: "'x env \<Rightarrow> string list \<Rightarrow> string list \<Rightarrow> 'x rule_item result" where
  "NewDomainItem e domains domainSuffixes =
     (if [] \<in> set domains then Inl (E_New ''domain: empty item is not allowed'')
      else if [] \<in> set domainSuffixes then Inl (E_New ''domain_suffix: empty item is not allowed'')
      else let d = (if domains = [] then [] else describe_three ''domain='' ''...'' domains);
               description =
                 (if domainSuffixes = [] then d
                  else d @ (if d = [] then [] else '' '') @
                       describe_three ''domain_suffix='' ''...'' domainSuffixes)
           in Inr (DomainItem (x_NewMatcher e domains domainSuffixes False) description))"

definition NewRawDomainItem :: "'x \<Rightarrow> 'x rule_item" where
  "NewRawDomainItem matcher = DomainItem matcher ''domain/domain_suffix=<binary>''"

definition NewDomainKeywordItem :: "string list \<Rightarrow> 'x rule_item" where
  "NewDomainKeywordItem keywords = DomainKeywordItem keywords"

fun compile_all :: "'x env \<Rightarrow> nat \<Rightarrow> string list \<Rightarrow> string list result" where
  "compile_all e i [] = Inr []"
| "compile_all e i (r # rs) =
     (case x_RegexpCompile e r of
        Some err \<Rightarrow> Inl (E_Cause err (''parse expression '' @ show_nat i))
      | None \<Rightarrow> bind_result (compile_all e (Suc i) rs) (\<lambda>ms. Inr (r # ms)))"

definition NewDomainRegexItem :: "'x env \<Rightarrow> string list \<Rightarrow> 'x rule_item result" where
  "NewDomainRegexItem e expressions =
     bind_result (compile_all e 0 expressions)
       (\<lambda>matchers. Inr (DomainRegexItem matchers (describe_three ''domain_regex='' [] expressions)))"

definition NewAdGuardDomainItem :: "'x env \<Rightarrow> string list \<Rightarrow> 'x rule_item" where
  "NewAdGuardDomainItem e ruleLines = AdGuardDomainItem (x_NewAdGuardMatcher e ruleLines)"

definition NewRawAdGuardDomainItem :: "'x \<Rightarrow> 'x rule_item" where
  "NewRawAdGuardDomainItem matcher = AdGuardDomainItem matcher"

text \<open>
  The loop of \<^verbatim>\<open>NewIPCIDRItem\<close>: an entry is a prefix or else an address; the error
  reported is the one of the prefix parser.
\<close>

fun cidr_entries :: "nat \<Rightarrow> string list \<Rightarrow> ipset_entry list result" where
  "cidr_entries i [] = Inr []"
| "cidr_entries i (s # ss) =
     (case ParsePrefix s of
        Inr prefix \<Rightarrow> bind_result (cidr_entries (Suc i) ss) (\<lambda>es. Inr (BuilderPrefix prefix # es))
      | Inl err \<Rightarrow>
          (case ParseAddr s of
             Inr addr \<Rightarrow> bind_result (cidr_entries (Suc i) ss) (\<lambda>es. Inr (BuilderAddr addr # es))
           | Inl _ \<Rightarrow> Inl (E_Cause err (''parse ['' @ show_nat i @ '']''))))"

definition cidr_name :: "bool \<Rightarrow> string" where
  "cidr_name isSource = (if isSource then ''source_ip_cidr='' else ''ip_cidr='')"

definition NewIPCIDRItem :: "'x env \<Rightarrow> bool \<Rightarrow> string list \<Rightarrow> 'x rule_item result" where
  "NewIPCIDRItem e isSource prefixStrings =
     bind_result (cidr_entries 0 prefixStrings) (\<lambda>entries.
     bind_result (x_IPSetBuild e entries) (\<lambda>ipSet.
       Inr (IPCIDRItem ipSet isSource (describe_three (cidr_name isSource) ''...'' prefixStrings))))"

definition NewRawIPCIDRItem :: "bool \<Rightarrow> ipset \<Rightarrow> 'x rule_item" where
  "NewRawIPCIDRItem isSource ipSet = IPCIDRItem ipSet isSource (cidr_name isSource @ ''<binary>'')"

definition NewIPIsPrivateItem :: "bool \<Rightarrow> 'x rule_item" where
  "NewIPIsPrivateItem isSource = IPIsPrivateItem isSource"

definition NewIPAcceptAnyItem :: "'x rule_item" where
  "NewIPAcceptAnyItem = IPAcceptAnyItem"

definition NewPortItem :: "bool \<Rightarrow> 16 word list \<Rightarrow> 'x rule_item" where
  "NewPortItem isSource ports = PortItem ports (map_set_all Map.empty ports) isSource"

definition err_bad_port_range :: "string \<Rightarrow> error" where
  "err_bad_port_range portRange = E_Cause (E_Sentinel ''bad port range'') portRange"

text \<open>One element of a port range list: \<open>start:end\<close>, either side may be missing.\<close>

definition parse_port_range :: "string \<Rightarrow> (16 word \<times> 16 word) result" where
  "parse_port_range portRange =
     (case str_index portRange (CHR '':'') of
        None \<Rightarrow> Inl (err_bad_port_range portRange)
      | Some subIndex \<Rightarrow>
          bind_result
            (if 0 < subIndex then cause_result (''bad port range: '' @ portRange) (ParseUint 16 (take subIndex portRange)) else Inr 0)
            (\<lambda>start.
          bind_result
            (if subIndex = length portRange - 1 then Inr 0xFFFF
             else cause_result (''bad port range: '' @ portRange) (ParseUint 16 (drop (Suc subIndex) portRange)))
            (\<lambda>end_port. Inr (of_nat start, of_nat end_port))))"

definition NewPortRangeItem :: "bool \<Rightarrow> string list \<Rightarrow> 'x rule_item result" where
  "NewPortRangeItem isSource rangeList =
     bind_result (map_result parse_port_range rangeList)
       (\<lambda>portRangeList. Inr (PortRangeItem isSource rangeList portRangeList))"

definition NewProcessItem :: "string list \<Rightarrow> 'x rule_item" where
  "NewProcessItem names = ProcessItem names (map_set_all Map.empty names)"

definition NewProcessPathItem :: "string list \<Rightarrow> 'x rule_item" where
  "NewProcessPathItem names = ProcessPathItem names (map_set_all Map.empty names)"

definition NewProcessPathRegexItem :: "'x env \<Rightarrow> string list \<Rightarrow> 'x rule_item result" where
  "NewProcessPathRegexItem e expressions =
     bind_result (compile_all e 0 expressions)
       (\<lambda>ms. Inr (ProcessPathRegexItem ms (describe_three ''process_path_regex='' [] expressions)))"

definition NewPackageNameItem :: "string list \<Rightarrow> 'x rule_item" where
  "NewPackageNameItem names = PackageNameItem names (map_set_all Map.empty names)"

definition NewPackageNameRegexItem :: "'x env \<Rightarrow> string list \<Rightarrow> 'x rule_item result" where
  "NewPackageNameRegexItem e expressions =
     bind_result (compile_all e 0 expressions)
       (\<lambda>ms. Inr (PackageNameRegexItem ms (describe_three ''package_name_regex='' [] expressions)))"

definition NewUserItem :: "string list \<Rightarrow> 'x rule_item" where
  "NewUserItem users = UserItem users (map_set_all Map.empty users)"

definition NewUserIDItem :: "int list \<Rightarrow> 'x rule_item" where
  "NewUserIDItem ids = UserIdItem ids (map_set_all Map.empty ids)"

definition NewOutboundRule :: "string list \<Rightarrow> 'x rule_item" where
  "NewOutboundRule outbounds =
     OutboundItem outbounds
       (map_set_all Map.empty (filter (\<lambda>o'. o' \<noteq> ''any'') outbounds))
       (''any'' \<in> set outbounds)"

definition NewClashModeItem :: "string \<Rightarrow> 'x rule_item" where
  "NewClashModeItem mode = ClashModeItem mode"

definition NewNetworkTypeItem :: "interface_type list \<Rightarrow> 'x rule_item" where
  "NewNetworkTypeItem types = NetworkTypeItem types"

definition NewWIFISSIDItem :: "string list \<Rightarrow> 'x rule_item" where
  "NewWIFISSIDItem ssids = WIFISSIDItem ssids (map_set_all Map.empty ssids)"

definition NewWIFIBSSIDItem :: "string list \<Rightarrow> 'x rule_item" where
  "NewWIFIBSSIDItem bssids =
     WIFIBSSIDItem bssids (map_set_all Map.empty (map NormalizeWIFIBSSID bssids))"

text \<open>
  The maps of the interface address items are filled from the entries of an insertion
  ordered map whose keys are distinct; they are kept as association lists because
  \<^verbatim>\<open>Match\<close> ranges over them.
\<close>

definition NewInterfaceAddressItem :: "(string \<times> netip_prefix list) list \<Rightarrow> 'x rule_item" where
  "NewInterfaceAddressItem entries =
     InterfaceAddressItem entries
       (''interface_address=['' @
        str_join '' '' (map (\<lambda>(k, ps). k @ ''='' @ str_join '','' (map prefix_String ps)) entries) @ '']'')"

definition NewNetworkInterfaceAddressItem ::
  "(interface_type \<times> netip_prefix list) list \<Rightarrow> 'x rule_item" where
  "NewNetworkInterfaceAddressItem entries =
     NetworkInterfaceAddressItem entries
       (''network_interface_address=['' @
        str_join '' ''
          (map (\<lambda>(k, ps). interface_type_String k @ ''='' @ str_join '','' (map prefix_String ps)) entries) @ '']'')"

definition NewDefaultInterfaceAddressItem :: "netip_prefix list \<Rightarrow> 'x rule_item" where
  "NewDefaultInterfaceAddressItem prefixes = DefaultInterfaceAddressItem prefixes"

definition mac_key :: "string \<Rightarrow> string" where
  "mac_key address = (case ParseMAC address of Some parsed \<Rightarrow> mac_String parsed | None \<Rightarrow> address)"

definition NewSourceMACAddressItem :: "string list \<Rightarrow> 'x rule_item" where
  "NewSourceMACAddressItem addresses =
     SourceMACAddressItem addresses (map_set_all Map.empty (map mac_key addresses))"

definition NewSourceHostnameItem :: "string list \<Rightarrow> 'x rule_item" where
  "NewSourceHostnameItem hostnames = SourceHostnameItem hostnames (map_set_all Map.empty hostnames)"

definition NewPreferredByItem :: "string list \<Rightarrow> 'x rule_item" where
  "NewPreferredByItem tags = PreferredByItem tags []"

definition NewPreferredByDNSItem :: "string list \<Rightarrow> 'x rule_item" where
  "NewPreferredByDNSItem tags = PreferredByDNSItem tags []"

definition NewQueryTypeItem :: "16 word list \<Rightarrow> 'x rule_item" where
  "NewQueryTypeItem types = QueryTypeItem types (map_set_all Map.empty types)"

definition NewDNSResponseRCodeItem :: "int \<Rightarrow> 'x rule_item" where
  "NewDNSResponseRCodeItem rcode = DNSResponseRCodeItem rcode"

definition NewDNSResponseRecordItem ::
  "string \<Rightarrow> dns_rr option list \<Rightarrow> record_selector \<Rightarrow> 'x rule_item" where
  "NewDNSResponseRecordItem name records sel = DNSResponseRecordItem name records sel"

subsection \<open>Match\<close>

definition IPCIDRItem_Match :: "'x env \<Rightarrow> ipset \<Rightarrow> bool \<Rightarrow> inbound_context \<Rightarrow> bool" where
  "IPCIDRItem_Match e ipSet isSource metadata =
     (if isSource \<or> mc_IPCIDRMatchSource metadata
      then x_IPSetContains e ipSet (sa_Addr (mc_Source metadata))
      else if mc_DestinationAddressMatchFromResponse metadata then
        (let addresses = DNSResponseAddressesForMatch e metadata in
         if addresses = [] then mc_IPCIDRAcceptEmpty metadata
         else list_ex (x_IPSetContains e ipSet) addresses)
      else if x_IsIP e (mc_Destination metadata)
      then x_IPSetContains e ipSet (sa_Addr (mc_Destination metadata))
      else if mc_DestinationAddresses metadata \<noteq> []
      then list_ex (x_IPSetContains e ipSet) (mc_DestinationAddresses metadata)
      else mc_IPCIDRAcceptEmpty metadata)"

definition IPIsPrivateItem_Match :: "'x env \<Rightarrow> bool \<Rightarrow> inbound_context \<Rightarrow> bool" where
  "IPIsPrivateItem_Match e isSource metadata =
     (if isSource then \<not> x_IsPublicAddr e (sa_Addr (mc_Source metadata))
      else if mc_DestinationAddressMatchFromResponse metadata then
        list_ex (\<lambda>a. \<not> x_IsPublicAddr e a) (DNSResponseAddressesForMatch e metadata)
      else if addr_IsValid (sa_Addr (mc_Destination metadata))
      then \<not> x_IsPublicAddr e (sa_Addr (mc_Destination metadata))
      else list_ex (\<lambda>a. \<not> x_IsPublicAddr e a) (mc_DestinationAddresses metadata))"

definition PortRangeItem_Match ::
  "bool \<Rightarrow> (16 word \<times> 16 word) list \<Rightarrow> inbound_context \<Rightarrow> bool" where
  "PortRangeItem_Match isSource portRangeList metadata =
     (let port = (if isSource then sa_Port (mc_Source metadata) else sa_Port (mc_Destination metadata))
      in list_ex (\<lambda>(start, end_port). start \<le> port \<and> port \<le> end_port) portRangeList)"

definition ProcessPathItem_Match ::
  "'x env \<Rightarrow> string bool_map \<Rightarrow> inbound_context \<Rightarrow> bool" where
  "ProcessPathItem_Match e processMap metadata =
     (case mc_ProcessInfo metadata of
        None \<Rightarrow> False
      | Some info \<Rightarrow>
          (co_ProcessPath info \<noteq> [] \<and> map_get processMap (co_ProcessPath info)) \<or>
          (w_IsAndroid e \<and> list_ex (map_get processMap) (co_AndroidPackageNames info)))"

definition InterfaceAddressItem_Match ::
  "'x env \<Rightarrow> (string \<times> netip_prefix list) list \<Rightarrow> bool" where
  "InterfaceAddressItem_Match e entries =
     list_all (\<lambda>(ifName, addresses).
       case find (\<lambda>it. ni_Name it = ifName) (w_FinderInterfaces e) of
         None \<Rightarrow> False
       | Some iface \<Rightarrow> ni_Name iface \<noteq> [] \<and>
           \<not> list_all (\<lambda>address. list_all (\<lambda>it. \<not> prefix_Overlaps address it) (ni_Addresses iface)) addresses)
     entries"

definition NetworkInterfaceAddressItem_Match ::
  "'x env \<Rightarrow> (interface_type \<times> netip_prefix list) list \<Rightarrow> bool" where
  "NetworkInterfaceAddressItem_Match e entries =
     list_all (\<lambda>(ifType, addresses).
       list_ex (\<lambda>iface.
         ni_Name iface \<notin> set (w_MyInterfaces e) \<and> ni_Type iface = ifType \<and>
         list_ex (\<lambda>it. list_ex (\<lambda>prefix. prefix_Overlaps prefix it) addresses) (ni_Addresses iface))
       (w_NetworkInterfaces e))
     entries"

definition DefaultInterfaceAddressItem_Match :: "'x env \<Rightarrow> netip_prefix list \<Rightarrow> bool" where
  "DefaultInterfaceAddressItem_Match e addresses =
     (case w_MonitorDefaultInterface e of
        None \<Rightarrow> False
      | Some iface \<Rightarrow>
          list_all (\<lambda>address.
            \<not> list_all (\<lambda>it. \<not> prefix_Overlaps address it) (ni_Addresses iface)) addresses)"

definition PreferredByItem_Match :: "'x env \<Rightarrow> string list \<Rightarrow> inbound_context \<Rightarrow> bool" where
  "PreferredByItem_Match e outbounds metadata =
     ((domainHost metadata \<noteq> [] \<and>
       list_ex (\<lambda>o'. x_PreferredDomain e o' (mc_PreMatch metadata) (domainHost metadata)) outbounds) \<or>
      (x_IsIP e (mc_Destination metadata) \<and>
       list_ex (\<lambda>o'. x_PreferredAddress e o' (mc_PreMatch metadata) (sa_Addr (mc_Destination metadata))) outbounds) \<or>
      list_ex (\<lambda>address. list_ex (\<lambda>o'. x_PreferredAddress e o' (mc_PreMatch metadata) address) outbounds)
        (mc_DestinationAddresses metadata))"

fun select_records :: "record_selector \<Rightarrow> dns_msg \<Rightarrow> dns_rr list" where
  "select_records SelAnswer m = msg_Answer m"
| "select_records SelNs m = msg_Ns m"
| "select_records SelExtra m = msg_Extra m"

definition DNSRecordOptions_Match :: "'x env \<Rightarrow> dns_rr option \<Rightarrow> dns_rr \<Rightarrow> bool" where
  "DNSRecordOptions_Match e expected record =
     (case expected of None \<Rightarrow> False | Some rr \<Rightarrow> x_IsDuplicate e rr record)"

definition InboundItem_Match :: "string bool_map \<Rightarrow> inbound_context \<Rightarrow> bool" where
  "InboundItem_Match m metadata = map_get m (mc_Inbound metadata)"

definition IPVersionItem_Match :: "'x env \<Rightarrow> bool \<Rightarrow> inbound_context \<Rightarrow> bool" where
  "IPVersionItem_Match e isIPv6 metadata =
     ((mc_IPVersion metadata \<noteq> 0 \<and> (mc_IPVersion metadata = 6) = isIPv6) \<or>
      (x_IsIP e (mc_Destination metadata) \<and> x_IsIPv6 e (mc_Destination metadata) = isIPv6))"

definition NetworkItem_Match :: "string bool_map \<Rightarrow> inbound_context \<Rightarrow> bool" where
  "NetworkItem_Match m metadata = map_get m (mc_Network metadata)"

definition AuthUserItem_Match :: "string bool_map \<Rightarrow> inbound_context \<Rightarrow> bool" where
  "AuthUserItem_Match m metadata = map_get m (mc_User metadata)"

definition ProtocolItem_Match :: "string bool_map \<Rightarrow> inbound_context \<Rightarrow> bool" where
  "ProtocolItem_Match m metadata = map_get m (mc_Protocol metadata)"

definition ClientItem_Match :: "string bool_map \<Rightarrow> inbound_context \<Rightarrow> bool" where
  "ClientItem_Match m metadata = map_get m (mc_Client metadata)"

definition DomainItem_Match :: "'x env \<Rightarrow> 'x \<Rightarrow> inbound_context \<Rightarrow> bool" where
  "DomainItem_Match e matcher metadata =
     (domainHost metadata \<noteq> [] \<and> x_MatcherMatch e matcher (ToLower e (domainHost metadata)))"

definition DomainKeywordItem_Match :: "'x env \<Rightarrow> string list \<Rightarrow> inbound_context \<Rightarrow> bool" where
  "DomainKeywordItem_Match e keywords metadata =
     (domainHost metadata \<noteq> [] \<and>
      list_ex (str_contains (ToLower e (domainHost metadata))) keywords)"

definition DomainRegexItem_Match :: "'x env \<Rightarrow> string list \<Rightarrow> inbound_context \<Rightarrow> bool" where
  "DomainRegexItem_Match e matchers metadata =
     (domainHost metadata \<noteq> [] \<and>
      list_ex (\<lambda>m. x_MatchString e m (ToLower e (domainHost metadata))) matchers)"

definition AdGuardDomainItem_Match :: "'x env \<Rightarrow> 'x \<Rightarrow> inbound_context \<Rightarrow> bool" where
  "AdGuardDomainItem_Match e matcher metadata =
     (domainHost metadata \<noteq> [] \<and> x_AdGuardMatch e matcher (ToLower e (domainHost metadata)))"

definition IPAcceptAnyItem_Match :: "'x env \<Rightarrow> inbound_context \<Rightarrow> bool" where
  "IPAcceptAnyItem_Match e metadata =
     (if mc_DestinationAddressMatchFromResponse metadata
      then DNSResponseAddressesForMatch e metadata \<noteq> []
      else mc_DestinationAddresses metadata \<noteq> [])"

definition PortItem_Match :: "(16 word) bool_map \<Rightarrow> bool \<Rightarrow> inbound_context \<Rightarrow> bool" where
  "PortItem_Match m isSource metadata =
     (if isSource then map_get m (sa_Port (mc_Source metadata))
      else map_get m (sa_Port (mc_Destination metadata)))"

definition ProcessItem_Match :: "string bool_map \<Rightarrow> inbound_context \<Rightarrow> bool" where
  "ProcessItem_Match m metadata =
     (case mc_ProcessInfo metadata of
        None \<Rightarrow> False
      | Some info \<Rightarrow> co_ProcessPath info \<noteq> [] \<and> map_get m (Base (co_ProcessPath info)))"

definition ProcessPathRegexItem_Match :: "'x env \<Rightarrow> string list \<Rightarrow> inbound_context \<Rightarrow> bool" where
  "ProcessPathRegexItem_Match e matchers metadata =
     (case mc_ProcessInfo metadata of
        None \<Rightarrow> False
      | Some info \<Rightarrow> co_ProcessPath info \<noteq> [] \<and>
          list_ex (\<lambda>m. x_MatchString e m (co_ProcessPath info)) matchers)"

definition PackageNameItem_Match :: "string bool_map \<Rightarrow> inbound_context \<Rightarrow> bool" where
  "PackageNameItem_Match m metadata =
     (case mc_ProcessInfo metadata of
        None \<Rightarrow> False
      | Some info \<Rightarrow> list_ex (map_get m) (co_AndroidPackageNames info))"

definition PackageNameRegexItem_Match :: "'x env \<Rightarrow> string list \<Rightarrow> inbound_context \<Rightarrow> bool" where
  "PackageNameRegexItem_Match e matchers metadata =
     (case mc_ProcessInfo metadata of
        None \<Rightarrow> False
      | Some info \<Rightarrow> co_AndroidPackageNames info \<noteq> [] \<and>
          list_ex (\<lambda>m. list_ex (x_MatchString e m) (co_AndroidPackageNames info)) matchers)"

definition UserItem_Match :: "string bool_map \<Rightarrow> inbound_context \<Rightarrow> bool" where
  "UserItem_Match m metadata =
     (case mc_ProcessInfo metadata of
        None \<Rightarrow> False
      | Some info \<Rightarrow> co_UserName info \<noteq> [] \<and> map_get m (co_UserName info))"

definition UserIdItem_Match :: "int bool_map \<Rightarrow> inbound_context \<Rightarrow> bool" where
  "UserIdItem_Match m metadata =
     (case mc_ProcessInfo metadata of
        None \<Rightarrow> False
      | Some info \<Rightarrow> co_UserId info \<noteq> -1 \<and> map_get m (co_UserId info))"

definition OutboundItem_Match :: "string bool_map \<Rightarrow> bool \<Rightarrow> inbound_context \<Rightarrow> bool" where
  "OutboundItem_Match m matchAny metadata =
     (if matchAny then mc_Outbound metadata \<noteq> [] else map_get m (mc_Outbound metadata))"

definition ClashModeItem_Match :: "'x env \<Rightarrow> string \<Rightarrow> inbound_context \<Rightarrow> bool" where
  "ClashModeItem_Match e mode metadata =
     (case w_ClashMode e of None \<Rightarrow> False | Some current \<Rightarrow> EqualFold e current mode)"

definition NetworkTypeItem_Match :: "'x env \<Rightarrow> interface_type list \<Rightarrow> inbound_context \<Rightarrow> bool" where
  "NetworkTypeItem_Match e types metadata =
     (case w_DefaultNetworkInterface e of None \<Rightarrow> False | Some ni \<Rightarrow> ni_Type ni \<in> set types)"

definition NetworkIsExpensiveItem_Match :: "'x env \<Rightarrow> inbound_context \<Rightarrow> bool" where
  "NetworkIsExpensiveItem_Match e metadata =
     (case w_DefaultNetworkInterface e of None \<Rightarrow> False | Some ni \<Rightarrow> ni_Expensive ni)"

definition NetworkIsConstrainedItem_Match :: "'x env \<Rightarrow> inbound_context \<Rightarrow> bool" where
  "NetworkIsConstrainedItem_Match e metadata =
     (case w_DefaultNetworkInterface e of None \<Rightarrow> False | Some ni \<Rightarrow> ni_Constrained ni)"

definition WIFISSIDItem_Match :: "'x env \<Rightarrow> string bool_map \<Rightarrow> inbound_context \<Rightarrow> bool" where
  "WIFISSIDItem_Match e m metadata = map_get m (w_WIFI_SSID e)"

definition WIFIBSSIDItem_Match :: "'x env \<Rightarrow> string bool_map \<Rightarrow> inbound_context \<Rightarrow> bool" where
  "WIFIBSSIDItem_Match e m metadata = map_get m (w_WIFI_BSSID e)"

definition SourceMACAddressItem_Match :: "string bool_map \<Rightarrow> inbound_context \<Rightarrow> bool" where
  "SourceMACAddressItem_Match m metadata =
     (case mc_SourceMACAddress metadata of None \<Rightarrow> False | Some hw \<Rightarrow> map_get m (mac_String hw))"

definition SourceHostnameItem_Match :: "string bool_map \<Rightarrow> inbound_context \<Rightarrow> bool" where
  "SourceHostnameItem_Match m metadata =
     (mc_SourceHostname metadata \<noteq> [] \<and> map_get m (mc_SourceHostname metadata))"

definition PreferredByDNSItem_Match :: "'x env \<Rightarrow> string list \<Rightarrow> inbound_context \<Rightarrow> bool" where
  "PreferredByDNSItem_Match e transports metadata =
     (domainHost metadata \<noteq> [] \<and>
      list_ex (\<lambda>t. x_DNSPreferredDomain e t (x_CanonicalName e (domainHost metadata))) transports)"

definition QueryTypeItem_Match :: "(16 word) bool_map \<Rightarrow> inbound_context \<Rightarrow> bool" where
  "QueryTypeItem_Match m metadata =
     (mc_QueryType metadata \<noteq> 0 \<and> map_get m (mc_QueryType metadata))"

definition DNSResponseRCodeItem_Match :: "int \<Rightarrow> inbound_context \<Rightarrow> bool" where
  "DNSResponseRCodeItem_Match rcode metadata =
     (case mc_DNSResponse metadata of None \<Rightarrow> False | Some m \<Rightarrow> msg_Rcode m = rcode)"

definition DNSResponseRecordItem_Match :: "'x env \<Rightarrow> dns_rr option list \<Rightarrow> record_selector \<Rightarrow> inbound_context \<Rightarrow> bool" where
  "DNSResponseRecordItem_Match e records sel metadata =
     (case mc_DNSResponse metadata of
        None \<Rightarrow> False
      | Some m \<Rightarrow>
          list_ex (\<lambda>expected. list_ex (DNSRecordOptions_Match e expected) (select_records sel m)) records)"

primrec item_Match :: "'x env \<Rightarrow> 'x rule_item \<Rightarrow> inbound_context \<Rightarrow> bool" where
  "item_Match e (InboundItem u0 m) = (\<lambda>metadata. InboundItem_Match m metadata)"
| "item_Match e (IPVersionItem isIPv6) = (\<lambda>metadata. IPVersionItem_Match e isIPv6 metadata)"
| "item_Match e (NetworkItem u0 m) = (\<lambda>metadata. NetworkItem_Match m metadata)"
| "item_Match e (AuthUserItem u0 m) = (\<lambda>metadata. AuthUserItem_Match m metadata)"
| "item_Match e (ProtocolItem u0 m) = (\<lambda>metadata. ProtocolItem_Match m metadata)"
| "item_Match e (ClientItem u0 m) = (\<lambda>metadata. ClientItem_Match m metadata)"
| "item_Match e (DomainItem matcher u1) = (\<lambda>metadata. DomainItem_Match e matcher metadata)"
| "item_Match e (DomainKeywordItem keywords) = (\<lambda>metadata. DomainKeywordItem_Match e keywords metadata)"
| "item_Match e (DomainRegexItem matchers u1) = (\<lambda>metadata. DomainRegexItem_Match e matchers metadata)"
| "item_Match e (AdGuardDomainItem matcher) = (\<lambda>metadata. AdGuardDomainItem_Match e matcher metadata)"
| "item_Match e (IPCIDRItem ipSet isSource u2) = (\<lambda>metadata. IPCIDRItem_Match e ipSet isSource metadata)"
| "item_Match e (IPIsPrivateItem isSource) = (\<lambda>metadata. IPIsPrivateItem_Match e isSource metadata)"
| "item_Match e IPAcceptAnyItem = (\<lambda>metadata. IPAcceptAnyItem_Match e metadata)"
| "item_Match e (PortItem u0 m isSource) = (\<lambda>metadata. PortItem_Match m isSource metadata)"
| "item_Match e (PortRangeItem isSource u1 ranges) = (\<lambda>metadata. PortRangeItem_Match isSource ranges metadata)"
| "item_Match e (ProcessItem u0 m) = (\<lambda>metadata. ProcessItem_Match m metadata)"
| "item_Match e (ProcessPathItem u0 m) = (\<lambda>metadata. ProcessPathItem_Match e m metadata)"
| "item_Match e (ProcessPathRegexItem matchers u1) = (\<lambda>metadata. ProcessPathRegexItem_Match e matchers metadata)"
| "item_Match e (PackageNameItem u0 m) = (\<lambda>metadata. PackageNameItem_Match m metadata)"
| "item_Match e (PackageNameRegexItem matchers u1) = (\<lambda>metadata. PackageNameRegexItem_Match e matchers metadata)"
| "item_Match e (UserItem u0 m) = (\<lambda>metadata. UserItem_Match m metadata)"
| "item_Match e (UserIdItem u0 m) = (\<lambda>metadata. UserIdItem_Match m metadata)"
| "item_Match e (OutboundItem u0 m matchAny) = (\<lambda>metadata. OutboundItem_Match m matchAny metadata)"
| "item_Match e (ClashModeItem mode) = (\<lambda>metadata. ClashModeItem_Match e mode metadata)"
| "item_Match e (NetworkTypeItem types) = (\<lambda>metadata. NetworkTypeItem_Match e types metadata)"
| "item_Match e NetworkIsExpensiveItem = (\<lambda>metadata. NetworkIsExpensiveItem_Match e metadata)"
| "item_Match e NetworkIsConstrainedItem = (\<lambda>metadata. NetworkIsConstrainedItem_Match e metadata)"
| "item_Match e (WIFISSIDItem u0 m) = (\<lambda>metadata. WIFISSIDItem_Match e m metadata)"
| "item_Match e (WIFIBSSIDItem u0 m) = (\<lambda>metadata. WIFIBSSIDItem_Match e m metadata)"
| "item_Match e (InterfaceAddressItem entries u1) = (\<lambda>metadata. InterfaceAddressItem_Match e entries)"
| "item_Match e (NetworkInterfaceAddressItem entries u1) = (\<lambda>metadata. NetworkInterfaceAddressItem_Match e entries)"
| "item_Match e (DefaultInterfaceAddressItem addresses) = (\<lambda>metadata. DefaultInterfaceAddressItem_Match e addresses)"
| "item_Match e (SourceMACAddressItem u0 m) = (\<lambda>metadata. SourceMACAddressItem_Match m metadata)"
| "item_Match e (SourceHostnameItem u0 m) = (\<lambda>metadata. SourceHostnameItem_Match m metadata)"
| "item_Match e (PreferredByItem u0 outbounds) = (\<lambda>metadata. PreferredByItem_Match e outbounds metadata)"
| "item_Match e (PreferredByDNSItem u0 transports) = (\<lambda>metadata. PreferredByDNSItem_Match e transports metadata)"
| "item_Match e (QueryTypeItem u0 m) = (\<lambda>metadata. QueryTypeItem_Match m metadata)"
| "item_Match e (DNSResponseRCodeItem rcode) = (\<lambda>metadata. DNSResponseRCodeItem_Match rcode metadata)"
| "item_Match e (DNSResponseRecordItem u0 records sel) = (\<lambda>metadata. DNSResponseRecordItem_Match e records sel metadata)"

subsection \<open>String\<close>

definition InboundItem_String :: "string list \<Rightarrow> string" where
  "InboundItem_String inbounds = describe_all ''inbound='' inbounds"

definition IPVersionItem_String :: "bool \<Rightarrow> string" where
  "IPVersionItem_String isIPv6 = ''ip_version='' @ (if isIPv6 then ''6'' else ''4'')"

definition NetworkItem_String :: "string list \<Rightarrow> string" where
  "NetworkItem_String networks = describe_all ''network='' networks"

definition AuthUserItem_String :: "string list \<Rightarrow> string" where
  "AuthUserItem_String users = describe_all ''auth_user='' users"

definition ProtocolItem_String :: "string list \<Rightarrow> string" where
  "ProtocolItem_String protocols = describe_all ''protocol='' protocols"

definition ClientItem_String :: "string list \<Rightarrow> string" where
  "ClientItem_String clients = describe_all ''client='' clients"

definition DomainKeywordItem_String :: "string list \<Rightarrow> string" where
  "DomainKeywordItem_String keywords = describe_three ''domain_keyword='' ''...'' keywords"

definition AdGuardDomainItem_String :: "string" where
  "AdGuardDomainItem_String = ''!adguard_domain_rules=<binary>''"

definition IPIsPrivateItem_String :: "bool \<Rightarrow> string" where
  "IPIsPrivateItem_String isSource = (if isSource then ''source_ip_is_private=true'' else ''ip_is_private=true'')"

definition IPAcceptAnyItem_String :: "string" where
  "IPAcceptAnyItem_String = ''ip_accept_any=true''"

definition PortItem_String :: "16 word list \<Rightarrow> bool \<Rightarrow> string" where
  "PortItem_String ports isSource = describe_all (if isSource then ''source_port='' else ''port='') (map (\<lambda>p. show_nat (unat p)) ports)"

definition PortRangeItem_String :: "bool \<Rightarrow> string list \<Rightarrow> string" where
  "PortRangeItem_String isSource portRanges = describe_all (if isSource then ''source_port_range='' else ''port_range='') portRanges"

definition ProcessItem_String :: "string list \<Rightarrow> string" where
  "ProcessItem_String processes = describe_all ''process_name='' processes"

definition ProcessPathItem_String :: "string list \<Rightarrow> string" where
  "ProcessPathItem_String processes = describe_all ''process_path='' processes"

definition PackageNameItem_String :: "string list \<Rightarrow> string" where
  "PackageNameItem_String packageNames = describe_all ''package_name='' packageNames"

definition UserItem_String :: "string list \<Rightarrow> string" where
  "UserItem_String users = describe_all ''user='' users"

definition UserIdItem_String :: "int list \<Rightarrow> string" where
  "UserIdItem_String userIds = describe_all ''user_id='' (map show_int userIds)"

definition OutboundItem_String :: "string list \<Rightarrow> string" where
  "OutboundItem_String outbounds = describe_all ''outbound='' outbounds"

definition ClashModeItem_String :: "string \<Rightarrow> string" where
  "ClashModeItem_String mode = ''clash_mode='' @ mode"

definition NetworkTypeItem_String :: "interface_type list \<Rightarrow> string" where
  "NetworkTypeItem_String networkType = describe_all ''network_type='' (map interface_type_String networkType)"

definition NetworkIsExpensiveItem_String :: "string" where
  "NetworkIsExpensiveItem_String = ''network_is_expensive=true''"

definition NetworkIsConstrainedItem_String :: "string" where
  "NetworkIsConstrainedItem_String = ''network_is_expensive=true''"

definition WIFISSIDItem_String :: "string list \<Rightarrow> string" where
  "WIFISSIDItem_String ssidList = describe_all ''wifi_ssid='' ssidList"

definition WIFIBSSIDItem_String :: "string list \<Rightarrow> string" where
  "WIFIBSSIDItem_String bssidList = describe_all ''wifi_bssid='' bssidList"

definition DefaultInterfaceAddressItem_String :: "netip_prefix list \<Rightarrow> string" where
  "DefaultInterfaceAddressItem_String interfaceAddresses = describe_three ''default_interface_address='' ''...'' (map prefix_String interfaceAddresses)"

definition SourceMACAddressItem_String :: "string list \<Rightarrow> string" where
  "SourceMACAddressItem_String addresses = describe_all ''source_mac_address='' addresses"

definition SourceHostnameItem_String :: "string list \<Rightarrow> string" where
  "SourceHostnameItem_String hostnames = describe_all ''source_hostname='' hostnames"

definition PreferredByItem_String :: "string list \<Rightarrow> string" where
  "PreferredByItem_String outboundTags = describe_all ''preferred_by='' outboundTags"

definition PreferredByDNSItem_String :: "string list \<Rightarrow> string" where
  "PreferredByDNSItem_String transportTags = describe_all ''preferred_by='' transportTags"

definition QueryTypeItem_String :: "'x env \<Rightarrow> 16 word list \<Rightarrow> string" where
  "QueryTypeItem_String e typeList = describe_all ''query_type='' (map (DNSQueryTypeToString e) typeList)"

definition DNSResponseRCodeItem_String :: "'x env \<Rightarrow> int \<Rightarrow> string" where
  "DNSResponseRCodeItem_String e rcode = ''response_rcode='' @ x_RcodeToString e rcode"

definition DNSResponseRecordItem_String :: "'x env \<Rightarrow> string \<Rightarrow> dns_rr option list \<Rightarrow> string" where
  "DNSResponseRecordItem_String e field records = field @ ''=['' @ str_join '' '' (map (x_RRString e) (map the (filter (\<lambda>r. r \<noteq> None) records))) @ '']''"

primrec item_String :: "'x env \<Rightarrow> 'x rule_item \<Rightarrow> string" where
  "item_String e (InboundItem inbounds u1) = InboundItem_String inbounds"
| "item_String e (IPVersionItem isIPv6) = IPVersionItem_String isIPv6"
| "item_String e (NetworkItem networks u1) = NetworkItem_String networks"
| "item_String e (AuthUserItem users u1) = AuthUserItem_String users"
| "item_String e (ProtocolItem protocols u1) = ProtocolItem_String protocols"
| "item_String e (ClientItem clients u1) = ClientItem_String clients"
| "item_String e (DomainItem u0 description) = description"
| "item_String e (DomainKeywordItem keywords) = DomainKeywordItem_String keywords"
| "item_String e (DomainRegexItem u0 description) = description"
| "item_String e (AdGuardDomainItem u0) = AdGuardDomainItem_String"
| "item_String e (IPCIDRItem u0 u1 description) = description"
| "item_String e (IPIsPrivateItem isSource) = IPIsPrivateItem_String isSource"
| "item_String e IPAcceptAnyItem = IPAcceptAnyItem_String"
| "item_String e (PortItem ports u1 isSource) = PortItem_String ports isSource"
| "item_String e (PortRangeItem isSource portRanges u2) = PortRangeItem_String isSource portRanges"
| "item_String e (ProcessItem processes u1) = ProcessItem_String processes"
| "item_String e (ProcessPathItem processes u1) = ProcessPathItem_String processes"
| "item_String e (ProcessPathRegexItem u0 description) = description"
| "item_String e (PackageNameItem packageNames u1) = PackageNameItem_String packageNames"
| "item_String e (PackageNameRegexItem u0 description) = description"
| "item_String e (UserItem users u1) = UserItem_String users"
| "item_String e (UserIdItem userIds u1) = UserIdItem_String userIds"
| "item_String e (OutboundItem outbounds u1 u2) = OutboundItem_String outbounds"
| "item_String e (ClashModeItem mode) = ClashModeItem_String mode"
| "item_String e (NetworkTypeItem networkType) = NetworkTypeItem_String networkType"
| "item_String e NetworkIsExpensiveItem = NetworkIsExpensiveItem_String"
| "item_String e NetworkIsConstrainedItem = NetworkIsConstrainedItem_String"
| "item_String e (WIFISSIDItem ssidList u1) = WIFISSIDItem_String ssidList"
| "item_String e (WIFIBSSIDItem bssidList u1) = WIFIBSSIDItem_String bssidList"
| "item_String e (InterfaceAddressItem u0 description) = description"
| "item_String e (NetworkInterfaceAddressItem u0 description) = description"
| "item_String e (DefaultInterfaceAddressItem interfaceAddresses) = DefaultInterfaceAddressItem_String interfaceAddresses"
| "item_String e (SourceMACAddressItem addresses u1) = SourceMACAddressItem_String addresses"
| "item_String e (SourceHostnameItem hostnames u1) = SourceHostnameItem_String hostnames"
| "item_String e (PreferredByItem outboundTags u1) = PreferredByItem_String outboundTags"
| "item_String e (PreferredByDNSItem transportTags u1) = PreferredByDNSItem_String transportTags"
| "item_String e (QueryTypeItem typeList u1) = QueryTypeItem_String e typeList"
| "item_String e (DNSResponseRCodeItem rcode) = DNSResponseRCodeItem_String e rcode"
| "item_String e (DNSResponseRecordItem field records u2) = DNSResponseRecordItem_String e field records"

subsection \<open>Start\<close>

text \<open>
  \<^verbatim>\<open>Start\<close> of the items that refer to other components by tag. The outbound and DNS
  transport managers answer a tag with the type name and whether the object implements
  the preferred-route interface. The items are appended one by one; an error leaves the
  ones already resolved in place.
\<close>

fun resolve_preferred ::
  "string \<Rightarrow> string \<Rightarrow> (string \<Rightarrow> (string \<times> bool) option) \<Rightarrow> string list \<Rightarrow> string list
   \<Rightarrow> error option \<times> string list" where
  "resolve_preferred missing unsupported lookup [] resolved = (None, resolved)"
| "resolve_preferred missing unsupported lookup (tag # tags) resolved =
     (case lookup tag of
        None \<Rightarrow> (Some (E_New (missing @ tag)), resolved)
      | Some (type, supported) \<Rightarrow>
          if \<not> supported then (Some (E_New (unsupported @ type)), resolved)
          else resolve_preferred missing unsupported lookup tags (resolved @ [tag]))"

definition PreferredByItem_Start ::
  "(string \<Rightarrow> (string \<times> bool) option) \<Rightarrow> string list \<Rightarrow> string list \<Rightarrow> error option \<times> string list" where
  "PreferredByItem_Start outbound outboundTags outbounds =
     resolve_preferred ''outbound not found: '' ''outbound type does not support preferred routes: ''
       outbound outboundTags outbounds"

definition PreferredByDNSItem_Start ::
  "(string \<Rightarrow> (string \<times> bool) option) \<Rightarrow> string list \<Rightarrow> string list \<Rightarrow> error option \<times> string list" where
  "PreferredByDNSItem_Start transport transportTags transports =
     resolve_preferred ''DNS server not found: '' ''DNS server type does not support preferred_by: ''
       transport transportTags transports"

lemma resolve_preferred_ok:
  "resolve_preferred m u lookup tags resolved = (None, out) \<longleftrightarrow>
     (\<forall>tag \<in> set tags. \<exists>type. lookup tag = Some (type, True)) \<and> out = resolved @ tags"
  by (induction tags arbitrary: resolved) (auto split: option.splits)

subsection \<open>Lemmas\<close>

lemmas item_Match_defs =
  InboundItem_Match_def IPVersionItem_Match_def NetworkItem_Match_def AuthUserItem_Match_def
  ProtocolItem_Match_def ClientItem_Match_def DomainItem_Match_def DomainKeywordItem_Match_def
  DomainRegexItem_Match_def AdGuardDomainItem_Match_def IPCIDRItem_Match_def
  IPIsPrivateItem_Match_def IPAcceptAnyItem_Match_def PortItem_Match_def PortRangeItem_Match_def
  ProcessItem_Match_def ProcessPathItem_Match_def ProcessPathRegexItem_Match_def
  PackageNameItem_Match_def PackageNameRegexItem_Match_def UserItem_Match_def UserIdItem_Match_def
  OutboundItem_Match_def ClashModeItem_Match_def NetworkTypeItem_Match_def
  NetworkIsExpensiveItem_Match_def NetworkIsConstrainedItem_Match_def WIFISSIDItem_Match_def
  WIFIBSSIDItem_Match_def InterfaceAddressItem_Match_def NetworkInterfaceAddressItem_Match_def
  DefaultInterfaceAddressItem_Match_def SourceMACAddressItem_Match_def SourceHostnameItem_Match_def
  PreferredByItem_Match_def PreferredByDNSItem_Match_def QueryTypeItem_Match_def
  DNSResponseRCodeItem_Match_def DNSResponseRecordItem_Match_def

text \<open>No item reads the cache that the rules write.\<close>

lemma item_Match_DidMatch [simp]:
  "item_Match e item (c\<lparr>mc_DidMatch := b\<rparr>) = item_Match e item c"
  by (cases item) (simp_all add: item_Match_defs domainHost_def DNSResponseAddressesForMatch_def)

lemma item_Match_ResetRuleMatchCache [simp]:
  "item_Match e item (ResetRuleMatchCache c) = item_Match e item c"
  by (cases item)
    (simp_all add: item_Match_defs domainHost_def DNSResponseAddressesForMatch_def ResetRuleMatchCache_def)

text \<open>The two address flags are read by the destination CIDR items only.\<close>

fun is_ip_cidr :: "'x rule_item \<Rightarrow> bool" where
  "is_ip_cidr (IPCIDRItem _ isSource _) = (\<not> isSource)"
| "is_ip_cidr _ = False"

lemma item_Match_flags [simp]:
  assumes "\<not> is_ip_cidr item"
  shows "item_Match e item (c\<lparr>mc_IPCIDRMatchSource := b\<rparr>) = item_Match e item c"
    and "item_Match e item (c\<lparr>mc_IPCIDRAcceptEmpty := b\<rparr>) = item_Match e item c"
  using assms
  by (cases item; simp add: item_Match_defs domainHost_def DNSResponseAddressesForMatch_def)+

end
