(* ===== verification/Rule_Match.thy ===== *)
theory Rule_Match
  imports Rule_Item
begin

text \<open>
  Matching of rules: \<^verbatim>\<open>route/rule/match_state.go\<close>, \<^verbatim>\<open>rule_abstract.go\<close> and the matching part
  of \<^verbatim>\<open>rule_item_rule_set.go\<close>. The only field of the context that matching writes is
  \<^verbatim>\<open>DidMatch\<close>; the operations thread the context explicitly and return it. A rule-set is
  reached through the interface \<open>ruleset_iface\<close>, the methods of \<^verbatim>\<open>adapter.RuleSet\<close> and
  \<^verbatim>\<open>mergeableRuleProvider\<close> that the item calls; a nested context is a copy, so
  \<^verbatim>\<open>RuleSet.Match\<close> is a predicate.
\<close>

unbundle bit_operations_syntax

subsection \<open>match\_state.go\<close>

type_synonym ruleMatchState = byte

definition ruleMatchSourceAddress :: ruleMatchState where "ruleMatchSourceAddress = 1"
definition ruleMatchSourcePort :: ruleMatchState where "ruleMatchSourcePort = 2"
definition ruleMatchDestinationAddress :: ruleMatchState where "ruleMatchDestinationAddress = 4"
definition ruleMatchDestinationPort :: ruleMatchState where "ruleMatchDestinationPort = 8"

record ruleGroupMatch =
  g_required :: ruleMatchState
  g_satisfied :: ruleMatchState

definition groups_zero :: ruleGroupMatch where
  "groups_zero = \<lparr>g_required = 0, g_satisfied = 0\<rparr>"

definition done_groups :: "ruleGroupMatch \<Rightarrow> bool" where
  "done_groups g = (g_required g AND NOT (g_satisfied g) = 0)"

definition mergeWith :: "ruleGroupMatch \<Rightarrow> ruleGroupMatch \<Rightarrow> ruleGroupMatch" where
  "mergeWith g other =
     \<lparr>g_required = g_required g OR g_required other,
      g_satisfied = g_satisfied g OR g_satisfied other\<rparr>"

definition state_has :: "ruleMatchState \<Rightarrow> ruleMatchState \<Rightarrow> bool" where
  "state_has s target = (s AND target \<noteq> 0)"

subsection \<open>The rule structures\<close>

text \<open>
  \<^verbatim>\<open>RuleSetItem.setList\<close> holds references to rule-sets of the router; a reference is
  the tag of the set. The item is also the last element of \<^verbatim>\<open>allItems\<close>, which is why
  \<open>r_allItems\<close> only lists the others. The action is kept beside the rule, see theory
  \<open>Rule_Action\<close>.
\<close>

record RuleSetItem =
  rsi_tagList :: "string list"
  rsi_setList :: "string list"
  rsi_ipCidrMatchSource :: bool
  rsi_ipCidrAcceptEmpty :: bool

record 'x abstractDefaultRule =
  r_items :: "'x rule_item list"
  r_sourceAddressItems :: "'x rule_item list"
  r_sourcePortItems :: "'x rule_item list"
  r_destinationAddressItems :: "'x rule_item list"
  r_destinationIPCIDRItems :: "'x rule_item list"
  r_destinationPortItems :: "'x rule_item list"
  r_allItems :: "'x rule_item list"
  r_ruleSetItem :: "RuleSetItem option"
  r_invert :: bool

record ruleset_metadata =
  ContainsProcessRule :: bool
  ContainsWIFIRule :: bool
  ContainsIPCIDRRule :: bool
  ContainsDNSQueryTypeRule :: bool
  ContainsNonIPCIDRRule :: bool

record 'x ruleset_iface =
  if_mergeableRule :: "'x abstractDefaultRule option"
  if_Match :: "inbound_context \<Rightarrow> bool"
  if_Metadata :: ruleset_metadata

datatype 'x rule =
    DefaultRule "'x abstractDefaultRule"
  | LogicalRule string "'x rule list" bool

subsection \<open>Groups\<close>

definition matchAnyItem :: "'x env \<Rightarrow> 'x rule_item list \<Rightarrow> inbound_context \<Rightarrow> bool" where
  "matchAnyItem e items metadata = list_ex (\<lambda>it. item_Match e it metadata) items"

definition destinationIPCIDRMatchesSource :: "'x abstractDefaultRule \<Rightarrow> inbound_context \<Rightarrow> bool" where
  "destinationIPCIDRMatchesSource r metadata =
     (\<not> mc_IgnoreDestinationIPCIDRMatch metadata \<and> mc_IPCIDRMatchSource metadata \<and>
      r_destinationIPCIDRItems r \<noteq> [])"

definition destinationIPCIDRMatchesDestination :: "'x abstractDefaultRule \<Rightarrow> inbound_context \<Rightarrow> bool" where
  "destinationIPCIDRMatchesDestination r metadata =
     (\<not> mc_IgnoreDestinationIPCIDRMatch metadata \<and> \<not> mc_IPCIDRMatchSource metadata \<and>
      r_destinationIPCIDRItems r \<noteq> [])"

text \<open>One block of \<^verbatim>\<open>evaluateGroups\<close>: if the block applies, mark the context, require
  the bit, and set it if the test succeeds on the marked context.\<close>

definition group_block ::
  "bool \<Rightarrow> ruleMatchState \<Rightarrow> (ruleMatchState \<Rightarrow> inbound_context \<Rightarrow> bool)
   \<Rightarrow> ruleGroupMatch \<times> inbound_context \<Rightarrow> ruleGroupMatch \<times> inbound_context" where
  "group_block applies target test gm =
     (case gm of (groups, metadata) \<Rightarrow>
        if applies then
          (let metadata = metadata\<lparr>mc_DidMatch := True\<rparr>;
               groups = groups\<lparr>g_required := g_required groups OR target\<rparr>
           in (if test (g_satisfied groups) metadata
               then groups\<lparr>g_satisfied := g_satisfied groups OR target\<rparr> else groups, metadata))
        else (groups, metadata))"

definition evaluateGroups ::
  "'x env \<Rightarrow> 'x abstractDefaultRule \<Rightarrow> inbound_context \<Rightarrow> ruleGroupMatch \<times> inbound_context" where
  "evaluateGroups e r metadata =
     (let gm = (groups_zero, metadata);
          gm = group_block (r_sourceAddressItems r \<noteq> []) ruleMatchSourceAddress
                 (\<lambda>_. matchAnyItem e (r_sourceAddressItems r)) gm;
          gm = group_block (destinationIPCIDRMatchesSource r (snd gm)) ruleMatchSourceAddress
                 (\<lambda>sat c. \<not> state_has sat ruleMatchSourceAddress \<and>
                    matchAnyItem e (r_destinationIPCIDRItems r) c) gm;
          gm = group_block (r_sourcePortItems r \<noteq> []) ruleMatchSourcePort
                 (\<lambda>_. matchAnyItem e (r_sourcePortItems r)) gm;
          gm = group_block (r_destinationAddressItems r \<noteq> []) ruleMatchDestinationAddress
                 (\<lambda>_. matchAnyItem e (r_destinationAddressItems r)) gm;
          gm = group_block (destinationIPCIDRMatchesDestination r (snd gm)) ruleMatchDestinationAddress
                 (\<lambda>sat c. \<not> state_has sat ruleMatchDestinationAddress \<and>
                    matchAnyItem e (r_destinationIPCIDRItems r) c) gm;
          gm = group_block (r_destinationPortItems r \<noteq> []) ruleMatchDestinationPort
                 (\<lambda>_. matchAnyItem e (r_destinationPortItems r)) gm
      in gm)"

text \<open>The loop over \<^verbatim>\<open>r.items\<close>, left at the first item that does not match.\<close>

fun match_items :: "'x env \<Rightarrow> 'x rule_item list \<Rightarrow> inbound_context \<Rightarrow> bool \<times> inbound_context" where
  "match_items e [] metadata = (True, metadata)"
| "match_items e (item # items) metadata =
     (let metadata = metadata\<lparr>mc_DidMatch := True\<rparr>
      in if item_Match e item metadata then match_items e items metadata else (False, metadata))"

definition evaluateForMerge ::
  "'x env \<Rightarrow> 'x abstractDefaultRule \<Rightarrow> inbound_context \<Rightarrow> (ruleGroupMatch \<times> bool) \<times> inbound_context" where
  "evaluateForMerge e r metadata =
     (let (groups, metadata) = evaluateGroups e r metadata;
          (matched, metadata) = match_items e (r_items r) metadata
      in (if matched then (groups, True) else (groups_zero, False), metadata))"

subsection \<open>Rule-set items\<close>

definition nestedMetadata :: "RuleSetItem \<Rightarrow> inbound_context \<Rightarrow> inbound_context" where
  "nestedMetadata r metadata =
     (ResetRuleMatchCache metadata)\<lparr>
        mc_IPCIDRMatchSource := rsi_ipCidrMatchSource r,
        mc_IPCIDRAcceptEmpty := rsi_ipCidrAcceptEmpty r\<rparr>"

definition RuleSetItem_Match ::
  "(string \<Rightarrow> 'x ruleset_iface) \<Rightarrow> RuleSetItem \<Rightarrow> inbound_context \<Rightarrow> bool" where
  "RuleSetItem_Match sets r metadata =
     list_ex (\<lambda>ruleSet. if_Match (sets ruleSet) (nestedMetadata r metadata)) (rsi_setList r)"

definition matchWithOuterGroups ::
  "'x env \<Rightarrow> (string \<Rightarrow> 'x ruleset_iface) \<Rightarrow> RuleSetItem \<Rightarrow> inbound_context \<Rightarrow> ruleGroupMatch \<Rightarrow> bool" where
  "matchWithOuterGroups e sets r metadata outerGroups =
     (let outerDone = done_groups outerGroups in
      list_ex (\<lambda>ruleSet.
        case if_mergeableRule (sets ruleSet) of
          Some branch \<Rightarrow>
            (let (branchGroups, branchMatched) = fst (evaluateForMerge e branch (nestedMetadata r metadata))
             in branchMatched \<and> done_groups (mergeWith outerGroups branchGroups))
        | None \<Rightarrow> outerDone \<and> if_Match (sets ruleSet) (nestedMetadata r metadata))
      (rsi_setList r))"

definition ContainsDestinationIPCIDRRule ::
  "(string \<Rightarrow> 'x ruleset_iface) \<Rightarrow> RuleSetItem \<Rightarrow> bool" where
  "ContainsDestinationIPCIDRRule sets r =
     (if rsi_ipCidrMatchSource r then False
      else list_ex (\<lambda>ruleSet. ContainsIPCIDRRule (if_Metadata (sets ruleSet))) (rsi_setList r))"

subsection \<open>Default and logical rules\<close>

definition matchInner ::
  "'x env \<Rightarrow> (string \<Rightarrow> 'x ruleset_iface) \<Rightarrow> 'x abstractDefaultRule \<Rightarrow> inbound_context
   \<Rightarrow> bool \<times> inbound_context" where
  "matchInner e sets r metadata =
     (let (groups, metadata) = evaluateGroups e r metadata;
          (matched, metadata) = match_items e (r_items r) metadata
      in if \<not> matched then (False, metadata)
         else case r_ruleSetItem r of
           Some ruleSetItem \<Rightarrow>
             (let metadata = metadata\<lparr>mc_DidMatch := True\<rparr>
              in (matchWithOuterGroups e sets ruleSetItem metadata groups, metadata))
         | None \<Rightarrow> (done_groups groups, metadata))"

definition no_items :: "'x abstractDefaultRule \<Rightarrow> bool" where
  \<comment> \<open>\<open>len(r.allItems) == 0\<close>\<close>
  "no_items r = (r_allItems r = [] \<and> r_ruleSetItem r = None)"

definition abstractDefaultRule_Match ::
  "'x env \<Rightarrow> (string \<Rightarrow> 'x ruleset_iface) \<Rightarrow> 'x abstractDefaultRule \<Rightarrow> inbound_context
   \<Rightarrow> bool \<times> inbound_context" where
  "abstractDefaultRule_Match e sets r metadata =
     (if no_items r then (True, metadata)
      else let (matched, metadata) = matchInner e sets r metadata
           in if r_invert r then
                if matched \<and> mc_IgnoreDestinationIPCIDRMatch metadata \<and> \<not> mc_DidMatch metadata \<and>
                   r_destinationIPCIDRItems r \<noteq> []
                then (True, metadata)
                else (\<not> matched, metadata)
              else (matched, metadata))"

fun rule_Match ::
  "'x env \<Rightarrow> (string \<Rightarrow> 'x ruleset_iface) \<Rightarrow> 'x rule \<Rightarrow> inbound_context \<Rightarrow> bool \<times> inbound_context" where
  "rule_Match e sets (DefaultRule r) metadata = abstractDefaultRule_Match e sets r metadata"
| "rule_Match e sets (LogicalRule mode rules invert) metadata =
     (let matched =
            (if mode = ''and''
             then list_all (\<lambda>rule. fst (rule_Match e sets rule (ResetRuleCache metadata))) rules
             else list_ex (\<lambda>rule. fst (rule_Match e sets rule (ResetRuleCache metadata))) rules)
      in (if invert then \<not> matched else matched, metadata))"

subsection \<open>Groups as four booleans\<close>

text \<open>
  The bit sets of \<^verbatim>\<open>ruleGroupMatch\<close> only ever hold the four named bits, so a group state
  is a pair of four booleans. \<open>group_flags\<close> is that reading; \<open>done_groups\<close> and \<open>mergeWith\<close>
  become implication and disjunction per group.
\<close>

definition group_flags :: "bool \<Rightarrow> bool \<Rightarrow> bool \<Rightarrow> bool \<Rightarrow> ruleMatchState" where
  "group_flags sa sp da dp =
     (if sa then ruleMatchSourceAddress else 0) OR (if sp then ruleMatchSourcePort else 0) OR
     (if da then ruleMatchDestinationAddress else 0) OR (if dp then ruleMatchDestinationPort else 0)"

lemmas group_bits_def =
  ruleMatchSourceAddress_def ruleMatchSourcePort_def
  ruleMatchDestinationAddress_def ruleMatchDestinationPort_def

lemma bit_exp_byte: "n < 8 \<Longrightarrow> bit ((2::byte) ^ n) k \<longleftrightarrow> k = n"
  unfolding bit_exp_iff possible_bit_word by auto
lemma bit_singles:
  "bit (1 :: byte) k \<longleftrightarrow> k = 0" "bit (2 :: byte) k \<longleftrightarrow> k = 1"
    "bit (4 :: byte) k \<longleftrightarrow> k = 2" "bit (8 :: byte) k \<longleftrightarrow> k = 3"
proof -
  have p: "(1::byte) = 2 ^ 0" "(2::byte) = 2 ^ 1" "(4::byte) = 2 ^ 2" "(8::byte) = 2 ^ 3" by simp_all
  show "bit (1 :: byte) k \<longleftrightarrow> k = 0" by (subst p(1), rule bit_exp_byte) simp
  show "bit (2 :: byte) k \<longleftrightarrow> k = 1" by (subst p(2), rule bit_exp_byte) simp
  show "bit (4 :: byte) k \<longleftrightarrow> k = 2" by (subst p(3), rule bit_exp_byte) simp
  show "bit (8 :: byte) k \<longleftrightarrow> k = 3" by (subst p(4), rule bit_exp_byte) simp
qed

lemma bit_group_flags:
  "bit (group_flags sa sp da dp) k \<longleftrightarrow>
     (sa \<and> k = 0) \<or> (sp \<and> k = 1) \<or> (da \<and> k = 2) \<or> (dp \<and> k = 3)"
proof -
  have f: "bit (if P then w else 0) k \<longleftrightarrow> P \<and> bit w k" for P and w :: byte by simp
  show ?thesis unfolding group_flags_def group_bits_def bit_or_iff f bit_singles by (simp only: disj_assoc)
qed

lemma group_flags_or:
  "group_flags a b c d OR group_flags a' b' c' d' = group_flags (a \<or> a') (b \<or> b') (c \<or> c') (d \<or> d')"
  by (rule bit_eqI) (auto simp only: bit_or_iff bit_group_flags)

lemma done_groups_flags:
  "done_groups \<lparr>g_required = group_flags a b c d, g_satisfied = group_flags a' b' c' d'\<rparr> \<longleftrightarrow>
     (a \<longrightarrow> a') \<and> (b \<longrightarrow> b') \<and> (c \<longrightarrow> c') \<and> (d \<longrightarrow> d')"
proof -
  let ?u = "group_flags a b c d" and ?v = "group_flags a' b' c' d'"
  have "(?u AND NOT ?v = 0) \<longleftrightarrow> (\<forall>k < 8. bit ?u k \<longrightarrow> bit ?v k)"
    by (simp only: bit_eq_iff bit_and_iff bit_not_iff bit_0_eq possible_bit_word) simp
  also have "\<dots> \<longleftrightarrow> (a \<longrightarrow> a') \<and> (b \<longrightarrow> b') \<and> (c \<longrightarrow> c') \<and> (d \<longrightarrow> d')"
  proof
    assume *: "\<forall>k < 8. bit ?u k \<longrightarrow> bit ?v k"
    show "(a \<longrightarrow> a') \<and> (b \<longrightarrow> b') \<and> (c \<longrightarrow> c') \<and> (d \<longrightarrow> d')"
      using * [rule_format, of 0] * [rule_format, of 1] * [rule_format, of 2] * [rule_format, of 3]
      by (simp add: bit_group_flags)
  qed (auto simp: bit_group_flags)
  finally show ?thesis by (simp add: done_groups_def)
qed

lemma group_flags_set:
  "group_flags a b c d OR ruleMatchSourceAddress = group_flags True b c d"
  "group_flags a b c d OR ruleMatchSourcePort = group_flags a True c d"
  "group_flags a b c d OR ruleMatchDestinationAddress = group_flags a b True d"
  "group_flags a b c d OR ruleMatchDestinationPort = group_flags a b c True"
proof -
  have single:
    "ruleMatchSourceAddress = group_flags True False False False"
    "ruleMatchSourcePort = group_flags False True False False"
    "ruleMatchDestinationAddress = group_flags False False True False"
    "ruleMatchDestinationPort = group_flags False False False True"
    by (simp_all only: group_flags_def if_True if_False or.left_neutral or.right_neutral)
  show
    "group_flags a b c d OR ruleMatchSourceAddress = group_flags True b c d"
    "group_flags a b c d OR ruleMatchSourcePort = group_flags a True c d"
    "group_flags a b c d OR ruleMatchDestinationAddress = group_flags a b True d"
    "group_flags a b c d OR ruleMatchDestinationPort = group_flags a b c True"
    unfolding single group_flags_or by simp_all
qed

lemma group_flags_zero: "group_flags False False False False = 0"
  by (simp add: group_flags_def)

lemma state_has_flags:
  "state_has (group_flags a b c d) ruleMatchSourceAddress \<longleftrightarrow> a"
  "state_has (group_flags a b c d) ruleMatchDestinationAddress \<longleftrightarrow> c"
proof -
  have two: "(4 :: byte) = 2 ^ 2" "(1 :: byte) = 2 ^ 0" by simp_all
  show "state_has (group_flags a b c d) ruleMatchSourceAddress \<longleftrightarrow> a"
    unfolding state_has_def group_bits_def two and_exp_eq_0_iff_not_bit bit_group_flags by simp
  show "state_has (group_flags a b c d) ruleMatchDestinationAddress \<longleftrightarrow> c"
    unfolding state_has_def group_bits_def two and_exp_eq_0_iff_not_bit bit_group_flags by simp
qed

subsection \<open>What a default rule asks for\<close>

definition src_items :: "'x abstractDefaultRule \<Rightarrow> inbound_context \<Rightarrow> 'x rule_item list" where
  "src_items r c = r_sourceAddressItems r @ (if destinationIPCIDRMatchesSource r c then r_destinationIPCIDRItems r else [])"

definition dst_items :: "'x abstractDefaultRule \<Rightarrow> inbound_context \<Rightarrow> 'x rule_item list" where
  "dst_items r c =
     r_destinationAddressItems r @ (if destinationIPCIDRMatchesDestination r c then r_destinationIPCIDRItems r else [])"

text \<open>\<open>any_or_none items\<close>: an empty group asks for nothing, another one for one match.\<close>

definition any_or_none :: "'x env \<Rightarrow> 'x rule_item list \<Rightarrow> inbound_context \<Rightarrow> bool" where
  "any_or_none e items c = (items = [] \<or> (\<exists>it \<in> set items. item_Match e it c))"

lemma matchAnyItem_iff: "matchAnyItem e items c \<longleftrightarrow> (\<exists>it \<in> set items. item_Match e it c)"
  by (simp add: matchAnyItem_def list_ex_iff)

lemma matchAnyItem_DidMatch [simp]: "matchAnyItem e items (c\<lparr>mc_DidMatch := b\<rparr>) = matchAnyItem e items c"
  by (simp add: matchAnyItem_def)

lemma destinationIPCIDR_DidMatch [simp]:
  "destinationIPCIDRMatchesSource r (c\<lparr>mc_DidMatch := b\<rparr>) = destinationIPCIDRMatchesSource r c"
  "destinationIPCIDRMatchesDestination r (c\<lparr>mc_DidMatch := b\<rparr>) = destinationIPCIDRMatchesDestination r c"
  by (simp_all add: destinationIPCIDRMatchesSource_def destinationIPCIDRMatchesDestination_def)

lemma matchAnyItem_append [simp]:
  "matchAnyItem e (xs @ ys) c \<longleftrightarrow> matchAnyItem e xs c \<or> matchAnyItem e ys c"
  by (simp add: matchAnyItem_def)

lemma matchAnyItem_Nil [simp]: "matchAnyItem e [] c = False"
  by (simp add: matchAnyItem_def)

text \<open>Some group applies: the context is marked by \<^verbatim>\<open>evaluateGroups\<close>.\<close>

definition has_groups :: "'x abstractDefaultRule \<Rightarrow> inbound_context \<Rightarrow> bool" where
  "has_groups r c =
     (src_items r c \<noteq> [] \<or> r_sourcePortItems r \<noteq> [] \<or> dst_items r c \<noteq> [] \<or> r_destinationPortItems r \<noteq> [])"

definition mark :: "bool \<Rightarrow> inbound_context \<Rightarrow> inbound_context" where
  "mark b c = c\<lparr>mc_DidMatch := mc_DidMatch c \<or> b\<rparr>"

lemma mark_False: "mark False c = c"
  by (simp add: mark_def)

lemma mark_simps [simp]:
  "(mark b c)\<lparr>mc_DidMatch := True\<rparr> = c\<lparr>mc_DidMatch := True\<rparr>"
  "item_Match e it (mark b c) = item_Match e it c"
  "destinationIPCIDRMatchesSource r (mark b c) = destinationIPCIDRMatchesSource r c"
  "destinationIPCIDRMatchesDestination r (mark b c) = destinationIPCIDRMatchesDestination r c"
  "mark b (mark b' c) = mark (b' \<or> b) c"
  by (simp_all add: mark_def disj_assoc)

lemma group_block_eq:
  "group_block applies target test (g, mark b c) =
     (if applies then
        (\<lparr>g_required = g_required g OR target,
          g_satisfied = (if test (g_satisfied g) (c\<lparr>mc_DidMatch := True\<rparr>)
                         then g_satisfied g OR target else g_satisfied g)\<rparr>, mark True c)
      else (g, mark b c))"
  by (cases g) (simp add: group_block_def Let_def mark_def)

text \<open>A block in terms of the four booleans.\<close>

lemma group_block_flags:
  "group_block P ruleMatchSourceAddress t
     (\<lparr>g_required = group_flags sa sp da dp, g_satisfied = group_flags sa' sp' da' dp'\<rparr>, mark m c) =
   (\<lparr>g_required = group_flags (sa \<or> P) sp da dp,
     g_satisfied = group_flags (sa' \<or> P \<and> t (group_flags sa' sp' da' dp') (c\<lparr>mc_DidMatch := True\<rparr>)) sp' da' dp'\<rparr>, mark (m \<or> P) c)"
  "group_block P ruleMatchSourcePort t
     (\<lparr>g_required = group_flags sa sp da dp, g_satisfied = group_flags sa' sp' da' dp'\<rparr>, mark m c) =
   (\<lparr>g_required = group_flags sa (sp \<or> P) da dp,
     g_satisfied = group_flags sa' (sp' \<or> P \<and> t (group_flags sa' sp' da' dp') (c\<lparr>mc_DidMatch := True\<rparr>)) da' dp'\<rparr>, mark (m \<or> P) c)"
  "group_block P ruleMatchDestinationAddress t
     (\<lparr>g_required = group_flags sa sp da dp, g_satisfied = group_flags sa' sp' da' dp'\<rparr>, mark m c) =
   (\<lparr>g_required = group_flags sa sp (da \<or> P) dp,
     g_satisfied = group_flags sa' sp' (da' \<or> P \<and> t (group_flags sa' sp' da' dp') (c\<lparr>mc_DidMatch := True\<rparr>)) dp'\<rparr>, mark (m \<or> P) c)"
  "group_block P ruleMatchDestinationPort t
     (\<lparr>g_required = group_flags sa sp da dp, g_satisfied = group_flags sa' sp' da' dp'\<rparr>, mark m c) =
   (\<lparr>g_required = group_flags sa sp da (dp \<or> P),
     g_satisfied = group_flags sa' sp' da' (dp' \<or> P \<and> t (group_flags sa' sp' da' dp') (c\<lparr>mc_DidMatch := True\<rparr>))\<rparr>, mark (m \<or> P) c)"
  unfolding group_block_eq by (simp_all add: group_flags_set)

text \<open>\<^verbatim>\<open>evaluateGroups\<close> in closed form: a group is required when it has items, and
  satisfied when one of them matches.\<close>

lemma evaluateGroups_eq:
  "evaluateGroups e r c =
     (\<lparr>g_required =
         group_flags (src_items r c \<noteq> []) (r_sourcePortItems r \<noteq> [])
           (dst_items r c \<noteq> []) (r_destinationPortItems r \<noteq> []),
       g_satisfied =
         group_flags (matchAnyItem e (src_items r c) c) (matchAnyItem e (r_sourcePortItems r) c)
           (matchAnyItem e (dst_items r c) c) (matchAnyItem e (r_destinationPortItems r) c)\<rparr>,
      mark (has_groups r c) c)"
proof -
  have start: "(groups_zero, c) =
      (\<lparr>g_required = group_flags False False False False,
        g_satisfied = group_flags False False False False\<rparr>, mark False c)"
    by (simp add: groups_zero_def group_flags_zero mark_False)
  have nonempty:
    "destinationIPCIDRMatchesSource r c \<Longrightarrow> r_destinationIPCIDRItems r \<noteq> []"
    "destinationIPCIDRMatchesDestination r c \<Longrightarrow> r_destinationIPCIDRItems r \<noteq> []"
    by (auto simp: destinationIPCIDRMatchesSource_def destinationIPCIDRMatchesDestination_def)
  have any: "xs \<noteq> [] \<and> matchAnyItem e xs c \<longleftrightarrow> matchAnyItem e xs c" for xs by auto
  have src: "src_items r c \<noteq> [] \<longleftrightarrow> r_sourceAddressItems r \<noteq> [] \<or> destinationIPCIDRMatchesSource r c"
    and dst: "dst_items r c \<noteq> [] \<longleftrightarrow> r_destinationAddressItems r \<noteq> [] \<or> destinationIPCIDRMatchesDestination r c"
    and src_any: "matchAnyItem e (src_items r c) c \<longleftrightarrow> matchAnyItem e (r_sourceAddressItems r) c \<or>
      destinationIPCIDRMatchesSource r c \<and> matchAnyItem e (r_destinationIPCIDRItems r) c"
    and dst_any: "matchAnyItem e (dst_items r c) c \<longleftrightarrow> matchAnyItem e (r_destinationAddressItems r) c \<or>
      destinationIPCIDRMatchesDestination r c \<and> matchAnyItem e (r_destinationIPCIDRItems r) c"
    by (auto simp: src_items_def dst_items_def nonempty)
  have groups: "has_groups r c \<longleftrightarrow>
      r_sourceAddressItems r \<noteq> [] \<or> destinationIPCIDRMatchesSource r c \<or> r_sourcePortItems r \<noteq> [] \<or>
      r_destinationAddressItems r \<noteq> [] \<or> destinationIPCIDRMatchesDestination r c \<or>
      r_destinationPortItems r \<noteq> []"
    unfolding has_groups_def src dst by blast
  have absorb: "A \<or> P \<and> \<not> A \<and> B \<longleftrightarrow> A \<or> P \<and> B" for A P B by blast
  show ?thesis
    unfolding evaluateGroups_def Let_def start
    by (simp only: group_block_flags snd_conv mark_simps destinationIPCIDR_DidMatch matchAnyItem_DidMatch
        state_has_flags any src dst src_any dst_any groups absorb disj_assoc simp_thms)
qed

lemma match_items_eq:
  "match_items e items c =
     (list_all (\<lambda>it. item_Match e it c) items, mark (items \<noteq> []) c)"
proof (induction items arbitrary: c)
  case (Cons it items)
  have *: "item_Match e it' (c\<lparr>mc_DidMatch := True\<rparr>) = item_Match e it' c" for it' by simp
  have "mark b (c\<lparr>mc_DidMatch := True\<rparr>) = mark True c" for b by (simp add: mark_def)
  then show ?case using Cons.IH [of "c\<lparr>mc_DidMatch := True\<rparr>"]
    by (simp add: Let_def mark_def)
qed (simp add: mark_False)

subsection \<open>Declarative reading of a default rule\<close>

text \<open>
  The documented logic: one match per non-empty group, and every other item. The
  destination CIDR items belong to the destination group, or to the source group when the
  context says so.
\<close>

definition default_holds :: "'x env \<Rightarrow> 'x abstractDefaultRule \<Rightarrow> inbound_context \<Rightarrow> bool" where
  "default_holds e r c \<longleftrightarrow>
     any_or_none e (src_items r c) c \<and> any_or_none e (r_sourcePortItems r) c \<and>
     any_or_none e (dst_items r c) c \<and> any_or_none e (r_destinationPortItems r) c \<and>
     (\<forall>it \<in> set (r_items r). item_Match e it c)"

lemma any_or_none_iff: "any_or_none e items c \<longleftrightarrow> (items \<noteq> [] \<longrightarrow> matchAnyItem e items c)"
  by (auto simp: any_or_none_def matchAnyItem_iff)

lemma evaluateGroups_done:
  "done_groups (fst (evaluateGroups e r c)) \<longleftrightarrow>
     any_or_none e (src_items r c) c \<and> any_or_none e (r_sourcePortItems r) c \<and>
     any_or_none e (dst_items r c) c \<and> any_or_none e (r_destinationPortItems r) c"
  by (simp add: evaluateGroups_eq done_groups_flags any_or_none_iff)

lemma mergeWith_done:
  "done_groups (mergeWith (fst (evaluateGroups e r c)) (fst (evaluateGroups e' r' c'))) \<longleftrightarrow>
     (src_items r c \<noteq> [] \<or> src_items r' c' \<noteq> [] \<longrightarrow>
        matchAnyItem e (src_items r c) c \<or> matchAnyItem e' (src_items r' c') c') \<and>
     (r_sourcePortItems r \<noteq> [] \<or> r_sourcePortItems r' \<noteq> [] \<longrightarrow>
        matchAnyItem e (r_sourcePortItems r) c \<or> matchAnyItem e' (r_sourcePortItems r') c') \<and>
     (dst_items r c \<noteq> [] \<or> dst_items r' c' \<noteq> [] \<longrightarrow>
        matchAnyItem e (dst_items r c) c \<or> matchAnyItem e' (dst_items r' c') c') \<and>
     (r_destinationPortItems r \<noteq> [] \<or> r_destinationPortItems r' \<noteq> [] \<longrightarrow>
        matchAnyItem e (r_destinationPortItems r) c \<or> matchAnyItem e' (r_destinationPortItems r') c')"
  by (simp add: evaluateGroups_eq mergeWith_def group_flags_or done_groups_flags)

lemma matchInner_fst:
  "fst (matchInner e sets r c) \<longleftrightarrow>
     (\<forall>it \<in> set (r_items r). item_Match e it c) \<and>
     (case r_ruleSetItem r of
        None \<Rightarrow> done_groups (fst (evaluateGroups e r c))
      | Some item \<Rightarrow>
          matchWithOuterGroups e sets item (c\<lparr>mc_DidMatch := True\<rparr>) (fst (evaluateGroups e r c)))"
  by (simp add: matchInner_def match_items_eq evaluateGroups_eq Let_def list_all_iff split: option.split)

lemma matchInner_snd:
  "snd (matchInner e sets r c) = mark (has_groups r c \<or> r_items r \<noteq> [] \<or> r_ruleSetItem r \<noteq> None) c"
  by (cases "r_items r"; cases "r_ruleSetItem r")
    (simp_all add: matchInner_def match_items_eq evaluateGroups_eq Let_def mark_def)

lemma matchInner_no_set:
  "r_ruleSetItem r = None \<Longrightarrow> fst (matchInner e sets r c) = default_holds e r c"
  by (auto simp: matchInner_fst evaluateGroups_done default_holds_def)

text \<open>Only \<^verbatim>\<open>DidMatch\<close> is written, and only set.\<close>

lemma rule_Match_snd: "\<exists>b. snd (rule_Match e sets rule c) = mark b c"
proof (cases rule)
  case (DefaultRule r)
  have "snd (matchInner e sets r c) = mark (has_groups r c \<or> r_items r \<noteq> [] \<or> r_ruleSetItem r \<noteq> None) c"
    by (rule matchInner_snd)
  then show ?thesis
    by (auto simp: DefaultRule abstractDefaultRule_Match_def Let_def split_beta mark_False
        intro: exI [of _ False])
next
  case (LogicalRule mode rules invert)
  then show ?thesis by (auto simp: Let_def mark_False intro: exI [of _ False])
qed

lemma abstractDefaultRule_Match_fst:
  assumes "\<not> mc_IgnoreDestinationIPCIDRMatch c"
  shows "fst (abstractDefaultRule_Match e sets r c) \<longleftrightarrow>
           no_items r \<or> fst (matchInner e sets r c) \<noteq> r_invert r"
  using assms by (auto simp: abstractDefaultRule_Match_def Let_def split_beta matchInner_snd mark_def)

subsection \<open>Merging\<close>

text \<open>
  A rule-set with a single plain default rule is merged into the rule that names it, as if
  its items were written there. With \<^verbatim>\<open>rule_set_ip_cidr_match_source\<close> its destination CIDR
  items count as source items.
\<close>

fun to_source :: "'x rule_item \<Rightarrow> 'x rule_item" where
  "to_source (IPCIDRItem ipSet _ description) = IPCIDRItem ipSet True description"
| "to_source item = item"

definition branch_for :: "RuleSetItem \<Rightarrow> 'x abstractDefaultRule \<Rightarrow> 'x abstractDefaultRule" where
  "branch_for item b =
     (if rsi_ipCidrMatchSource item
      then b\<lparr>r_sourceAddressItems := r_sourceAddressItems b @ map to_source (r_destinationIPCIDRItems b),
             r_destinationIPCIDRItems := []\<rparr>
      else b)"

definition merge_rules ::
  "'x abstractDefaultRule \<Rightarrow> 'x abstractDefaultRule \<Rightarrow> 'x abstractDefaultRule" where
  "merge_rules r b = r\<lparr>
     r_items := r_items r @ r_items b,
     r_sourceAddressItems := r_sourceAddressItems r @ r_sourceAddressItems b,
     r_sourcePortItems := r_sourcePortItems r @ r_sourcePortItems b,
     r_destinationAddressItems := r_destinationAddressItems r @ r_destinationAddressItems b,
     r_destinationIPCIDRItems := r_destinationIPCIDRItems r @ r_destinationIPCIDRItems b,
     r_destinationPortItems := r_destinationPortItems r @ r_destinationPortItems b,
     r_allItems := r_allItems r @ r_allItems b,
     r_ruleSetItem := None\<rparr>"

text \<open>
  The invariants of the builders: \<^verbatim>\<open>allItems\<close> lists what the groups hold; in a headless
  rule the group of the destination CIDR items holds all of those and nothing else.
\<close>

definition wf_lists :: "'x abstractDefaultRule \<Rightarrow> bool" where
  "wf_lists r \<longleftrightarrow>
     set (r_allItems r) =
       set (r_items r @ r_sourceAddressItems r @ r_sourcePortItems r @ r_destinationAddressItems r @
            r_destinationIPCIDRItems r @ r_destinationPortItems r)"

definition wf_branch :: "'x abstractDefaultRule \<Rightarrow> bool" where
  "wf_branch r \<longleftrightarrow>
     (\<forall>it \<in> set (r_destinationIPCIDRItems r). is_ip_cidr it) \<and>
     (\<forall>it \<in> set (r_items r @ r_sourceAddressItems r @ r_sourcePortItems r @
                 r_destinationAddressItems r @ r_destinationPortItems r). \<not> is_ip_cidr it)"

lemma to_source_Match:
  "is_ip_cidr it \<Longrightarrow> item_Match e (to_source it) c = item_Match e it (c\<lparr>mc_IPCIDRMatchSource := True\<rparr>)"
  by (cases it) (simp_all add: IPCIDRItem_Match_def)

lemma to_source_Match_nested:
  "is_ip_cidr it \<Longrightarrow> item_Match e (to_source it) (c\<lparr>mc_IPCIDRAcceptEmpty := b\<rparr>) = item_Match e (to_source it) c"
  by (cases it) (simp_all add: IPCIDRItem_Match_def)

lemma src_dst_items:
  assumes "\<not> mc_IgnoreDestinationIPCIDRMatch c"
  shows "src_items r c = r_sourceAddressItems r @ (if mc_IPCIDRMatchSource c then r_destinationIPCIDRItems r else [])"
    and "dst_items r c = r_destinationAddressItems r @ (if mc_IPCIDRMatchSource c then [] else r_destinationIPCIDRItems r)"
  using assms
  by (auto simp: src_items_def dst_items_def destinationIPCIDRMatchesSource_def destinationIPCIDRMatchesDestination_def)

lemma nestedMetadata_sel [simp]:
  "mc_IPCIDRMatchSource (nestedMetadata item c) = rsi_ipCidrMatchSource item"
  "mc_IgnoreDestinationIPCIDRMatch (nestedMetadata item c) = mc_IgnoreDestinationIPCIDRMatch c"
  "nestedMetadata item (c\<lparr>mc_DidMatch := b\<rparr>) = nestedMetadata item c"
  by (simp_all add: nestedMetadata_def ResetRuleMatchCache_def)

lemma item_Match_nested:
  assumes "\<not> is_ip_cidr it"
  shows "item_Match e it (nestedMetadata item c) = item_Match e it c"
  using assms by (simp add: nestedMetadata_def)

lemma item_Match_nested_plain:
  assumes "\<not> mc_IPCIDRMatchSource c" and "\<not> mc_IPCIDRAcceptEmpty c"
    and "\<not> rsi_ipCidrMatchSource item" and "\<not> rsi_ipCidrAcceptEmpty item"
  shows "item_Match e it (nestedMetadata item c) = item_Match e it c"
proof -
  have "nestedMetadata item c = ResetRuleMatchCache c"
    using assms by (cases c) (simp add: nestedMetadata_def ResetRuleMatchCache_def)
  then show ?thesis by simp
qed

lemma item_Match_nested_source:
  assumes "is_ip_cidr it" and "rsi_ipCidrMatchSource item"
  shows "item_Match e it (nestedMetadata item c) = item_Match e (to_source it) c"
  using assms
  by (cases it)
    (simp_all add: IPCIDRItem_Match_def nestedMetadata_def ResetRuleMatchCache_def)

text \<open>What the branch asks for in its nested context is what the merged items ask for in
  the context of the rule.\<close>

lemma branch_groups:
  assumes "\<not> mc_IPCIDRMatchSource c" and "\<not> mc_IPCIDRAcceptEmpty c"
    and ign: "\<not> mc_IgnoreDestinationIPCIDRMatch c"
    and "\<not> rsi_ipCidrAcceptEmpty item" and wf: "wf_branch b"
  defines "n \<equiv> nestedMetadata item c" and "b' \<equiv> branch_for item b"
  shows "src_items b n = [] \<longleftrightarrow> r_sourceAddressItems b' = []"
    and "matchAnyItem e (src_items b n) n \<longleftrightarrow> matchAnyItem e (r_sourceAddressItems b') c"
    and "dst_items b n = [] \<longleftrightarrow> r_destinationAddressItems b' @ r_destinationIPCIDRItems b' = []"
    and "matchAnyItem e (dst_items b n) n \<longleftrightarrow>
           matchAnyItem e (r_destinationAddressItems b' @ r_destinationIPCIDRItems b') c"
    and "matchAnyItem e (r_sourcePortItems b) n \<longleftrightarrow> matchAnyItem e (r_sourcePortItems b') c"
    and "matchAnyItem e (r_destinationPortItems b) n \<longleftrightarrow> matchAnyItem e (r_destinationPortItems b') c"
    and "(\<forall>it \<in> set (r_items b). item_Match e it n) \<longleftrightarrow> (\<forall>it \<in> set (r_items b'). item_Match e it c)"
    and "r_sourcePortItems b' = r_sourcePortItems b" and "r_destinationPortItems b' = r_destinationPortItems b"
proof -
  have n: "\<not> mc_IgnoreDestinationIPCIDRMatch n" "mc_IPCIDRMatchSource n = rsi_ipCidrMatchSource item"
    using ign by (simp_all add: n_def)
  note sd = src_dst_items [OF n(1)]
  have other: "item_Match e it n = item_Match e it c"
    if "it \<in> set (r_items b @ r_sourceAddressItems b @ r_sourcePortItems b @
                 r_destinationAddressItems b @ r_destinationPortItems b)" for it
    using that wf item_Match_nested [of it e item c] by (auto simp: n_def wf_branch_def)
  have cidr: "item_Match e it n = item_Match e (if rsi_ipCidrMatchSource item then to_source it else it) c"
    if "it \<in> set (r_destinationIPCIDRItems b)" for it
    using that wf assms item_Match_nested_source [of it item e c] item_Match_nested_plain [of c item e it]
    by (auto simp: n_def wf_branch_def)
  show "src_items b n = [] \<longleftrightarrow> r_sourceAddressItems b' = []"
    "dst_items b n = [] \<longleftrightarrow> r_destinationAddressItems b' @ r_destinationIPCIDRItems b' = []"
    by (auto simp: sd n b'_def branch_for_def)
  show "matchAnyItem e (src_items b n) n \<longleftrightarrow> matchAnyItem e (r_sourceAddressItems b') c"
    "matchAnyItem e (dst_items b n) n \<longleftrightarrow>
           matchAnyItem e (r_destinationAddressItems b' @ r_destinationIPCIDRItems b') c"
    by (auto simp: sd n b'_def branch_for_def matchAnyItem_iff other cidr bex_Un)
  show "matchAnyItem e (r_sourcePortItems b) n \<longleftrightarrow> matchAnyItem e (r_sourcePortItems b') c"
    "matchAnyItem e (r_destinationPortItems b) n \<longleftrightarrow> matchAnyItem e (r_destinationPortItems b') c"
    "(\<forall>it \<in> set (r_items b). item_Match e it n) \<longleftrightarrow> (\<forall>it \<in> set (r_items b'). item_Match e it c)"
    "r_sourcePortItems b' = r_sourcePortItems b" "r_destinationPortItems b' = r_destinationPortItems b"
    by (auto simp: b'_def branch_for_def matchAnyItem_iff other)
qed

lemma merge_rules_holds:
  assumes "\<not> mc_IPCIDRMatchSource c" and "\<not> mc_IPCIDRAcceptEmpty c"
    and ign: "\<not> mc_IgnoreDestinationIPCIDRMatch c"
    and "\<not> rsi_ipCidrAcceptEmpty item" and "wf_branch b"
  shows "default_holds e (merge_rules r (branch_for item b)) c \<longleftrightarrow>
     (\<forall>it \<in> set (r_items r). item_Match e it c) \<and>
     (\<forall>it \<in> set (r_items b). item_Match e it (nestedMetadata item c)) \<and>
     done_groups (mergeWith (fst (evaluateGroups e r c)) (fst (evaluateGroups e b (nestedMetadata item c))))"
  using assms(1) unfolding mergeWith_done branch_groups [OF assms] default_holds_def
  by (auto simp: any_or_none_iff src_dst_items [OF ign] merge_rules_def
      branch_groups(8,9) [OF assms])

lemma evaluateForMerge_fst:
  "fst (evaluateForMerge e b c) =
     (if \<forall>it \<in> set (r_items b). item_Match e it c then (fst (evaluateGroups e b c), True)
      else (groups_zero, False))"
  by (simp add: evaluateForMerge_def match_items_eq evaluateGroups_eq Let_def list_all_iff)

text \<open>What a rule with a rule-set item asks for, per set.\<close>

definition set_holds ::
  "'x env \<Rightarrow> (string \<Rightarrow> 'x ruleset_iface) \<Rightarrow> RuleSetItem \<Rightarrow> 'x abstractDefaultRule \<Rightarrow> inbound_context \<Rightarrow> string \<Rightarrow> bool" where
  "set_holds e sets item r c tag =
     (case if_mergeableRule (sets tag) of
        Some b \<Rightarrow> default_holds e (merge_rules r (branch_for item b)) c
      | None \<Rightarrow> default_holds e r c \<and> if_Match (sets tag) (nestedMetadata item c))"

lemma matchInner_set:
  assumes flags: "\<not> mc_IPCIDRMatchSource c" "\<not> mc_IPCIDRAcceptEmpty c" "\<not> mc_IgnoreDestinationIPCIDRMatch c"
    and item: "r_ruleSetItem r = Some item" "\<not> rsi_ipCidrAcceptEmpty item"
    and wf: "\<And>tag b. tag \<in> set (rsi_setList item) \<Longrightarrow> if_mergeableRule (sets tag) = Some b \<Longrightarrow> wf_branch b"
  shows "fst (matchInner e sets r c) \<longleftrightarrow> (\<exists>tag \<in> set (rsi_setList item). set_holds e sets item r c tag)"
proof -
  have one: "set_holds e sets item r c tag \<longleftrightarrow>
      (\<forall>it \<in> set (r_items r). item_Match e it c) \<and>
      (case if_mergeableRule (sets tag) of
         Some b \<Rightarrow>
           (\<forall>it \<in> set (r_items b). item_Match e it (nestedMetadata item c)) \<and>
           done_groups (mergeWith (fst (evaluateGroups e r c)) (fst (evaluateGroups e b (nestedMetadata item c))))
       | None \<Rightarrow> done_groups (fst (evaluateGroups e r c)) \<and> if_Match (sets tag) (nestedMetadata item c))"
    if "tag \<in> set (rsi_setList item)" for tag
  proof (cases "if_mergeableRule (sets tag)")
    case None
    then show ?thesis by (auto simp: set_holds_def default_holds_def evaluateGroups_done)
  next
    case (Some b)
    then show ?thesis
      using merge_rules_holds [OF flags item(2) wf [OF that Some], of e r] by (simp add: set_holds_def)
  qed
  have "matchWithOuterGroups e sets item (c\<lparr>mc_DidMatch := True\<rparr>) (fst (evaluateGroups e r c)) \<longleftrightarrow>
      (\<exists>tag \<in> set (rsi_setList item).
         case if_mergeableRule (sets tag) of
           Some b \<Rightarrow>
             (\<forall>it \<in> set (r_items b). item_Match e it (nestedMetadata item c)) \<and>
             done_groups (mergeWith (fst (evaluateGroups e r c)) (fst (evaluateGroups e b (nestedMetadata item c))))
         | None \<Rightarrow> done_groups (fst (evaluateGroups e r c)) \<and> if_Match (sets tag) (nestedMetadata item c))"
    unfolding matchWithOuterGroups_def Let_def list_ex_iff
    by (intro bex_cong refl) (auto simp: evaluateForMerge_fst split: option.split)
  then show ?thesis by (auto simp: matchInner_fst item(1) one)
qed

subsection \<open>Rule-sets over headless rules\<close>

fun mergeableRuleIn :: "'x rule list \<Rightarrow> 'x abstractDefaultRule option" where
  "mergeableRuleIn [DefaultRule r] =
     (if r_invert r \<or> r_ruleSetItem r \<noteq> None then None else Some r)"
| "mergeableRuleIn rules = None"

text \<open>Headless rules name no rule-sets.\<close>

definition no_sets :: "string \<Rightarrow> 'x ruleset_iface" where
  "no_sets tag = \<lparr>if_mergeableRule = None, if_Match = (\<lambda>_. False),
     if_Metadata = \<lparr>ContainsProcessRule = False, ContainsWIFIRule = False, ContainsIPCIDRRule = False,
       ContainsDNSQueryTypeRule = False, ContainsNonIPCIDRRule = False\<rparr>\<rparr>"

definition matchAnyHeadlessRule :: "'x env \<Rightarrow> 'x rule list \<Rightarrow> inbound_context \<Rightarrow> bool" where
  "matchAnyHeadlessRule e rules metadata =
     list_ex (\<lambda>rule. fst (rule_Match e no_sets rule (ResetRuleMatchCache metadata))) rules"

text \<open>The methods of \<^verbatim>\<open>LocalRuleSet\<close> and \<^verbatim>\<open>RemoteRuleSet\<close> over their rules and metadata.\<close>

definition ruleset_of :: "'x env \<Rightarrow> 'x rule list \<times> ruleset_metadata \<Rightarrow> 'x ruleset_iface" where
  "ruleset_of e rm =
     \<lparr>if_mergeableRule = mergeableRuleIn (fst rm),
      if_Match = matchAnyHeadlessRule e (fst rm),
      if_Metadata = snd rm\<rparr>"

lemma mergeableRuleIn_Some:
  "mergeableRuleIn rules = Some b \<longleftrightarrow> rules = [DefaultRule b] \<and> \<not> r_invert b \<and> r_ruleSetItem b = None"
  by (cases rules rule: mergeableRuleIn.cases) auto

lemma default_holds_cong:
  assumes "\<And>it. item_Match e it c = item_Match e it d"
    and "mc_IPCIDRMatchSource c = mc_IPCIDRMatchSource d"
    and "mc_IgnoreDestinationIPCIDRMatch c = mc_IgnoreDestinationIPCIDRMatch d"
  shows "default_holds e r c = default_holds e r d"
  using assms
  by (simp add: default_holds_def any_or_none_def src_items_def dst_items_def
      destinationIPCIDRMatchesSource_def destinationIPCIDRMatchesDestination_def)

lemma default_holds_Reset [simp]: "default_holds e r (ResetRuleMatchCache c) = default_holds e r c"
proof (rule default_holds_cong)
  show "mc_IPCIDRMatchSource (ResetRuleMatchCache c) = mc_IPCIDRMatchSource c"
    and "mc_IgnoreDestinationIPCIDRMatch (ResetRuleMatchCache c) = mc_IgnoreDestinationIPCIDRMatch c"
    by (simp_all add: ResetRuleMatchCache_def)
qed simp

lemma no_items_holds: "wf_lists b \<Longrightarrow> no_items b \<Longrightarrow> default_holds e b c"
  by (auto simp: wf_lists_def no_items_def default_holds_def any_or_none_def src_items_def dst_items_def)

lemma default_rule_Match:
  assumes "wf_lists r" and "r_ruleSetItem r = None" and "\<not> r_invert r"
  shows "fst (abstractDefaultRule_Match e sets r c) = default_holds e r c"
  using assms no_items_holds [of r e c]
  by (auto simp: abstractDefaultRule_Match_def Let_def split_beta matchInner_no_set)

text \<open>A mergeable set matches like its rule.\<close>

lemma mergeable_Match:
  assumes "mergeableRuleIn rules = Some b" and "wf_lists b"
  shows "matchAnyHeadlessRule e rules c = default_holds e b c"
  using assms by (simp add: mergeableRuleIn_Some matchAnyHeadlessRule_def default_rule_Match)

lemma done_merge_zero: "done_groups (mergeWith groups_zero g) = done_groups g"
  by (simp add: mergeWith_def groups_zero_def done_groups_def)

end
