(* ===== verification/Rule_Action.thy ===== *)
theory Rule_Action
  imports Metadata
begin

text \<open>
  Rule actions: the options of \<^verbatim>\<open>option/rule_action.go\<close>, the action objects built from
  them (\<^verbatim>\<open>route/rule/rule_action.go\<close>, \<^verbatim>\<open>common/tlsspoof/spoof.go\<close>) and their
  operations: the flooding counter of \<^verbatim>\<open>reject\<close>, the sniffer table, the predefined DNS
  response. An action object is shared by all connections; its only mutable field, the
  counter of \<^verbatim>\<open>reject\<close>, is passed explicitly.

  Parameters: \<^verbatim>\<open>M.ParseSocksaddrHostPort\<close> (third party), and the error of
  \<^verbatim>\<open>dialer.New\<close> for the \<^verbatim>\<open>direct\<close> action, whose dialer is not used by the router.
\<close>

subsection \<open>Options\<close>

record RawRouteOptionsActionOptions =
  oro_OverrideAddress :: string
  oro_OverridePort :: "16 word"
  oro_NetworkStrategy :: "byte option"
  oro_FallbackDelay :: "32 word"
  oro_UDPDisableDomainUnmapping :: bool
  oro_UDPConnect :: bool
  oro_UDPTimeout :: int
  oro_TLSFragment :: bool
  oro_TLSFragmentFallbackDelay :: int
  oro_TLSRecordFragment :: bool
  oro_TLSSpoof :: string
  oro_TLSSpoofMethod :: string

definition raw_route_options_zero :: RawRouteOptionsActionOptions where
  "raw_route_options_zero = \<lparr>oro_OverrideAddress = [], oro_OverridePort = 0, oro_NetworkStrategy = None,
     oro_FallbackDelay = 0, oro_UDPDisableDomainUnmapping = False, oro_UDPConnect = False, oro_UDPTimeout = 0,
     oro_TLSFragment = False, oro_TLSFragmentFallbackDelay = 0, oro_TLSRecordFragment = False,
     oro_TLSSpoof = [], oro_TLSSpoofMethod = []\<rparr>"

record RouteActionOptions =
  rao_Outbound :: string
  rao_Raw :: RawRouteOptionsActionOptions

definition route_action_options_zero :: RouteActionOptions where
  "route_action_options_zero = \<lparr>rao_Outbound = [], rao_Raw = raw_route_options_zero\<rparr>"

record RejectActionOptions =
  rej_Method :: string
  rej_NoDrop :: bool

record RouteActionSniff =
  sno_Sniffer :: "string list"
  sno_Timeout :: int

record RouteActionResolve =
  res_Server :: string
  res_Timeout :: int
  res_Strategy :: byte
  res_DisableCache :: bool
  res_DisableOptimisticCache :: bool
  res_RewriteTTL :: "32 word option"
  res_ClientSubnet :: "netip_prefix option"

text \<open>\<^verbatim>\<open>option.RuleAction\<close>: the action name with one options struct per action. The dialer
  options of \<^verbatim>\<open>direct\<close> only matter through their descriptions.\<close>

record RuleActionOptions =
  rao_Action :: string
  rao_RouteOptions :: RouteActionOptions
  rao_RouteOptionsOptions :: RawRouteOptionsActionOptions
  rao_DirectDescriptions :: "string list"
  rao_BypassOptions :: RouteActionOptions
  rao_RejectOptions :: RejectActionOptions
  rao_SniffOptions :: RouteActionSniff
  rao_ResolveOptions :: RouteActionResolve

definition rule_action_zero :: RuleActionOptions where
  "rule_action_zero = \<lparr>
     rao_Action = [], rao_RouteOptions = route_action_options_zero,
     rao_RouteOptionsOptions = raw_route_options_zero, rao_DirectDescriptions = [],
     rao_BypassOptions = route_action_options_zero,
     rao_RejectOptions = \<lparr>rej_Method = [], rej_NoDrop = False\<rparr>,
     rao_SniffOptions = \<lparr>sno_Sniffer = [], sno_Timeout = 0\<rparr>,
     rao_ResolveOptions = \<lparr>res_Server = [], res_Timeout = 0, res_Strategy = 0, res_DisableCache = False,
       res_DisableOptimisticCache = False, res_RewriteTTL = None, res_ClientSubnet = None\<rparr>\<rparr>"

subsection \<open>TLS spoofing options\<close>

definition ParseMethod :: "string \<Rightarrow> spoof_method result" where
  "ParseMethod s =
     (if s = [] \<or> s = ''wrong-sequence'' then Inr MethodWrongSequence
      else if s = ''wrong-checksum'' then Inr MethodWrongChecksum
      else if s = ''wrong-ack'' then Inr MethodWrongAcknowledgment
      else if s = ''wrong-md5'' then Inr MethodWrongMD5Sig
      else if s = ''wrong-timestamp'' then Inr MethodWrongTimestamp
      else Inl (E_New (''tls_spoof: unknown method: '' @ s)))"

fun Method_String :: "spoof_method \<Rightarrow> string" where
  "Method_String MethodWrongSequence = ''wrong-sequence''"
| "Method_String MethodWrongChecksum = ''wrong-checksum''"
| "Method_String MethodWrongAcknowledgment = ''wrong-ack''"
| "Method_String MethodWrongMD5Sig = ''wrong-md5''"
| "Method_String MethodWrongTimestamp = ''wrong-timestamp''"

text \<open>The zero value of \<^verbatim>\<open>Method\<close> is \<^verbatim>\<open>MethodWrongSequence\<close>.\<close>

definition ParseOptions :: "bool \<Rightarrow> string \<Rightarrow> string \<Rightarrow> (string \<times> spoof_method) result" where
  "ParseOptions PlatformSupported spoof method =
     (if spoof = [] then
        if method \<noteq> [] then Inl (E_New ''spoof_method requires spoof'')
        else Inr ([], MethodWrongSequence)
      else if \<not> PlatformSupported then Inl (E_New ''tls_spoof is not supported on this platform'')
      else bind_result (ParseMethod method) (\<lambda>parsedMethod. Inr (spoof, parsedMethod)))"

lemma ParseMethod_String [simp]: "ParseMethod (Method_String m) = Inr m"
  by (cases m) (simp_all add: ParseMethod_def)

subsection \<open>Action objects\<close>

record RuleActionRouteOptions =
  ao_OverrideAddress :: socksaddr
  ao_OverridePort :: "16 word"
  ao_NetworkStrategy :: "byte option"
  ao_NetworkType :: "interface_type list"
  ao_FallbackNetworkType :: "interface_type list"
  ao_FallbackDelay :: int
  ao_UDPDisableDomainUnmapping :: bool
  ao_UDPConnect :: bool
  ao_UDPTimeout :: int
  ao_TLSFragment :: bool
  ao_TLSFragmentFallbackDelay :: int
  ao_TLSRecordFragment :: bool
  ao_TLSSpoof :: string
  ao_TLSSpoofMethod :: spoof_method

datatype stream_sniffer = TLSClientHello | HTTPHost | StreamDomainNameQuery | BitTorrent | SSH | RDP

datatype packet_sniffer = QUICClientHello | DomainNameQuery | STUNMessage | UTP | UDPTracker | DTLSRecord | NTP

record RuleActionSniff =
  sn_SnifferNames :: "string list"
  sn_StreamSniffers :: "stream_sniffer list"
  sn_PacketSniffers :: "packet_sniffer list"
  sn_Timeout :: int
  sn_OverrideDestination :: bool

record RuleActionResolve =
  rs_Server :: string
  rs_Timeout :: int
  rs_Strategy :: byte
  rs_DisableCache :: bool
  rs_DisableOptimisticCache :: bool
  rs_RewriteTTL :: "32 word option"
  rs_ClientSubnet :: netip_prefix

datatype rule_action =
    ActRoute string RuleActionRouteOptions
  | ActBypass string RuleActionRouteOptions
  | ActRouteOptions RuleActionRouteOptions
  | ActDirect string
  | ActReject string bool
  | ActHijackDNS
  | ActSniff RuleActionSniff
  | ActResolve RuleActionResolve

record action_env =
  ae_ParseSocksaddrHostPort :: "string \<Rightarrow> 16 word \<Rightarrow> socksaddr"
  ae_DialerNew :: "string list \<Rightarrow> error option"
  ae_SpoofSupported :: bool

definition newRuleActionRouteOptions ::
  "action_env \<Rightarrow> RawRouteOptionsActionOptions \<Rightarrow> RuleActionRouteOptions result" where
  "newRuleActionRouteOptions ae options =
     bind_result (ParseOptions (ae_SpoofSupported ae) (oro_TLSSpoof options) (oro_TLSSpoofMethod options))
       (\<lambda>(spoof, spoofMethod). Inr \<lparr>
          ao_OverrideAddress = ae_ParseSocksaddrHostPort ae (oro_OverrideAddress options) 0,
          ao_OverridePort = oro_OverridePort options,
          ao_NetworkStrategy = oro_NetworkStrategy options,
          ao_NetworkType = [],
          ao_FallbackNetworkType = [],
          ao_FallbackDelay = uint (oro_FallbackDelay options),
          ao_UDPDisableDomainUnmapping = oro_UDPDisableDomainUnmapping options,
          ao_UDPConnect = oro_UDPConnect options,
          ao_UDPTimeout = oro_UDPTimeout options,
          ao_TLSFragment = oro_TLSFragment options,
          ao_TLSFragmentFallbackDelay = oro_TLSFragmentFallbackDelay options,
          ao_TLSRecordFragment = oro_TLSRecordFragment options,
          ao_TLSSpoof = spoof,
          ao_TLSSpoofMethod = spoofMethod\<rparr>)"

text \<open>\<^verbatim>\<open>RuleActionSniff.build\<close>.\<close>

definition sniffers_of :: "string \<Rightarrow> (stream_sniffer list \<times> packet_sniffer list) result" where
  "sniffers_of name =
     (if name = ''tls'' then Inr ([TLSClientHello], [])
      else if name = ''http'' then Inr ([HTTPHost], [])
      else if name = ''quic'' then Inr ([], [QUICClientHello])
      else if name = ''dns'' then Inr ([StreamDomainNameQuery], [DomainNameQuery])
      else if name = ''stun'' then Inr ([], [STUNMessage])
      else if name = ''bittorrent'' then Inr ([BitTorrent], [UTP, UDPTracker])
      else if name = ''dtls'' then Inr ([], [DTLSRecord])
      else if name = ''ssh'' then Inr ([SSH], [])
      else if name = ''rdp'' then Inr ([RDP], [])
      else if name = ''ntp'' then Inr ([], [NTP])
      else Inl (E_New (''unknown sniffer: '' @ name)))"

fun sniff_build_loop :: "string list \<Rightarrow> RuleActionSniff \<Rightarrow> RuleActionSniff result" where
  "sniff_build_loop [] r = Inr r"
| "sniff_build_loop (name # names) r =
     bind_result (sniffers_of name) (\<lambda>(ss, ps).
       sniff_build_loop names
         (r\<lparr>sn_StreamSniffers := sn_StreamSniffers r @ ss, sn_PacketSniffers := sn_PacketSniffers r @ ps\<rparr>))"

definition sniff_build :: "RuleActionSniff \<Rightarrow> RuleActionSniff result" where
  "sniff_build r = sniff_build_loop (sn_SnifferNames r) r"

definition direct_description :: "string list \<Rightarrow> string" where
  "direct_description descriptions =
     (case descriptions of
        [] \<Rightarrow> []
      | [a] \<Rightarrow> ''('' @ a @ '')''
      | [a, b] \<Rightarrow> ''('' @ a @ '','' @ b @ '')''
      | a # b # _ \<Rightarrow> ''('' @ a @ '','' @ b @ '',...)'')"

text \<open>
  \<^verbatim>\<open>NewRuleAction\<close>. No action is \<open>Inr None\<close>. A name that is none of the known ones
  panics in the source; option decoding rejects it first. The panic is the error
  \<open>E_Sentinel ''panic''\<close>.
\<close>

definition NewRuleAction :: "action_env \<Rightarrow> RuleActionOptions \<Rightarrow> rule_action option result" where
  "NewRuleAction ae action =
     (let a = rao_Action action in
      if a = [] then Inr None
      else if a = ''route'' then
        bind_result (newRuleActionRouteOptions ae (rao_Raw (rao_RouteOptions action)))
          (\<lambda>routeOptions. Inr (Some (ActRoute (rao_Outbound (rao_RouteOptions action)) routeOptions)))
      else if a = ''route-options'' then
        bind_result (newRuleActionRouteOptions ae (rao_RouteOptionsOptions action))
          (\<lambda>routeOptions. Inr (Some (ActRouteOptions routeOptions)))
      else if a = ''bypass'' then
        bind_result (newRuleActionRouteOptions ae (rao_Raw (rao_BypassOptions action)))
          (\<lambda>routeOptions. Inr (Some (ActBypass (rao_Outbound (rao_BypassOptions action)) routeOptions)))
      else if a = ''direct'' then
        (case ae_DialerNew ae (rao_DirectDescriptions action) of
           Some err \<Rightarrow> Inl err
         | None \<Rightarrow> Inr (Some (ActDirect (direct_description (rao_DirectDescriptions action)))))
      else if a = ''reject'' then
        Inr (Some (ActReject (rej_Method (rao_RejectOptions action)) (rej_NoDrop (rao_RejectOptions action))))
      else if a = ''hijack-dns'' then Inr (Some ActHijackDNS)
      else if a = ''sniff'' then
        bind_result (sniff_build
            \<lparr>sn_SnifferNames = sno_Sniffer (rao_SniffOptions action), sn_StreamSniffers = [],
             sn_PacketSniffers = [], sn_Timeout = sno_Timeout (rao_SniffOptions action),
             sn_OverrideDestination = False\<rparr>)
          (\<lambda>sniff. Inr (Some (ActSniff sniff)))
      else if a = ''resolve'' then
        (let o' = rao_ResolveOptions action in
         Inr (Some (ActResolve
           \<lparr>rs_Server = res_Server o', rs_Timeout = res_Timeout o', rs_Strategy = res_Strategy o',
            rs_DisableCache = res_DisableCache o', rs_DisableOptimisticCache = res_DisableOptimisticCache o',
            rs_RewriteTTL = res_RewriteTTL o',
            rs_ClientSubnet = (case res_ClientSubnet o' of None \<Rightarrow> prefix_zero | Some p \<Rightarrow> p)\<rparr>)))
      else Inl (E_Sentinel ''panic''))"

lemma sniffers_of_ok:
  "(\<exists>r. sniffers_of name = Inr r) \<longleftrightarrow>
     name \<in> {''tls'', ''http'', ''quic'', ''dns'', ''stun'', ''bittorrent'', ''dtls'', ''ssh'', ''rdp'', ''ntp''}"
  by (simp add: sniffers_of_def)

lemma sniff_build_loop_eq:
  "sniff_build_loop names r =
     bind_result (map_result sniffers_of names) (\<lambda>tables.
       Inr (r\<lparr>sn_StreamSniffers := sn_StreamSniffers r @ concat (map fst tables),
              sn_PacketSniffers := sn_PacketSniffers r @ concat (map snd tables)\<rparr>))"
proof (induction names arbitrary: r)
  case (Cons name names)
  show ?case
    by (cases "sniffers_of name"; cases "map_result sniffers_of names") (auto simp: Cons.IH split_beta)
qed simp

subsection \<open>Reject\<close>

text \<open>
  \<^verbatim>\<open>RuleActionReject.Error\<close>: the wrapped cause of the \<^verbatim>\<open>RejectedError\<close>, nil for
  \<^verbatim>\<open>reply\<close>. Times are nanoseconds of the monotonic clock; the counter is
  \<^verbatim>\<open>dropCounter\<close>.
\<close>

datatype reject_error = ErrReset | ErrDrop | ErrNil | ErrPanic

definition drop_window :: int where
  "drop_window = 30 * 1000000000"

definition RuleActionReject_Error ::
  "string \<Rightarrow> bool \<Rightarrow> int \<Rightarrow> int list \<Rightarrow> reject_error \<times> int list" where
  "RuleActionReject_Error method noDrop timeNow dropCounter =
     (if method = ''drop'' then (ErrDrop, dropCounter)
      else if method = ''reply'' then (ErrNil, dropCounter)
      else if method \<noteq> ''default'' then (ErrPanic, dropCounter)
      else if noDrop then (ErrReset, dropCounter)
      else let dropCounter = filter (\<lambda>t. timeNow - t \<le> drop_window) dropCounter;
               dropCounter = dropCounter @ [timeNow]
           in if 50 < length dropCounter then (ErrDrop, dropCounter) else (ErrReset, dropCounter))"

text \<open>The answers to a sequence of rejections at the given times.\<close>

fun reject_run :: "string \<Rightarrow> bool \<Rightarrow> int list \<Rightarrow> int list \<Rightarrow> reject_error list \<times> int list" where
  "reject_run method noDrop [] counter = ([], counter)"
| "reject_run method noDrop (t # ts) counter =
     (let (answer, counter) = RuleActionReject_Error method noDrop t counter;
          (answers, counter) = reject_run method noDrop ts counter
      in (answer # answers, counter))"

lemma reject_run_append:
  "reject_run m d (ts @ us) counter =
     (let (as, counter) = reject_run m d ts counter; (bs, counter) = reject_run m d us counter
      in (as @ bs, counter))"
  by (induction ts arbitrary: counter) (simp_all add: Let_def split_beta)

text \<open>With increasing times the counter holds the rejections of the last 30 seconds.\<close>

definition recent :: "int list \<Rightarrow> int \<Rightarrow> int list" where
  "recent ts now = filter (\<lambda>t. now - t \<le> drop_window) ts"

lemma recent_recent: "now \<le> now' \<Longrightarrow> recent (recent ts now) now' = recent ts now'"
  by (auto simp: recent_def intro!: filter_cong)

lemma reject_run_default:
  assumes "sorted (ts @ [now])"
  shows "snd (reject_run ''default'' False (ts @ [now]) []) = recent (ts @ [now]) now"
    and "last (fst (reject_run ''default'' False (ts @ [now]) [])) =
           (if 50 < length (recent (ts @ [now]) now) then ErrDrop else ErrReset)"
proof -
  have "sorted (ts @ [now]) \<Longrightarrow>
      recent (snd (reject_run ''default'' False ts [])) now = recent ts now" for now
  proof (induction ts arbitrary: now rule: rev_induct)
    case (snoc t ts)
    then have le: "t \<le> now" and s: "sorted (ts @ [t])" by (auto simp: sorted_append)
    have "snd (reject_run ''default'' False (ts @ [t]) []) = recent ts t @ [t]"
      using snoc.IH [OF s]
      by (simp add: reject_run_append RuleActionReject_Error_def Let_def split_beta recent_def)
    then show ?case using recent_recent [OF le, of ts] by (simp add: recent_def)
  qed (simp add: recent_def)
  from this [OF assms] have *: "recent (snd (reject_run ''default'' False ts [])) now = recent ts now" .
  then have now: "recent (ts @ [now]) now = recent ts now @ [now]"
    by (simp add: recent_def drop_window_def)
  from * show "snd (reject_run ''default'' False (ts @ [now]) []) = recent (ts @ [now]) now"
    unfolding now
    by (simp add: reject_run_append RuleActionReject_Error_def Let_def split_beta recent_def)
  from * show "last (fst (reject_run ''default'' False (ts @ [now]) [])) =
           (if 50 < length (recent (ts @ [now]) now) then ErrDrop else ErrReset)"
    unfolding now
    by (simp add: reject_run_append RuleActionReject_Error_def Let_def split_beta recent_def)
qed

subsection \<open>DNS actions\<close>

record RuleActionDNSRouteOptions =
  dr_Strategy :: byte
  dr_Timeout :: int
  dr_DisableCache :: bool
  dr_DisableOptimisticCache :: bool
  dr_RewriteTTL :: "32 word option"
  dr_ClientSubnet :: netip_prefix

record AbstractDNSRouteActionOptions =
  do_Strategy :: byte
  do_Timeout :: int
  do_DisableCache :: bool
  do_DisableOptimisticCache :: bool
  do_RewriteTTL :: "32 word option"
  do_ClientSubnet :: "netip_prefix option"

record DNSRuleActionOptions =
  dao_Action :: string
  dao_Race :: bool
  dao_RouteServer :: string
  dao_RouteSpeculative :: bool
  dao_RouteOptions :: AbstractDNSRouteActionOptions
  dao_EvaluateServer :: string
  dao_EvaluateTag :: string
  dao_EvaluateSpeculative :: bool
  dao_EvaluateOptions :: AbstractDNSRouteActionOptions
  dao_RouteOptionsOptions :: AbstractDNSRouteActionOptions
  dao_RejectOptions :: RejectActionOptions
  dao_PredefinedRcode :: int
  dao_PredefinedAnswer :: "dns_rr list"
  dao_PredefinedNs :: "dns_rr list"
  dao_PredefinedExtra :: "dns_rr list"

record RuleActionPredefined =
  pd_Rcode :: int
  pd_Answer :: "dns_rr list"
  pd_Ns :: "dns_rr list"
  pd_Extra :: "dns_rr list"

datatype dns_rule_action =
    ActDNSRoute string bool RuleActionDNSRouteOptions
  | ActEvaluate string string bool RuleActionDNSRouteOptions
  | ActRespond
  | ActDNSRouteOptions RuleActionDNSRouteOptions
  | ActDNSReject string bool
  | ActPredefined RuleActionPredefined

definition dns_route_options :: "AbstractDNSRouteActionOptions \<Rightarrow> RuleActionDNSRouteOptions" where
  "dns_route_options o' = \<lparr>
     dr_Strategy = do_Strategy o', dr_Timeout = do_Timeout o', dr_DisableCache = do_DisableCache o',
     dr_DisableOptimisticCache = do_DisableOptimisticCache o', dr_RewriteTTL = do_RewriteTTL o',
     dr_ClientSubnet = (case do_ClientSubnet o' of None \<Rightarrow> prefix_zero | Some p \<Rightarrow> p)\<rparr>"

definition NewDNSRuleAction :: "DNSRuleActionOptions \<Rightarrow> dns_rule_action option result" where
  "NewDNSRuleAction action =
     (let a = dao_Action action in
      if a = [] then Inr None
      else if a = ''route'' then
        Inr (Some (ActDNSRoute (dao_RouteServer action) (dao_RouteSpeculative action)
          (dns_route_options (dao_RouteOptions action))))
      else if a = ''evaluate'' then
        Inr (Some (ActEvaluate (dao_EvaluateServer action) (dao_EvaluateTag action)
          (dao_EvaluateSpeculative action) (dns_route_options (dao_EvaluateOptions action))))
      else if a = ''respond'' then Inr (Some ActRespond)
      else if a = ''route-options'' then
        Inr (Some (ActDNSRouteOptions (dns_route_options (dao_RouteOptionsOptions action))))
      else if a = ''reject'' then
        Inr (Some (ActDNSReject (rej_Method (dao_RejectOptions action)) (rej_NoDrop (dao_RejectOptions action))))
      else if a = ''predefined'' then
        Inr (Some (ActPredefined
          \<lparr>pd_Rcode = dao_PredefinedRcode action, pd_Answer = dao_PredefinedAnswer action,
           pd_Ns = dao_PredefinedNs action, pd_Extra = dao_PredefinedExtra action\<rparr>))
      else Inl (E_Sentinel ''panic''))"

definition rewriteRecords :: "dns_rr list \<Rightarrow> dns_question \<Rightarrow> dns_rr list" where
  "rewriteRecords records question =
     map (\<lambda>it.
       if has_prefix (rr_Name it) ''*'' \<and> has_suffix (q_Name question) (drop 1 (rr_Name it))
       then it\<lparr>rr_Name := q_Name question\<rparr> else it) records"

text \<open>\<^verbatim>\<open>Response\<close> reads \<^verbatim>\<open>request.Question[0]\<close>; a request without question panics.\<close>

definition RuleActionPredefined_Response :: "RuleActionPredefined \<Rightarrow> dns_msg \<Rightarrow> dns_msg option" where
  "RuleActionPredefined_Response r request =
     (case msg_Question request of
        [] \<Rightarrow> None
      | q # _ \<Rightarrow> Some \<lparr>
          msg_Id = msg_Id request, msg_Response = True, msg_Authoritative = True,
          msg_RecursionDesired = True, msg_RecursionAvailable = True, msg_Rcode = pd_Rcode r,
          msg_Question = msg_Question request,
          msg_Answer = rewriteRecords (pd_Answer r) q,
          msg_Ns = rewriteRecords (pd_Ns r) q,
          msg_Extra = rewriteRecords (pd_Extra r) q\<rparr>)"

end
