(* ===== verification/Rule_Build.thy ===== *)
theory Rule_Build
  imports Rule_Match Rule_Action
begin

text \<open>
  Construction of rules from options: \<^verbatim>\<open>NewRule\<close>, \<^verbatim>\<open>NewDefaultRule\<close> and
  \<^verbatim>\<open>NewLogicalRule\<close> (\<^verbatim>\<open>route/rule/rule_default.go\<close>), \<^verbatim>\<open>NewHeadlessRule\<close> and its
  parts (\<^verbatim>\<open>rule_headless.go\<close>), the validation of nested actions
  (\<^verbatim>\<open>rule_nested_action.go\<close>), over the option structs of \<^verbatim>\<open>option/rule.go\<close> and
  \<^verbatim>\<open>option/rule_set.go\<close>.

  The builders are long sequences of \<^verbatim>\<open>if configured, build the item and append it to its
  group and to allItems\<close>. Such a block is a value of type \<open>step\<close>, and \<open>run_steps\<close>
  executes the blocks in order, leaving at the first error. Options are as decoded: a list
  that is not configured is empty, and the type of a rule is \<^verbatim>\<open>default\<close> or
  \<^verbatim>\<open>logical\<close>.
\<close>

subsection \<open>Options\<close>

record RawDefaultRule =
  o_Inbound :: "string list"
  o_IPVersion :: int
  o_Network :: "string list"
  o_AuthUser :: "string list"
  o_Protocol :: "string list"
  o_Client :: "string list"
  o_Domain :: "string list"
  o_DomainSuffix :: "string list"
  o_DomainKeyword :: "string list"
  o_DomainRegex :: "string list"
  o_Geosite :: "string list"
  o_SourceGeoIP :: "string list"
  o_GeoIP :: "string list"
  o_SourceIPCIDR :: "string list"
  o_SourceIPIsPrivate :: bool
  o_IPCIDR :: "string list"
  o_IPIsPrivate :: bool
  o_SourcePort :: "16 word list"
  o_SourcePortRange :: "string list"
  o_Port :: "16 word list"
  o_PortRange :: "string list"
  o_ProcessName :: "string list"
  o_ProcessPath :: "string list"
  o_ProcessPathRegex :: "string list"
  o_PackageName :: "string list"
  o_PackageNameRegex :: "string list"
  o_User :: "string list"
  o_UserID :: "int list"
  o_ClashMode :: string
  o_NetworkType :: "interface_type list"
  o_NetworkIsExpensive :: bool
  o_NetworkIsConstrained :: bool
  o_WIFISSID :: "string list"
  o_WIFIBSSID :: "string list"
  o_InterfaceAddress :: "(string \<times> netip_prefix list) list"
  o_NetworkInterfaceAddress :: "(interface_type \<times> netip_prefix list) list"
  o_DefaultInterfaceAddress :: "netip_prefix list"
  o_SourceMACAddress :: "string list"
  o_SourceHostname :: "string list"
  o_PreferredBy :: "string list"
  o_RuleSet :: "string list"
  o_RuleSetIPCIDRMatchSource :: bool
  o_Invert :: bool
  o_Deprecated_RulesetIPCIDRMatchSource :: bool

definition default_rule_zero :: RawDefaultRule where
  "default_rule_zero = \<lparr>
     o_Inbound = [], o_IPVersion = 0, o_Network = [], o_AuthUser = [], o_Protocol = [], o_Client = [],
     o_Domain = [], o_DomainSuffix = [], o_DomainKeyword = [], o_DomainRegex = [], o_Geosite = [],
     o_SourceGeoIP = [], o_GeoIP = [], o_SourceIPCIDR = [], o_SourceIPIsPrivate = False, o_IPCIDR = [],
     o_IPIsPrivate = False, o_SourcePort = [], o_SourcePortRange = [], o_Port = [], o_PortRange = [],
     o_ProcessName = [], o_ProcessPath = [], o_ProcessPathRegex = [], o_PackageName = [],
     o_PackageNameRegex = [], o_User = [], o_UserID = [], o_ClashMode = [], o_NetworkType = [],
     o_NetworkIsExpensive = False, o_NetworkIsConstrained = False, o_WIFISSID = [], o_WIFIBSSID = [],
     o_InterfaceAddress = [], o_NetworkInterfaceAddress = [], o_DefaultInterfaceAddress = [],
     o_SourceMACAddress = [], o_SourceHostname = [], o_PreferredBy = [], o_RuleSet = [],
     o_RuleSetIPCIDRMatchSource = False, o_Invert = False, o_Deprecated_RulesetIPCIDRMatchSource = False\<rparr>"

datatype rule_options =
    DefaultOptions RawDefaultRule RuleActionOptions
  | LogicalOptions string "rule_options list" bool RuleActionOptions

text \<open>\<^verbatim>\<open>IsValid\<close>: something besides \<^verbatim>\<open>invert\<close> is configured.\<close>

definition DefaultRule_IsValid :: "RawDefaultRule \<Rightarrow> RuleActionOptions \<Rightarrow> bool" where
  "DefaultRule_IsValid r action =
     (r \<noteq> default_rule_zero\<lparr>o_Invert := o_Invert r\<rparr> \<or> action \<noteq> rule_action_zero)"

fun Rule_IsValid :: "rule_options \<Rightarrow> bool" where
  "Rule_IsValid (DefaultOptions r action) = DefaultRule_IsValid r action"
| "Rule_IsValid (LogicalOptions mode rules invert action) = (rules \<noteq> [] \<and> list_all Rule_IsValid rules)"

subsection \<open>Steps of a builder\<close>

datatype item_group = GItems | GSourceAddress | GSourcePort | GDestinationAddress | GDestinationIPCIDR
  | GDestinationPort

fun append_item :: "item_group \<Rightarrow> 'x rule_item \<Rightarrow> 'x abstractDefaultRule \<Rightarrow> 'x abstractDefaultRule" where
  "append_item GItems it r =
     r\<lparr>r_items := r_items r @ [it], r_allItems := r_allItems r @ [it]\<rparr>"
| "append_item GSourceAddress it r =
     r\<lparr>r_sourceAddressItems := r_sourceAddressItems r @ [it], r_allItems := r_allItems r @ [it]\<rparr>"
| "append_item GSourcePort it r =
     r\<lparr>r_sourcePortItems := r_sourcePortItems r @ [it], r_allItems := r_allItems r @ [it]\<rparr>"
| "append_item GDestinationAddress it r =
     r\<lparr>r_destinationAddressItems := r_destinationAddressItems r @ [it], r_allItems := r_allItems r @ [it]\<rparr>"
| "append_item GDestinationIPCIDR it r =
     r\<lparr>r_destinationIPCIDRItems := r_destinationIPCIDRItems r @ [it], r_allItems := r_allItems r @ [it]\<rparr>"
| "append_item GDestinationPort it r =
     r\<lparr>r_destinationPortItems := r_destinationPortItems r @ [it], r_allItems := r_allItems r @ [it]\<rparr>"

text \<open>\<open>Add c g item\<close> appends the item to group \<open>g\<close> if the condition \<open>c\<close> holds, or
  returns its error; \<open>Fail c err\<close> returns an error if \<open>c\<close> holds.\<close>

datatype 'x step = Add bool item_group "'x rule_item result" | Fail bool error

fun run_steps :: "'x step list \<Rightarrow> 'x abstractDefaultRule \<Rightarrow> 'x abstractDefaultRule result" where
  "run_steps [] r = Inr r"
| "run_steps (Add c g item # steps) r =
     (if c then bind_result item (\<lambda>it. run_steps steps (append_item g it r)) else run_steps steps r)"
| "run_steps (Fail c err # steps) r = (if c then Inl err else run_steps steps r)"

definition rule_zero :: "bool \<Rightarrow> 'x abstractDefaultRule" where
  "rule_zero invert = \<lparr>r_items = [], r_sourceAddressItems = [], r_sourcePortItems = [],
     r_destinationAddressItems = [], r_destinationIPCIDRItems = [], r_destinationPortItems = [],
     r_allItems = [], r_ruleSetItem = None, r_invert = invert\<rparr>"

definition NewRuleSetItem :: "string list \<Rightarrow> bool \<Rightarrow> bool \<Rightarrow> RuleSetItem" where
  "NewRuleSetItem tagList ipCIDRMatchSource ipCidrAcceptEmpty =
     \<lparr>rsi_tagList = tagList, rsi_setList = [], rsi_ipCidrMatchSource = ipCIDRMatchSource,
      rsi_ipCidrAcceptEmpty = ipCidrAcceptEmpty\<rparr>"

subsection \<open>NewDefaultRule\<close>

definition default_steps_connection :: "RawDefaultRule \<Rightarrow> 'x step list" where
  "default_steps_connection options =
     [Add (o_Inbound options \<noteq> []) GItems (Inr (NewInboundRule (o_Inbound options))),
      Fail (0 < o_IPVersion options \<and> o_IPVersion options \<noteq> 4 \<and> o_IPVersion options \<noteq> 6)
        (E_New (''invalid ip version: '' @ show_int (o_IPVersion options))),
      Add (0 < o_IPVersion options) GItems (Inr (NewIPVersionItem (o_IPVersion options = 6))),
      Add (o_Network options \<noteq> []) GItems (Inr (NewNetworkItem (o_Network options))),
      Add (o_AuthUser options \<noteq> []) GItems (Inr (NewAuthUserItem (o_AuthUser options))),
      Add (o_Protocol options \<noteq> []) GItems (Inr (NewProtocolItem (o_Protocol options))),
      Add (o_Client options \<noteq> []) GItems (Inr (NewClientItem (o_Client options)))]"

definition geosite_removed :: error where
  "geosite_removed = E_New ''geosite database is deprecated in sing-box 1.8.0 and removed in sing-box 1.12.0''"

definition geoip_removed :: error where
  "geoip_removed = E_New ''geoip database is deprecated in sing-box 1.8.0 and removed in sing-box 1.12.0''"

definition default_steps_address :: "'x env \<Rightarrow> RawDefaultRule \<Rightarrow> 'x step list" where
  "default_steps_address e options =
     [Add (o_Domain options \<noteq> [] \<or> o_DomainSuffix options \<noteq> []) GDestinationAddress
        (NewDomainItem e (o_Domain options) (o_DomainSuffix options)),
      Add (o_DomainKeyword options \<noteq> []) GDestinationAddress (Inr (NewDomainKeywordItem (o_DomainKeyword options))),
      Add (o_DomainRegex options \<noteq> []) GDestinationAddress (NewDomainRegexItem e (o_DomainRegex options)),
      Fail (o_Geosite options \<noteq> []) geosite_removed,
      Fail (o_SourceGeoIP options \<noteq> []) geoip_removed,
      Fail (o_GeoIP options \<noteq> []) geoip_removed,
      Add (o_SourceIPCIDR options \<noteq> []) GSourceAddress
        (cause_result ''source_ip_cidr'' (NewIPCIDRItem e True (o_SourceIPCIDR options))),
      Add (o_SourceIPIsPrivate options) GSourceAddress (Inr (NewIPIsPrivateItem True)),
      Add (o_IPCIDR options \<noteq> []) GDestinationIPCIDR
        (cause_result ''ipcidr'' (NewIPCIDRItem e False (o_IPCIDR options))),
      Add (o_IPIsPrivate options) GDestinationIPCIDR (Inr (NewIPIsPrivateItem False))]"

definition default_steps_port :: "RawDefaultRule \<Rightarrow> 'x step list" where
  "default_steps_port options =
     [Add (o_SourcePort options \<noteq> []) GSourcePort (Inr (NewPortItem True (o_SourcePort options))),
      Add (o_SourcePortRange options \<noteq> []) GSourcePort
        (cause_result ''source_port_range'' (NewPortRangeItem True (o_SourcePortRange options))),
      Add (o_Port options \<noteq> []) GDestinationPort (Inr (NewPortItem False (o_Port options))),
      Add (o_PortRange options \<noteq> []) GDestinationPort
        (cause_result ''port_range'' (NewPortRangeItem False (o_PortRange options)))]"

definition default_steps_process :: "'x env \<Rightarrow> RawDefaultRule \<Rightarrow> 'x step list" where
  "default_steps_process e options =
     [Add (o_ProcessName options \<noteq> []) GItems (Inr (NewProcessItem (o_ProcessName options))),
      Add (o_ProcessPath options \<noteq> []) GItems (Inr (NewProcessPathItem (o_ProcessPath options))),
      Add (o_ProcessPathRegex options \<noteq> []) GItems
        (cause_result ''process_path_regex'' (NewProcessPathRegexItem e (o_ProcessPathRegex options))),
      Add (o_PackageName options \<noteq> []) GItems (Inr (NewPackageNameItem (o_PackageName options))),
      Add (o_PackageNameRegex options \<noteq> []) GItems
        (cause_result ''package_name_regex'' (NewPackageNameRegexItem e (o_PackageNameRegex options))),
      Add (o_User options \<noteq> []) GItems (Inr (NewUserItem (o_User options))),
      Add (o_UserID options \<noteq> []) GItems (Inr (NewUserIDItem (o_UserID options))),
      Add (o_ClashMode options \<noteq> []) GItems (Inr (NewClashModeItem (o_ClashMode options)))]"

definition default_steps_network :: "RawDefaultRule \<Rightarrow> 'x step list" where
  "default_steps_network options =
     [Add (o_NetworkType options \<noteq> []) GItems (Inr (NewNetworkTypeItem (o_NetworkType options))),
      Add (o_NetworkIsExpensive options) GItems (Inr NetworkIsExpensiveItem),
      Add (o_NetworkIsConstrained options) GItems (Inr NetworkIsConstrainedItem),
      Add (o_WIFISSID options \<noteq> []) GItems (Inr (NewWIFISSIDItem (o_WIFISSID options))),
      Add (o_WIFIBSSID options \<noteq> []) GItems (Inr (NewWIFIBSSIDItem (o_WIFIBSSID options))),
      Add (o_InterfaceAddress options \<noteq> []) GItems (Inr (NewInterfaceAddressItem (o_InterfaceAddress options))),
      Add (o_NetworkInterfaceAddress options \<noteq> []) GItems
        (Inr (NewNetworkInterfaceAddressItem (o_NetworkInterfaceAddress options))),
      Add (o_DefaultInterfaceAddress options \<noteq> []) GItems
        (Inr (NewDefaultInterfaceAddressItem (o_DefaultInterfaceAddress options))),
      Add (o_SourceMACAddress options \<noteq> []) GItems (Inr (NewSourceMACAddressItem (o_SourceMACAddress options))),
      Add (o_SourceHostname options \<noteq> []) GItems (Inr (NewSourceHostnameItem (o_SourceHostname options))),
      Add (o_PreferredBy options \<noteq> []) GItems (Inr (NewPreferredByItem (o_PreferredBy options))),
      Fail (o_RuleSet options \<noteq> [] \<and> o_Deprecated_RulesetIPCIDRMatchSource options)
        (E_New ''rule_set_ipcidr_match_source is deprecated in sing-box 1.10.0 and removed in sing-box 1.11.0'')]"

definition default_steps :: "'x env \<Rightarrow> RawDefaultRule \<Rightarrow> 'x step list" where
  "default_steps e options =
     default_steps_connection options @ default_steps_address e options @ default_steps_port options @
     default_steps_process e options @ default_steps_network options"

definition NewDefaultRule ::
  "'x env \<Rightarrow> action_env \<Rightarrow> RawDefaultRule \<Rightarrow> RuleActionOptions
   \<Rightarrow> ('x abstractDefaultRule \<times> rule_action option) result" where
  "NewDefaultRule e ae options actionOptions =
     bind_result (cause_result ''action'' (NewRuleAction ae actionOptions)) (\<lambda>action.
     bind_result (run_steps (default_steps e options) (rule_zero (o_Invert options))) (\<lambda>rule.
       Inr (if o_RuleSet options \<noteq> []
            then rule\<lparr>r_ruleSetItem :=
                   Some (NewRuleSetItem (o_RuleSet options) (o_RuleSetIPCIDRMatchSource options) False)\<rparr>
            else rule, action)))"

subsection \<open>Nested actions\<close>

fun ruleHasConfiguredAction :: "rule_options \<Rightarrow> bool" where
  "ruleHasConfiguredAction (DefaultOptions r action) = (action \<noteq> rule_action_zero)"
| "ruleHasConfiguredAction (LogicalOptions mode rules invert action) = (action \<noteq> rule_action_zero)"

fun validateNoNestedRuleActions :: "rule_options \<Rightarrow> bool \<Rightarrow> error option"
  and validate_sub_rules :: "nat \<Rightarrow> rule_options list \<Rightarrow> error option" where
  "validateNoNestedRuleActions (DefaultOptions r action) nested =
     (if nested \<and> ruleHasConfiguredAction (DefaultOptions r action)
      then Some (E_New ''rule action is not supported in nested rules'') else None)"
| "validateNoNestedRuleActions (LogicalOptions mode rules invert action) nested =
     (if nested \<and> ruleHasConfiguredAction (LogicalOptions mode rules invert action)
      then Some (E_New ''rule action is not supported in nested rules'')
      else validate_sub_rules 0 rules)"
| "validate_sub_rules i [] = None"
| "validate_sub_rules i (rule # rules) =
     (case validateNoNestedRuleActions rule True of
        Some err \<Rightarrow> Some (E_Cause err (''sub rule['' @ show_nat i @ '']''))
      | None \<Rightarrow> validate_sub_rules (Suc i) rules)"

subsection \<open>NewRule and NewLogicalRule\<close>

definition missing_outbound :: "RuleActionOptions \<Rightarrow> bool" where
  "missing_outbound action =
     ((rao_Action action = [] \<or> rao_Action action = ''route'') \<and>
      rao_Outbound (rao_RouteOptions action) = [])"

fun NewRule ::
  "'x env \<Rightarrow> action_env \<Rightarrow> rule_options \<Rightarrow> bool \<Rightarrow> ('x rule \<times> rule_action option) result"
  and NewSubRules :: "'x env \<Rightarrow> action_env \<Rightarrow> nat \<Rightarrow> rule_options list \<Rightarrow> 'x rule list result" where
  "NewRule e ae (DefaultOptions options actionOptions) checkOutbound =
     (if \<not> DefaultRule_IsValid options actionOptions then Inl (E_New ''missing conditions'')
      else if missing_outbound actionOptions \<and> checkOutbound then Inl (E_New ''missing outbound field'')
      else bind_result (NewDefaultRule e ae options actionOptions)
             (\<lambda>(rule, action). Inr (DefaultRule rule, action)))"
| "NewRule e ae (LogicalOptions mode rules invert actionOptions) checkOutbound =
     (if \<not> (rules \<noteq> [] \<and> list_all Rule_IsValid rules) then Inl (E_New ''missing conditions'')
      else if missing_outbound actionOptions \<and> checkOutbound then Inl (E_New ''missing outbound field'')
      else bind_result (cause_result ''action'' (NewRuleAction ae actionOptions)) (\<lambda>action.
             if mode \<noteq> ''and'' \<and> mode \<noteq> ''or'' then Inl (E_New (''unknown logical mode: '' @ mode))
             else bind_result (NewSubRules e ae 0 rules) (\<lambda>subRules.
                    Inr (LogicalRule mode subRules invert, action))))"
| "NewSubRules e ae i [] = Inr []"
| "NewSubRules e ae i (subOptions # rest) =
     (case validateNoNestedRuleActions subOptions True of
        Some err \<Rightarrow> Inl (E_Cause err (''sub rule['' @ show_nat i @ '']''))
      | None \<Rightarrow>
          bind_result (cause_result (''sub rule['' @ show_nat i @ '']'') (NewRule e ae subOptions False))
            (\<lambda>(subRule, _). bind_result (NewSubRules e ae (Suc i) rest) (\<lambda>rules. Inr (subRule # rules))))"

subsection \<open>Headless rules\<close>

record 'x DefaultHeadlessRule =
  h_QueryType :: "16 word list"
  h_Network :: "string list"
  h_Domain :: "string list"
  h_DomainSuffix :: "string list"
  h_DomainKeyword :: "string list"
  h_DomainRegex :: "string list"
  h_SourceIPCIDR :: "string list"
  h_IPCIDR :: "string list"
  h_SourcePort :: "16 word list"
  h_SourcePortRange :: "string list"
  h_Port :: "16 word list"
  h_PortRange :: "string list"
  h_ProcessName :: "string list"
  h_ProcessPath :: "string list"
  h_ProcessPathRegex :: "string list"
  h_PackageName :: "string list"
  h_PackageNameRegex :: "string list"
  h_NetworkType :: "interface_type list"
  h_NetworkIsExpensive :: bool
  h_NetworkIsConstrained :: bool
  h_WIFISSID :: "string list"
  h_WIFIBSSID :: "string list"
  h_NetworkInterfaceAddress :: "(interface_type \<times> netip_prefix list) list"
  h_DefaultInterfaceAddress :: "netip_prefix list"
  h_Invert :: bool
  h_DomainMatcher :: "'x option"
  h_SourceIPSet :: "ipset option"
  h_IPSet :: "ipset option"
  h_AdGuardDomain :: "string list"
  h_AdGuardDomainMatcher :: "'x option"

definition headless_rule_zero :: "'x DefaultHeadlessRule" where
  "headless_rule_zero = \<lparr>
     h_QueryType = [], h_Network = [], h_Domain = [], h_DomainSuffix = [], h_DomainKeyword = [],
     h_DomainRegex = [], h_SourceIPCIDR = [], h_IPCIDR = [], h_SourcePort = [], h_SourcePortRange = [],
     h_Port = [], h_PortRange = [], h_ProcessName = [], h_ProcessPath = [], h_ProcessPathRegex = [],
     h_PackageName = [], h_PackageNameRegex = [], h_NetworkType = [], h_NetworkIsExpensive = False,
     h_NetworkIsConstrained = False, h_WIFISSID = [], h_WIFIBSSID = [], h_NetworkInterfaceAddress = [],
     h_DefaultInterfaceAddress = [], h_Invert = False, h_DomainMatcher = None, h_SourceIPSet = None,
     h_IPSet = None, h_AdGuardDomain = [], h_AdGuardDomainMatcher = None\<rparr>"

datatype 'x headless_options =
    DefaultHeadless "'x DefaultHeadlessRule"
  | LogicalHeadless string "'x headless_options list" bool

definition DefaultHeadlessRule_IsValid :: "'x DefaultHeadlessRule \<Rightarrow> bool" where
  "DefaultHeadlessRule_IsValid r = (r \<noteq> headless_rule_zero\<lparr>h_Invert := h_Invert r\<rparr>)"

fun HeadlessRule_IsValid :: "'x headless_options \<Rightarrow> bool" where
  "HeadlessRule_IsValid (DefaultHeadless r) = DefaultHeadlessRule_IsValid r"
| "HeadlessRule_IsValid (LogicalHeadless mode rules invert) =
     (rules \<noteq> [] \<and> list_all HeadlessRule_IsValid rules)"

definition headless_steps_address :: "'x env \<Rightarrow> 'x DefaultHeadlessRule \<Rightarrow> 'x step list" where
  "headless_steps_address e options =
     (let hasDomain = (h_Domain options \<noteq> [] \<or> h_DomainSuffix options \<noteq> []) in
     [Add (h_QueryType options \<noteq> []) GItems (Inr (NewQueryTypeItem (h_QueryType options))),
      Add (h_Network options \<noteq> []) GItems (Inr (NewNetworkItem (h_Network options))),
      Add hasDomain GDestinationAddress (NewDomainItem e (h_Domain options) (h_DomainSuffix options)),
      Add (\<not> hasDomain \<and> h_DomainMatcher options \<noteq> None) GDestinationAddress
        (Inr (NewRawDomainItem (the (h_DomainMatcher options)))),
      Add (h_DomainKeyword options \<noteq> []) GDestinationAddress (Inr (NewDomainKeywordItem (h_DomainKeyword options))),
      Add (h_DomainRegex options \<noteq> []) GDestinationAddress
        (cause_result ''domain_regex'' (NewDomainRegexItem e (h_DomainRegex options))),
      Add (h_SourceIPCIDR options \<noteq> []) GSourceAddress
        (cause_result ''source_ip_cidr'' (NewIPCIDRItem e True (h_SourceIPCIDR options))),
      Add (h_SourceIPCIDR options = [] \<and> h_SourceIPSet options \<noteq> None) GSourceAddress
        (Inr (NewRawIPCIDRItem True (the (h_SourceIPSet options)))),
      Add (h_IPCIDR options \<noteq> []) GDestinationIPCIDR
        (cause_result ''ipcidr'' (NewIPCIDRItem e False (h_IPCIDR options))),
      Add (h_IPCIDR options = [] \<and> h_IPSet options \<noteq> None) GDestinationIPCIDR
        (Inr (NewRawIPCIDRItem False (the (h_IPSet options))))])"

definition headless_steps_port_process :: "'x env \<Rightarrow> 'x DefaultHeadlessRule \<Rightarrow> 'x step list" where
  "headless_steps_port_process e options =
     [Add (h_SourcePort options \<noteq> []) GSourcePort (Inr (NewPortItem True (h_SourcePort options))),
      Add (h_SourcePortRange options \<noteq> []) GSourcePort
        (cause_result ''source_port_range'' (NewPortRangeItem True (h_SourcePortRange options))),
      Add (h_Port options \<noteq> []) GDestinationPort (Inr (NewPortItem False (h_Port options))),
      Add (h_PortRange options \<noteq> []) GDestinationPort
        (cause_result ''port_range'' (NewPortRangeItem False (h_PortRange options))),
      Add (h_ProcessName options \<noteq> []) GItems (Inr (NewProcessItem (h_ProcessName options))),
      Add (h_ProcessPath options \<noteq> []) GItems (Inr (NewProcessPathItem (h_ProcessPath options))),
      Add (h_ProcessPathRegex options \<noteq> []) GItems
        (cause_result ''process_path_regex'' (NewProcessPathRegexItem e (h_ProcessPathRegex options))),
      Add (h_PackageName options \<noteq> []) GItems (Inr (NewPackageNameItem (h_PackageName options))),
      Add (h_PackageNameRegex options \<noteq> []) GItems
        (cause_result ''package_name_regex'' (NewPackageNameRegexItem e (h_PackageNameRegex options)))]"

text \<open>The network items need a network manager in the context.\<close>

definition headless_steps_network :: "'x env \<Rightarrow> bool \<Rightarrow> 'x DefaultHeadlessRule \<Rightarrow> 'x step list" where
  "headless_steps_network e hasNetworkManager options =
     [Add (hasNetworkManager \<and> h_NetworkType options \<noteq> []) GItems (Inr (NewNetworkTypeItem (h_NetworkType options))),
      Add (hasNetworkManager \<and> h_NetworkIsExpensive options) GItems (Inr NetworkIsExpensiveItem),
      Add (hasNetworkManager \<and> h_NetworkIsConstrained options) GItems (Inr NetworkIsConstrainedItem),
      Add (hasNetworkManager \<and> h_WIFISSID options \<noteq> []) GItems (Inr (NewWIFISSIDItem (h_WIFISSID options))),
      Add (hasNetworkManager \<and> h_WIFIBSSID options \<noteq> []) GItems (Inr (NewWIFIBSSIDItem (h_WIFIBSSID options))),
      Add (hasNetworkManager \<and> h_NetworkInterfaceAddress options \<noteq> []) GItems
        (Inr (NewNetworkInterfaceAddressItem (h_NetworkInterfaceAddress options))),
      Add (hasNetworkManager \<and> h_DefaultInterfaceAddress options \<noteq> []) GItems
        (Inr (NewDefaultInterfaceAddressItem (h_DefaultInterfaceAddress options))),
      Add (h_AdGuardDomain options \<noteq> []) GDestinationAddress (Inr (NewAdGuardDomainItem e (h_AdGuardDomain options))),
      Add (h_AdGuardDomain options = [] \<and> h_AdGuardDomainMatcher options \<noteq> None) GDestinationAddress
        (Inr (NewRawAdGuardDomainItem (the (h_AdGuardDomainMatcher options))))]"

definition headless_steps :: "'x env \<Rightarrow> bool \<Rightarrow> 'x DefaultHeadlessRule \<Rightarrow> 'x step list" where
  "headless_steps e hasNetworkManager options =
     headless_steps_address e options @ headless_steps_port_process e options @
     headless_steps_network e hasNetworkManager options"

definition NewDefaultHeadlessRule ::
  "'x env \<Rightarrow> bool \<Rightarrow> 'x DefaultHeadlessRule \<Rightarrow> 'x abstractDefaultRule result" where
  "NewDefaultHeadlessRule e hasNetworkManager options =
     run_steps (headless_steps e hasNetworkManager options) (rule_zero (h_Invert options))"

fun NewHeadlessRule :: "'x env \<Rightarrow> bool \<Rightarrow> 'x headless_options \<Rightarrow> 'x rule result"
  and NewHeadlessSubRules :: "'x env \<Rightarrow> bool \<Rightarrow> nat \<Rightarrow> 'x headless_options list \<Rightarrow> 'x rule list result" where
  "NewHeadlessRule e nm (DefaultHeadless options) =
     (if \<not> DefaultHeadlessRule_IsValid options then Inl (E_New ''missing conditions'')
      else bind_result (NewDefaultHeadlessRule e nm options) (\<lambda>r. Inr (DefaultRule r)))"
| "NewHeadlessRule e nm (LogicalHeadless mode rules invert) =
     (if \<not> (rules \<noteq> [] \<and> list_all HeadlessRule_IsValid rules) then Inl (E_New ''missing conditions'')
      else if mode \<noteq> ''and'' \<and> mode \<noteq> ''or'' then Inl (E_New (''unknown logical mode: '' @ mode))
      else bind_result (NewHeadlessSubRules e nm 0 rules) (\<lambda>subRules. Inr (LogicalRule mode subRules invert)))"
| "NewHeadlessSubRules e nm i [] = Inr []"
| "NewHeadlessSubRules e nm i (subRule # rest) =
     bind_result (cause_result (''sub rule['' @ show_nat i @ '']'') (NewHeadlessRule e nm subRule))
       (\<lambda>rule. bind_result (NewHeadlessSubRules e nm (Suc i) rest) (\<lambda>rules. Inr (rule # rules)))"

subsection \<open>What the steps build\<close>

fun group_items :: "item_group \<Rightarrow> 'x abstractDefaultRule \<Rightarrow> 'x rule_item list" where
  "group_items GItems r = r_items r"
| "group_items GSourceAddress r = r_sourceAddressItems r"
| "group_items GSourcePort r = r_sourcePortItems r"
| "group_items GDestinationAddress r = r_destinationAddressItems r"
| "group_items GDestinationIPCIDR r = r_destinationIPCIDRItems r"
| "group_items GDestinationPort r = r_destinationPortItems r"

fun picked :: "item_group \<Rightarrow> 'x step list \<Rightarrow> 'x rule_item list" where
  "picked g [] = []"
| "picked g (Add c g' (Inr it) # steps) = (if c \<and> g = g' then [it] else []) @ picked g steps"
| "picked g (_ # steps) = picked g steps"

fun step_ok :: "'x step \<Rightarrow> bool" where
  "step_ok (Add c g (Inr it)) = True"
| "step_ok (Add c g (Inl err)) = (\<not> c)"
| "step_ok (Fail c err) = (\<not> c)"

lemma append_item_group [simp]:
  "group_items g (append_item g' it r) = group_items g r @ (if g = g' then [it] else [])"
  by (cases g; cases g') simp_all

lemma append_item_other [simp]:
  "r_ruleSetItem (append_item g it r) = r_ruleSetItem r"
  "r_invert (append_item g it r) = r_invert r"
  "r_allItems (append_item g it r) = r_allItems r @ [it]"
  by (cases g; simp)+

lemma wf_lists_iff: "wf_lists r \<longleftrightarrow> set (r_allItems r) = (\<Union>g. set (group_items g r))"
proof -
  have "(\<Union>g. set (group_items g r)) =
    set (r_items r @ r_sourceAddressItems r @ r_sourcePortItems r @ r_destinationAddressItems r @
            r_destinationIPCIDRItems r @ r_destinationPortItems r)"
  proof (intro equalityI subsetI)
    fix it assume "it \<in> (\<Union>g. set (group_items g r))"
    then obtain g where "it \<in> set (group_items g r)" by blast
    then show "it \<in> set (r_items r @ r_sourceAddressItems r @ r_sourcePortItems r @
        r_destinationAddressItems r @ r_destinationIPCIDRItems r @ r_destinationPortItems r)"
      by (cases g) simp_all
  next
    fix it assume "it \<in> set (r_items r @ r_sourceAddressItems r @ r_sourcePortItems r @
        r_destinationAddressItems r @ r_destinationIPCIDRItems r @ r_destinationPortItems r)"
    then show "it \<in> (\<Union>g. set (group_items g r))"
      unfolding set_append group_items.simps [symmetric] by blast
  qed
  then show ?thesis by (simp add: wf_lists_def)
qed

lemma wf_lists_append: "wf_lists r \<Longrightarrow> wf_lists (append_item g it r)"
  by (auto simp: wf_lists_iff split: if_splits)

lemma run_steps_Inr:
  "run_steps steps r = Inr r' \<Longrightarrow>
     (\<forall>g. group_items g r' = group_items g r @ picked g steps) \<and>
     r_ruleSetItem r' = r_ruleSetItem r \<and> r_invert r' = r_invert r \<and>
     (wf_lists r \<longrightarrow> wf_lists r') \<and> (\<forall>s \<in> set steps. step_ok s)"
proof (induction steps r rule: run_steps.induct)
  case (2 c g item steps r)
  show ?case
  proof (cases c)
    case True
    with 2 obtain it where "item = Inr it" by auto
    with True 2 show ?thesis by (auto simp: wf_lists_append)
  next
    case False
    with 2 show ?thesis by (cases item) auto
  qed
qed (auto split: if_splits)

lemma run_steps_ok:
  "(\<forall>s \<in> set steps. step_ok s) \<Longrightarrow> \<exists>r'. run_steps steps r = Inr r'"
proof (induction steps r rule: run_steps.induct)
  case (2 c g item steps r)
  then show ?case by (cases item) auto
qed auto

lemma rule_zero_sel [simp]:
  "group_items g (rule_zero b) = []" "wf_lists (rule_zero b)" "r_invert (rule_zero b) = b"
  "r_ruleSetItem (rule_zero b) = None"
  by (cases g; simp add: rule_zero_def) (simp_all add: rule_zero_def wf_lists_def)

lemmas group_items_fold = group_items.simps [symmetric]

lemma picked_append [simp]: "picked g (s @ t) = picked g s @ picked g t"
  by (induction g s rule: picked.induct) simp_all

text \<open>Where a destination CIDR item may be.\<close>

fun step_cidr :: "'x step \<Rightarrow> bool" where
  "step_cidr (Add c g (Inr it)) = (is_ip_cidr it \<longleftrightarrow> g = GDestinationIPCIDR)"
| "step_cidr _ = True"

lemma picked_cidr:
  "list_all step_cidr steps \<Longrightarrow> it \<in> set (picked g steps) \<Longrightarrow> is_ip_cidr it \<longleftrightarrow> g = GDestinationIPCIDR"
  by (induction g steps rule: picked.induct) (auto split: if_splits)

lemma item_result_cidr:
  "NewDomainItem e ds ss = Inr it \<Longrightarrow> \<not> is_ip_cidr it"
  "NewDomainRegexItem e ss = Inr it \<Longrightarrow> \<not> is_ip_cidr it"
  "NewIPCIDRItem e b ss = Inr it \<Longrightarrow> is_ip_cidr it \<longleftrightarrow> \<not> b"
  "NewPortRangeItem b ss = Inr it \<Longrightarrow> \<not> is_ip_cidr it"
  "NewProcessPathRegexItem e ss = Inr it \<Longrightarrow> \<not> is_ip_cidr it"
  "NewPackageNameRegexItem e ss = Inr it \<Longrightarrow> \<not> is_ip_cidr it"
  by (auto simp: NewDomainItem_def NewDomainRegexItem_def NewIPCIDRItem_def NewPortRangeItem_def
      NewProcessPathRegexItem_def NewPackageNameRegexItem_def Let_def split: if_splits)

lemma step_cidr_Inl_or: "(\<And>it. res = Inr it \<Longrightarrow> is_ip_cidr it \<longleftrightarrow> g = GDestinationIPCIDR) \<Longrightarrow> step_cidr (Add c g res)"
  by (cases res) simp_all

lemma headless_steps_cidr: "list_all step_cidr (headless_steps e nm options)"
proof -
  note new_defs = NewQueryTypeItem_def NewNetworkItem_def NewRawDomainItem_def NewDomainKeywordItem_def
    NewRawIPCIDRItem_def NewPortItem_def NewProcessItem_def NewProcessPathItem_def NewPackageNameItem_def
    NewNetworkTypeItem_def NewWIFISSIDItem_def NewWIFIBSSIDItem_def NewNetworkInterfaceAddressItem_def
    NewDefaultInterfaceAddressItem_def NewAdGuardDomainItem_def NewRawAdGuardDomainItem_def
  have 1: "list_all step_cidr (headless_steps_address e options)"
    unfolding headless_steps_address_def Let_def list.pred_inject
    by (intro conjI step_cidr_Inl_or TrueI) (auto simp: item_result_cidr new_defs)
  have 2: "list_all step_cidr (headless_steps_port_process e options)"
    unfolding headless_steps_port_process_def list.pred_inject
    by (intro conjI step_cidr_Inl_or TrueI) (auto simp: item_result_cidr new_defs)
  have 3: "list_all step_cidr (headless_steps_network e nm options)"
    unfolding headless_steps_network_def list.pred_inject
    by (intro conjI step_cidr_Inl_or TrueI) (auto simp: item_result_cidr new_defs)
  from 1 2 3 show ?thesis by (simp add: headless_steps_def)
qed

lemma NewDefaultHeadlessRule_wf:
  assumes "NewDefaultHeadlessRule e nm options = Inr r"
  shows "wf_lists r" and "wf_branch r" and "r_ruleSetItem r = None" and "r_invert r = h_Invert options"
proof -
  from run_steps_Inr [OF assms [unfolded NewDefaultHeadlessRule_def]]
  have g: "\<And>g. group_items g r = picked g (headless_steps e nm options)"
    and rest: "wf_lists r" "r_ruleSetItem r = None" "r_invert r = h_Invert options"
    by simp_all
  have cidr: "it \<in> set (group_items g r) \<Longrightarrow> is_ip_cidr it \<longleftrightarrow> g = GDestinationIPCIDR" for g it
    using picked_cidr [OF headless_steps_cidr] by (metis g)
  have no: "g \<noteq> GDestinationIPCIDR \<Longrightarrow> it \<in> set (group_items g r) \<Longrightarrow> \<not> is_ip_cidr it" for g it
    using cidr by blast
  show "wf_branch r"
    unfolding wf_branch_def
  proof (intro conjI ballI)
    fix it assume "it \<in> set (r_destinationIPCIDRItems r)"
    then show "is_ip_cidr it" using cidr [of it GDestinationIPCIDR] by simp
  next
    fix it assume "it \<in> set (r_items r @ r_sourceAddressItems r @ r_sourcePortItems r @
        r_destinationAddressItems r @ r_destinationPortItems r)"
    then show "\<not> is_ip_cidr it"
      using no [of GItems it] no [of GSourceAddress it] no [of GSourcePort it]
        no [of GDestinationAddress it] no [of GDestinationPort it]
      by auto
  qed
  show "wf_lists r" "r_ruleSetItem r = None" "r_invert r = h_Invert options" by (rule rest)+
qed

subsection \<open>The documented meaning of a route rule\<close>

text \<open>
  \<open>documented_match\<close> is the matching logic of \<^verbatim>\<open>docs/configuration/route/rule.md\<close> on the
  options themselves: a disjunction inside each of the four address and port groups, and a
  conjunction of the groups and all other fields; a field that is not configured asks for
  nothing. \<open>asks c P\<close> is \<open>P\<close> if the field is configured.
\<close>

definition asks :: "bool \<Rightarrow> bool \<Rightarrow> bool" where
  "asks configured P = (configured \<longrightarrow> P)"

definition in_ranges :: "string list \<Rightarrow> 16 word \<Rightarrow> bool" where
  "in_ranges ranges port =
     (\<exists>s \<in> set ranges. \<exists>a b. parse_port_range s = Inr (a, b) \<and> a \<le> port \<and> port \<le> b)"

definition cidr_match :: "'x env \<Rightarrow> bool \<Rightarrow> string list \<Rightarrow> inbound_context \<Rightarrow> bool" where
  "cidr_match e isSource prefixes c =
     (\<exists>entries ipSet. cidr_entries 0 prefixes = Inr entries \<and> x_IPSetBuild e entries = Inr ipSet \<and>
        IPCIDRItem_Match e ipSet isSource c)"

definition documented_destination :: "'x env \<Rightarrow> RawDefaultRule \<Rightarrow> inbound_context \<Rightarrow> bool" where
  "documented_destination e o' c =
     (let host = domainHost c; name = ToLower e host in
      asks (o_Domain o' \<noteq> [] \<or> o_DomainSuffix o' \<noteq> [] \<or> o_DomainKeyword o' \<noteq> [] \<or> o_DomainRegex o' \<noteq> [] \<or>
            o_IPCIDR o' \<noteq> [] \<or> o_IPIsPrivate o')
        ((o_Domain o' \<noteq> [] \<or> o_DomainSuffix o' \<noteq> []) \<and> host \<noteq> [] \<and>
           x_MatcherMatch e (x_NewMatcher e (o_Domain o') (o_DomainSuffix o') False) name \<or>
         host \<noteq> [] \<and> (\<exists>k \<in> set (o_DomainKeyword o'). str_contains name k) \<or>
         host \<noteq> [] \<and> (\<exists>p \<in> set (o_DomainRegex o'). x_MatchString e p name) \<or>
         o_IPCIDR o' \<noteq> [] \<and> cidr_match e False (o_IPCIDR o') c \<or>
         o_IPIsPrivate o' \<and> IPIsPrivateItem_Match e False c))"

definition documented_source :: "'x env \<Rightarrow> RawDefaultRule \<Rightarrow> inbound_context \<Rightarrow> bool" where
  "documented_source e o' c =
     asks (o_SourceIPCIDR o' \<noteq> [] \<or> o_SourceIPIsPrivate o')
       (o_SourceIPCIDR o' \<noteq> [] \<and> cidr_match e True (o_SourceIPCIDR o') c \<or>
        o_SourceIPIsPrivate o' \<and> \<not> x_IsPublicAddr e (sa_Addr (mc_Source c)))"

definition documented_ports :: "RawDefaultRule \<Rightarrow> inbound_context \<Rightarrow> bool" where
  "documented_ports o' c =
     (asks (o_Port o' \<noteq> [] \<or> o_PortRange o' \<noteq> [])
        (sa_Port (mc_Destination c) \<in> set (o_Port o') \<or> in_ranges (o_PortRange o') (sa_Port (mc_Destination c))) \<and>
      asks (o_SourcePort o' \<noteq> [] \<or> o_SourcePortRange o' \<noteq> [])
        (sa_Port (mc_Source c) \<in> set (o_SourcePort o') \<or> in_ranges (o_SourcePortRange o') (sa_Port (mc_Source c))))"

definition documented_connection :: "'x env \<Rightarrow> RawDefaultRule \<Rightarrow> inbound_context \<Rightarrow> bool" where
  "documented_connection e o' c =
     (asks (o_Inbound o' \<noteq> []) (mc_Inbound c \<in> set (o_Inbound o')) \<and>
      asks (0 < o_IPVersion o') (IPVersionItem_Match e (o_IPVersion o' = 6) c) \<and>
      asks (o_Network o' \<noteq> []) (mc_Network c \<in> set (o_Network o')) \<and>
      asks (o_AuthUser o' \<noteq> []) (mc_User c \<in> set (o_AuthUser o')) \<and>
      asks (o_Protocol o' \<noteq> []) (mc_Protocol c \<in> set (o_Protocol o')) \<and>
      asks (o_Client o' \<noteq> []) (mc_Client c \<in> set (o_Client o')))"

definition documented_process :: "'x env \<Rightarrow> RawDefaultRule \<Rightarrow> inbound_context \<Rightarrow> bool" where
  "documented_process e o' c =
     (let process = (\<lambda>P. case mc_ProcessInfo c of None \<Rightarrow> False | Some info \<Rightarrow> P info) in
      asks (o_ProcessName o' \<noteq> [])
        (process (\<lambda>i. co_ProcessPath i \<noteq> [] \<and> Base (co_ProcessPath i) \<in> set (o_ProcessName o'))) \<and>
      asks (o_ProcessPath o' \<noteq> [])
        (process (\<lambda>i. co_ProcessPath i \<noteq> [] \<and> co_ProcessPath i \<in> set (o_ProcessPath o') \<or>
           w_IsAndroid e \<and> (\<exists>p \<in> set (co_AndroidPackageNames i). p \<in> set (o_ProcessPath o')))) \<and>
      asks (o_ProcessPathRegex o' \<noteq> [])
        (process (\<lambda>i. co_ProcessPath i \<noteq> [] \<and>
           (\<exists>p \<in> set (o_ProcessPathRegex o'). x_MatchString e p (co_ProcessPath i)))) \<and>
      asks (o_PackageName o' \<noteq> [])
        (process (\<lambda>i. \<exists>p \<in> set (co_AndroidPackageNames i). p \<in> set (o_PackageName o'))) \<and>
      asks (o_PackageNameRegex o' \<noteq> [])
        (process (\<lambda>i. \<exists>p \<in> set (o_PackageNameRegex o'). \<exists>n \<in> set (co_AndroidPackageNames i). x_MatchString e p n)) \<and>
      asks (o_User o' \<noteq> []) (process (\<lambda>i. co_UserName i \<noteq> [] \<and> co_UserName i \<in> set (o_User o'))) \<and>
      asks (o_UserID o' \<noteq> []) (process (\<lambda>i. co_UserId i \<noteq> -1 \<and> co_UserId i \<in> set (o_UserID o'))) \<and>
      asks (o_ClashMode o' \<noteq> [])
        (case w_ClashMode e of None \<Rightarrow> False | Some mode \<Rightarrow> EqualFold e mode (o_ClashMode o')))"

definition documented_network :: "'x env \<Rightarrow> RawDefaultRule \<Rightarrow> inbound_context \<Rightarrow> bool" where
  "documented_network e o' c =
     (let interface = (\<lambda>P. case w_DefaultNetworkInterface e of None \<Rightarrow> False | Some ni \<Rightarrow> P ni) in
      asks (o_NetworkType o' \<noteq> []) (interface (\<lambda>ni. ni_Type ni \<in> set (o_NetworkType o'))) \<and>
      asks (o_NetworkIsExpensive o') (interface ni_Expensive) \<and>
      asks (o_NetworkIsConstrained o') (interface ni_Constrained) \<and>
      asks (o_WIFISSID o' \<noteq> []) (w_WIFI_SSID e \<in> set (o_WIFISSID o')) \<and>
      asks (o_WIFIBSSID o' \<noteq> []) (w_WIFI_BSSID e \<in> set (map NormalizeWIFIBSSID (o_WIFIBSSID o'))) \<and>
      asks (o_InterfaceAddress o' \<noteq> []) (InterfaceAddressItem_Match e (o_InterfaceAddress o')) \<and>
      asks (o_NetworkInterfaceAddress o' \<noteq> []) (NetworkInterfaceAddressItem_Match e (o_NetworkInterfaceAddress o')) \<and>
      asks (o_DefaultInterfaceAddress o' \<noteq> []) (DefaultInterfaceAddressItem_Match e (o_DefaultInterfaceAddress o')) \<and>
      asks (o_SourceMACAddress o' \<noteq> [])
        (case mc_SourceMACAddress c of None \<Rightarrow> False | Some hw \<Rightarrow> mac_String hw \<in> set (map mac_key (o_SourceMACAddress o'))) \<and>
      asks (o_SourceHostname o' \<noteq> [])
        (mc_SourceHostname c \<noteq> [] \<and> mc_SourceHostname c \<in> set (o_SourceHostname o')))"

definition documented_match :: "'x env \<Rightarrow> RawDefaultRule \<Rightarrow> inbound_context \<Rightarrow> bool" where
  "documented_match e o' c =
     (documented_destination e o' c \<and> documented_ports o' c \<and> documented_source e o' c \<and>
      documented_connection e o' c \<and> documented_process e o' c \<and> documented_network e o' c)"

text \<open>Quantifiers over the items picked from the steps.\<close>

fun step_all :: "item_group \<Rightarrow> ('x rule_item \<Rightarrow> bool) \<Rightarrow> 'x step \<Rightarrow> bool" where
  "step_all g P (Add c g' res) = (c \<and> g = g' \<longrightarrow> (case res of Inr it \<Rightarrow> P it | Inl _ \<Rightarrow> True))"
| "step_all g P (Fail c err) = True"

fun step_ex :: "item_group \<Rightarrow> ('x rule_item \<Rightarrow> bool) \<Rightarrow> 'x step \<Rightarrow> bool" where
  "step_ex g P (Add c g' res) = (c \<and> g = g' \<and> (case res of Inr it \<Rightarrow> P it | Inl _ \<Rightarrow> False))"
| "step_ex g P (Fail c err) = False"

lemma all_picked: "(\<forall>it \<in> set (picked g steps). P it) \<longleftrightarrow> list_all (step_all g P) steps"
  by (induction g steps rule: picked.induct) auto

lemma ex_picked: "(\<exists>it \<in> set (picked g steps). P it) \<longleftrightarrow> list_ex (step_ex g P) steps"
  by (induction g steps rule: picked.induct) auto

lemma picked_Nil: "picked g steps = [] \<longleftrightarrow> \<not> list_ex (step_ex g (\<lambda>_. True)) steps"
  by (induction g steps rule: picked.induct) auto

lemma any_or_none_picked:
  "any_or_none e (picked g steps) c \<longleftrightarrow>
     asks (list_ex (step_ex g (\<lambda>_. True)) steps) (list_ex (step_ex g (\<lambda>it. item_Match e it c)) steps)"
  by (auto simp: any_or_none_def ex_picked picked_Nil asks_def)

lemma step_ok_Add: "step_ok (Add c g res) \<longleftrightarrow> (c \<longrightarrow> (\<exists>it. res = Inr it))"
  by (cases res) simp_all

lemma compile_all_Inr: "compile_all e i expressions = Inr ms \<Longrightarrow> ms = expressions"
  by (induction expressions arbitrary: i ms) (auto split: option.splits)

lemma compile_all_ok:
  "(expressions \<noteq> [] \<longrightarrow> (\<exists>ms. compile_all e 0 expressions = Inr ms)) \<Longrightarrow>
     compile_all e 0 expressions = Inr expressions"
  by (cases "expressions = []") (auto dest: compile_all_Inr simp del: compile_all.simps(2))

lemma parse_ranges_ex:
  "map_result parse_port_range ranges = Inr rs \<Longrightarrow>
     list_ex (\<lambda>(start, end_port). start \<le> port \<and> port \<le> end_port) rs \<longleftrightarrow> in_ranges ranges port"
proof (induction ranges arbitrary: rs)
  case (Cons s ranges)
  then show ?case by (auto simp: in_ranges_def)
qed (simp add: in_ranges_def)

lemma connection_items:
  "list_all (step_all GItems (\<lambda>it. item_Match e it c)) (default_steps_connection o') \<longleftrightarrow>
     documented_connection e o' c"
  by (simp add: default_steps_connection_def documented_connection_def asks_def NewInboundRule_def
      NewIPVersionItem_def NewNetworkItem_def NewAuthUserItem_def NewProtocolItem_def NewClientItem_def
      InboundItem_Match_def NetworkItem_Match_def AuthUserItem_Match_def ProtocolItem_Match_def
      ClientItem_Match_def)

lemma process_items:
  assumes "list_all step_ok (default_steps_process e o')"
  shows "list_all (step_all GItems (\<lambda>it. item_Match e it c)) (default_steps_process e o') \<longleftrightarrow>
     documented_process e o' c"
proof -
  have rx: "compile_all e 0 (o_ProcessPathRegex o') = Inr (o_ProcessPathRegex o')"
    "compile_all e 0 (o_PackageNameRegex o') = Inr (o_PackageNameRegex o')"
    using assms
    by (auto intro!: compile_all_ok simp: default_steps_process_def step_ok_Add
        NewProcessPathRegexItem_def NewPackageNameRegexItem_def simp del: step_ok.simps)
  have names: "xs \<noteq> [] \<and> (\<exists>p \<in> A. \<exists>n \<in> set xs. P p n) \<longleftrightarrow> (\<exists>p \<in> A. \<exists>n \<in> set xs. P p n)"
    for xs :: "string list" and A :: "string set" and P
    by auto
  show ?thesis
    unfolding default_steps_process_def documented_process_def asks_def Let_def
      NewProcessItem_def NewProcessPathItem_def NewProcessPathRegexItem_def NewPackageNameItem_def
      NewPackageNameRegexItem_def NewUserItem_def NewUserIDItem_def NewClashModeItem_def rx
    by (cases "mc_ProcessInfo c")
      (simp_all add: list_ex_iff names
      ProcessItem_Match_def ProcessPathItem_Match_def ProcessPathRegexItem_Match_def
      PackageNameItem_Match_def PackageNameRegexItem_Match_def UserItem_Match_def UserIdItem_Match_def
      ClashModeItem_Match_def)
qed

lemma network_items:
  assumes "o_PreferredBy o' = []"
  shows "list_all (step_all GItems (\<lambda>it. item_Match e it c)) (default_steps_network o') \<longleftrightarrow>
     documented_network e o' c"
  using assms
  by (simp add: default_steps_network_def documented_network_def asks_def Let_def
      NewNetworkTypeItem_def NewWIFISSIDItem_def NewWIFIBSSIDItem_def NewInterfaceAddressItem_def
      NewNetworkInterfaceAddressItem_def NewDefaultInterfaceAddressItem_def NewSourceMACAddressItem_def
      NewSourceHostnameItem_def NetworkTypeItem_Match_def NetworkIsExpensiveItem_Match_def
      NetworkIsConstrainedItem_Match_def WIFISSIDItem_Match_def WIFIBSSIDItem_Match_def
      SourceMACAddressItem_Match_def SourceHostnameItem_Match_def cong: option.case_cong)

lemma ports_groups:
  assumes "list_all step_ok (default_steps_port o')"
  shows "any_or_none e (picked GSourcePort (default_steps_port o')) c \<and>
     any_or_none e (picked GDestinationPort (default_steps_port o')) c \<longleftrightarrow> documented_ports o' c"
proof -
  obtain rs where rs: "map_result parse_port_range (o_SourcePortRange o') = Inr rs"
    using assms
    by (cases "map_result parse_port_range (o_SourcePortRange o')")
      (auto simp: default_steps_port_def NewPortRangeItem_def)
  obtain rd where rd: "map_result parse_port_range (o_PortRange o') = Inr rd"
    using assms
    by (cases "map_result parse_port_range (o_PortRange o')")
      (auto simp: default_steps_port_def NewPortRangeItem_def)
  have empty: "\<not> in_ranges [] p" for p by (simp add: in_ranges_def)
  show ?thesis
    unfolding any_or_none_picked
    by (auto simp: default_steps_port_def documented_ports_def asks_def NewPortItem_def NewPortRangeItem_def
        rs rd PortItem_Match_def PortRangeItem_Match_def parse_ranges_ex [OF rs] parse_ranges_ex [OF rd] empty)
qed

lemma NewIPCIDRItem_Match:
  "NewIPCIDRItem e isSource prefixes = Inr it \<Longrightarrow> item_Match e it c \<longleftrightarrow> cidr_match e isSource prefixes c"
  by (auto simp: NewIPCIDRItem_def cidr_match_def)

lemma NewDomainItem_Match:
  "NewDomainItem e ds ss = Inr it \<Longrightarrow>
     item_Match e it c \<longleftrightarrow> domainHost c \<noteq> [] \<and> x_MatcherMatch e (x_NewMatcher e ds ss False) (ToLower e (domainHost c))"
  by (auto simp: NewDomainItem_def Let_def DomainItem_Match_def split: if_splits)

text \<open>The address groups of a route rule.\<close>

lemma source_group:
  assumes "list_all step_ok (default_steps_address e o')"
  shows "any_or_none e (picked GSourceAddress (default_steps_address e o')) c \<longleftrightarrow> documented_source e o' c"
proof -
  have ok: "o_SourceIPCIDR o' \<noteq> [] \<longrightarrow> (\<exists>it. NewIPCIDRItem e True (o_SourceIPCIDR o') = Inr it)"
    using assms by (auto simp: default_steps_address_def step_ok_Add simp del: step_ok.simps)
  show ?thesis
  proof (cases "NewIPCIDRItem e True (o_SourceIPCIDR o')")
    case (Inl err)
    with ok have "o_SourceIPCIDR o' = []" by auto
    then show ?thesis
      unfolding any_or_none_picked
      by (simp add: default_steps_address_def documented_source_def asks_def NewIPIsPrivateItem_def
          IPIsPrivateItem_Match_def)
  next
    case (Inr it)
    then show ?thesis
      unfolding any_or_none_picked
      by (auto simp: default_steps_address_def documented_source_def asks_def NewIPIsPrivateItem_def
          IPIsPrivateItem_Match_def NewIPCIDRItem_Match [OF Inr])
  qed
qed

lemma destination_group:
  assumes "list_all step_ok (default_steps_address e o')"
  shows "any_or_none e (picked GDestinationAddress (default_steps_address e o') @
           picked GDestinationIPCIDR (default_steps_address e o')) c \<longleftrightarrow> documented_destination e o' c"
proof -
  let ?s = "default_steps_address e o'"
  have ok: "o_Domain o' \<noteq> [] \<or> o_DomainSuffix o' \<noteq> [] \<longrightarrow> (\<exists>it. NewDomainItem e (o_Domain o') (o_DomainSuffix o') = Inr it)"
    "o_IPCIDR o' \<noteq> [] \<longrightarrow> (\<exists>it. NewIPCIDRItem e False (o_IPCIDR o') = Inr it)"
    "compile_all e 0 (o_DomainRegex o') = Inr (o_DomainRegex o')"
    using assms
    by (auto simp: default_steps_address_def step_ok_Add NewDomainRegexItem_def simp del: step_ok.simps
        intro!: compile_all_ok)
  have app: "any_or_none e (xs @ ys) c \<longleftrightarrow>
      asks (xs \<noteq> [] \<or> ys \<noteq> []) ((\<exists>it \<in> set xs. item_Match e it c) \<or> (\<exists>it \<in> set ys. item_Match e it c))" for xs ys
    by (auto simp: any_or_none_def asks_def)
  have regex: "NewDomainRegexItem e (o_DomainRegex o') =
      Inr (DomainRegexItem (o_DomainRegex o') (describe_three ''domain_regex='' [] (o_DomainRegex o')))"
    by (simp add: NewDomainRegexItem_def ok(3))
  have domain: "(o_Domain o' \<noteq> [] \<or> o_DomainSuffix o' \<noteq> []) \<and>
      (case NewDomainItem e (o_Domain o') (o_DomainSuffix o') of Inr it \<Rightarrow> P it | Inl _ \<Rightarrow> False) \<longleftrightarrow>
      (o_Domain o' \<noteq> [] \<or> o_DomainSuffix o' \<noteq> []) \<and> Q"
    if "\<And>it. NewDomainItem e (o_Domain o') (o_DomainSuffix o') = Inr it \<Longrightarrow> P it = Q" for P Q
    using ok(1) that by (cases "NewDomainItem e (o_Domain o') (o_DomainSuffix o')") auto
  have cidr: "o_IPCIDR o' \<noteq> [] \<and>
      (case cause_result ''ipcidr'' (NewIPCIDRItem e False (o_IPCIDR o')) of Inr it \<Rightarrow> P it | Inl _ \<Rightarrow> False) \<longleftrightarrow>
      o_IPCIDR o' \<noteq> [] \<and> Q"
    if "\<And>it. NewIPCIDRItem e False (o_IPCIDR o') = Inr it \<Longrightarrow> P it = Q" for P Q
    using ok(2) that by (cases "NewIPCIDRItem e False (o_IPCIDR o')") auto
  have ex: "list_ex (step_ex GDestinationAddress P) ?s \<longleftrightarrow>
      (o_Domain o' \<noteq> [] \<or> o_DomainSuffix o' \<noteq> []) \<and> Q \<or>
      o_DomainKeyword o' \<noteq> [] \<and> P (DomainKeywordItem (o_DomainKeyword o')) \<or>
      o_DomainRegex o' \<noteq> [] \<and>
        P (DomainRegexItem (o_DomainRegex o') (describe_three ''domain_regex='' [] (o_DomainRegex o')))"
    if "\<And>it. NewDomainItem e (o_Domain o') (o_DomainSuffix o') = Inr it \<Longrightarrow> P it = Q" for P Q
    using domain [OF that] by (simp add: default_steps_address_def regex NewDomainKeywordItem_def)
  have ex': "list_ex (step_ex GDestinationIPCIDR P) ?s \<longleftrightarrow>
      o_IPCIDR o' \<noteq> [] \<and> Q \<or> o_IPIsPrivate o' \<and> P (IPIsPrivateItem False)"
    if "\<And>it. NewIPCIDRItem e False (o_IPCIDR o') = Inr it \<Longrightarrow> P it = Q" for P Q
    using cidr [OF that] by (simp add: default_steps_address_def NewIPIsPrivateItem_def)
  have any: "xs \<noteq> [] \<and> h \<and> (\<exists>x \<in> set xs. P x) \<longleftrightarrow> h \<and> (\<exists>x \<in> set xs. P x)" for h and xs :: "string list" and P
    by auto
  have n: "list_ex (step_ex GDestinationAddress (\<lambda>_. True)) ?s \<longleftrightarrow>
      o_Domain o' \<noteq> [] \<or> o_DomainSuffix o' \<noteq> [] \<or> o_DomainKeyword o' \<noteq> [] \<or> o_DomainRegex o' \<noteq> []"
    "list_ex (step_ex GDestinationIPCIDR (\<lambda>_. True)) ?s \<longleftrightarrow> o_IPCIDR o' \<noteq> [] \<or> o_IPIsPrivate o'"
    using ex [of "\<lambda>_. True" True] ex' [of "\<lambda>_. True" True] by (simp_all only: simp_thms disj_assoc)
  have m1: "list_ex (step_ex GDestinationAddress (\<lambda>it. item_Match e it c)) ?s \<longleftrightarrow>
      (o_Domain o' \<noteq> [] \<or> o_DomainSuffix o' \<noteq> []) \<and> (domainHost c \<noteq> [] \<and>
         x_MatcherMatch e (x_NewMatcher e (o_Domain o') (o_DomainSuffix o') False) (ToLower e (domainHost c))) \<or>
      o_DomainKeyword o' \<noteq> [] \<and> item_Match e (DomainKeywordItem (o_DomainKeyword o')) c \<or>
      o_DomainRegex o' \<noteq> [] \<and>
        item_Match e (DomainRegexItem (o_DomainRegex o') (describe_three ''domain_regex='' [] (o_DomainRegex o'))) c"
    by (rule ex) (rule NewDomainItem_Match)
  have m2: "list_ex (step_ex GDestinationIPCIDR (\<lambda>it. item_Match e it c)) ?s \<longleftrightarrow>
      o_IPCIDR o' \<noteq> [] \<and> cidr_match e False (o_IPCIDR o') c \<or>
      o_IPIsPrivate o' \<and> item_Match e (IPIsPrivateItem False) c"
    by (rule ex') (rule NewIPCIDRItem_Match)
  show ?thesis
    unfolding app ex_picked picked_Nil not_not n m1 m2 documented_destination_def Let_def
    by (simp only: item_Match.simps DomainKeywordItem_Match_def DomainRegexItem_Match_def list_ex_iff
        any simp_thms disj_assoc)
qed

subsection \<open>Rules\<close>

lemma NewDefaultRule_wf:
  assumes "NewDefaultRule e ae options act = Inr (r, action)"
  shows "wf_lists r" and "r_invert r = o_Invert options"
    and "r_ruleSetItem r = (if o_RuleSet options = [] then None else
           Some (NewRuleSetItem (o_RuleSet options) (o_RuleSetIPCIDRMatchSource options) False))"
    and "group_items g r = picked g (default_steps e options)"
    and "list_all step_ok (default_steps e options)"
proof -
  from assms obtain r' where run: "run_steps (default_steps e options) (rule_zero (o_Invert options)) = Inr r'"
    and r: "r = (if o_RuleSet options \<noteq> []
            then r'\<lparr>r_ruleSetItem :=
                   Some (NewRuleSetItem (o_RuleSet options) (o_RuleSetIPCIDRMatchSource options) False)\<rparr>
            else r')"
    by (auto simp: NewDefaultRule_def)
  from run_steps_Inr [OF run]
  have *: "\<And>g. group_items g r' = picked g (default_steps e options)" "r_ruleSetItem r' = None"
    "r_invert r' = o_Invert options" "wf_lists r'" "list_all step_ok (default_steps e options)"
    by (simp_all add: list_all_iff)
  have set_item: "group_items g (r'\<lparr>r_ruleSetItem := i\<rparr>) = group_items g r'" for i by (cases g) simp_all
  show "group_items g r = picked g (default_steps e options)" by (simp add: r set_item *)
  show "wf_lists r" "r_invert r = o_Invert options"
    "r_ruleSetItem r = (if o_RuleSet options = [] then None else
           Some (NewRuleSetItem (o_RuleSet options) (o_RuleSetIPCIDRMatchSource options) False))"
    using * by (simp_all add: r wf_lists_def)
  show "list_all step_ok (default_steps e options)" by (rule *)
qed

lemma picked_default:
  "picked GItems (default_steps e o') =
     picked GItems (default_steps_connection o') @ picked GItems (default_steps_process e o') @
     picked GItems (default_steps_network o')"
  "picked GSourceAddress (default_steps e o') = picked GSourceAddress (default_steps_address e o')"
  "picked GSourcePort (default_steps e o') = picked GSourcePort (default_steps_port o')"
  "picked GDestinationAddress (default_steps e o') = picked GDestinationAddress (default_steps_address e o')"
  "picked GDestinationIPCIDR (default_steps e o') = picked GDestinationIPCIDR (default_steps_address e o')"
  "picked GDestinationPort (default_steps e o') = picked GDestinationPort (default_steps_port o')"
proof -
  have none: "picked g (default_steps_connection o') = []" "picked g (default_steps_process e o') = []"
    "picked g (default_steps_network o') = []" if "g \<noteq> GItems" for g
    using that
    by (simp_all add: picked_Nil default_steps_connection_def default_steps_process_def default_steps_network_def)
  have addr: "picked g (default_steps_address e o') = []"
    if "g \<in> {GItems, GSourcePort, GDestinationPort}" for g
    using that by (auto simp: picked_Nil default_steps_address_def)
  have port: "picked g (default_steps_port o') = []"
    if "g \<in> {GItems, GSourceAddress, GDestinationAddress, GDestinationIPCIDR}" for g
    using that by (auto simp: picked_Nil default_steps_port_def)
  show "picked GItems (default_steps e o') =
     picked GItems (default_steps_connection o') @ picked GItems (default_steps_process e o') @
     picked GItems (default_steps_network o')"
    "picked GSourceAddress (default_steps e o') = picked GSourceAddress (default_steps_address e o')"
    "picked GSourcePort (default_steps e o') = picked GSourcePort (default_steps_port o')"
    "picked GDestinationAddress (default_steps e o') = picked GDestinationAddress (default_steps_address e o')"
    "picked GDestinationIPCIDR (default_steps e o') = picked GDestinationIPCIDR (default_steps_address e o')"
    "picked GDestinationPort (default_steps e o') = picked GDestinationPort (default_steps_port o')"
    by (simp_all add: default_steps_def none addr port)
qed

lemma NewDefaultRule_holds:
  fixes e :: "'x env"
  assumes new: "NewDefaultRule e ae options act = Inr (r, action)" and "o_PreferredBy options = []"
    and c: "\<not> mc_IPCIDRMatchSource c" "\<not> mc_IgnoreDestinationIPCIDRMatch c"
  shows "default_holds e r c \<longleftrightarrow> documented_match e options c"
proof -
  note g = NewDefaultRule_wf(4) [OF new]
  have lists: "r_items r = picked GItems (default_steps e options)"
    "r_sourceAddressItems r = picked GSourceAddress (default_steps_address e options)"
    "r_sourcePortItems r = picked GSourcePort (default_steps_port options)"
    "r_destinationAddressItems r = picked GDestinationAddress (default_steps_address e options)"
    "r_destinationIPCIDRItems r = picked GDestinationIPCIDR (default_steps_address e options)"
    "r_destinationPortItems r = picked GDestinationPort (default_steps_port options)"
    using g [of GItems] g [of GSourceAddress] g [of GSourcePort] g [of GDestinationAddress]
      g [of GDestinationIPCIDR] g [of GDestinationPort]
    by (simp_all add: picked_default(2-))
  have ok: "list_all step_ok (default_steps_address e options)" "list_all step_ok (default_steps_port options :: 'x step list)"
    "list_all step_ok (default_steps_process e options)"
    using NewDefaultRule_wf(5) [OF new] by (simp_all add: default_steps_def)
  have items: "(\<forall>it \<in> set (r_items r). item_Match e it c) \<longleftrightarrow>
      documented_connection e options c \<and> documented_process e options c \<and> documented_network e options c"
    unfolding lists picked_default set_append ball_Un all_picked
    by (simp only: connection_items process_items [OF ok(3)] network_items [OF assms(2)])
  show ?thesis
    using c ports_groups [OF ok(2), of e c] source_group [OF ok(1), of c] destination_group [OF ok(1), of c]
    unfolding default_holds_def documented_match_def items
    unfolding src_dst_items [OF c(2)] lists by auto
qed

end
