(* ===== verification/Sample_Env.thy ===== *)
theory Sample_Env
  imports Rule_Build
begin

text \<open>
  A concrete environment: executable functions for every parameter of \<open>env\<close>, with the
  behaviour their packages document on the inputs used here. The theorems hold for every
  environment; this one shows that their hypotheses can be met. A domain matcher is the pair
  of its exact names and its suffixes, a regular expression matches its own text.
\<close>

unbundle bit_operations_syntax

fun prefix_range :: "netip_prefix \<Rightarrow> netip_addr \<times> netip_addr" where
  "prefix_range p =
     (case pfx_ip p of
        A4 w \<Rightarrow> (let n = 32 - (pfx_bitsPlusOne p - 1)
                 in (A4 (push_bit n (drop_bit n w)), A4 (w OR mask n)))
      | A6 w z \<Rightarrow> (let n = 128 - (pfx_bitsPlusOne p - 1)
                 in (A6 (push_bit n (drop_bit n w)) z, A6 (w OR mask n) z))
      | Z0 w \<Rightarrow> (Z0 w, Z0 w))"

fun in_range :: "netip_addr \<Rightarrow> netip_addr \<times> netip_addr \<Rightarrow> bool" where
  "in_range (A4 w) (A4 a, A4 b) = (a \<le> w \<and> w \<le> b)"
| "in_range (A6 w z) (A6 a _, A6 b _) = (a \<le> w \<and> w \<le> b)"
| "in_range _ _ = False"

definition sample_env :: "(string list \<times> string list) env" where
  "sample_env = \<lparr>
     x_IsIP = (\<lambda>s. addr_IsValid (sa_Addr s)),
     x_IsIPv4 = (\<lambda>s. addr_Is4 (sa_Addr s)),
     x_IsIPv6 = (\<lambda>s. addr_Is6 (sa_Addr s)),
     x_IsDomain = (\<lambda>s. sa_Fqdn s \<noteq> []),
     x_IsValid = (\<lambda>s. addr_IsValid (sa_Addr s) \<or> sa_Fqdn s \<noteq> []),
     x_IsDomainName = (\<lambda>n. n \<noteq> []),
     x_AddrFromIP = (\<lambda>bs. case bs of
        [a, b, c, d] \<Rightarrow> A4 (word_rcat [a, b, c, d]) | _ \<Rightarrow> addr_zero),
     x_IsPublicAddr = (\<lambda>a. \<not> in_range a (A4 0x0A000000, A4 0x0AFFFFFF)),
     x_IPSetContains = (\<lambda>s a. list_ex (in_range a) s),
     x_IPSetBuild = (\<lambda>es. Inr (map (\<lambda>en. case en of
        BuilderPrefix p \<Rightarrow> prefix_range p | BuilderAddr a \<Rightarrow> (a, a)) es)),
     x_NewMatcher = (\<lambda>ds ss _. (ds, ss)),
     x_MatcherMatch = (\<lambda>(ds, ss) n. n \<in> set ds \<or>
        list_ex (\<lambda>s. n = s \<or> has_suffix n (CHR ''.'' # s)) ss),
     x_NewAdGuardMatcher = (\<lambda>ls. (ls, [])),
     x_AdGuardMatch = (\<lambda>(ds, ss) n. n \<in> set ds),
     x_RegexpCompile = (\<lambda>_. None),
     x_MatchString = (\<lambda>p s. str_contains s p),
     x_UnicodeToLower = (\<lambda>s. s),
     x_UnicodeEqualFold = (\<lambda>s t. s = t),
     x_IsDuplicate = (\<lambda>a b. rr_Name a = rr_Name b \<and> rr_Data a = rr_Data b),
     x_RRString = rr_Name,
     x_RcodeToString = (\<lambda>r. if r = 0 then ''NOERROR'' else show_int r),
     x_TypeToString = (\<lambda>t. if t = 1 then Some ''A'' else None),
     x_CanonicalName = (\<lambda>s. map lower_byte s),
     x_PreferredDomain = (\<lambda>_ _ _. False),
     x_PreferredAddress = (\<lambda>_ _ _. False),
     x_DNSPreferredDomain = (\<lambda>_ _. False),
     w_IsAndroid = False,
     w_DefaultNetworkInterface = None,
     w_NetworkInterfaces = [],
     w_FinderInterfaces = [],
     w_MonitorDefaultInterface = None,
     w_MyInterfaces = [],
     w_WIFI_SSID = [],
     w_WIFI_BSSID = [],
     w_ClashMode = None\<rparr>"

text \<open>A TCP connection from 192.168.0.2:40000 to the named host.\<close>

definition sample_conn :: "string \<Rightarrow> 16 word \<Rightarrow> inbound_context" where
  "sample_conn host port = context_zero\<lparr>
     mc_Inbound := ''mixed-in'', mc_Network := ''tcp'',
     mc_Source := \<lparr>sa_Addr = A4 0xC0A80002, sa_Port = 40000, sa_Fqdn = []\<rparr>,
     mc_Destination := \<lparr>sa_Addr = addr_zero, sa_Port = port, sa_Fqdn = host\<rparr>\<rparr>"

lemma sample_conn_flags [simp]:
  "\<not> mc_IPCIDRMatchSource (sample_conn host port)"
  "\<not> mc_IPCIDRAcceptEmpty (sample_conn host port)"
  "\<not> mc_IgnoreDestinationIPCIDRMatch (sample_conn host port)"
  by (simp_all add: sample_conn_def context_zero_def)

definition sample_actions :: action_env where
  "sample_actions = \<lparr>
     ae_ParseSocksaddrHostPort = (\<lambda>host port. \<lparr>sa_Addr = addr_zero, sa_Port = port, sa_Fqdn = host\<rparr>),
     ae_DialerNew = (\<lambda>_. None), ae_SpoofSupported = True\<rparr>"

text \<open>\<^verbatim>\<open>{"domain_suffix": "example.com", "port": 443, "outbound": "proxy"}\<close>\<close>

definition sample_rule :: RawDefaultRule where
  "sample_rule = default_rule_zero\<lparr>o_DomainSuffix := [''example.com''], o_Port := [443]\<rparr>"

definition sample_route :: "string \<Rightarrow> RuleActionOptions" where
  "sample_route outbound = rule_action_zero\<lparr>
     rao_Action := ''route'',
     rao_RouteOptions := \<lparr>rao_Outbound = outbound, rao_Raw = raw_route_options_zero\<rparr>\<rparr>"

definition built_sample :: "(string list \<times> string list) abstractDefaultRule" where
  "built_sample = (rule_zero False)\<lparr>
     r_destinationAddressItems := [DomainItem ([], [''example.com'']) ''domain_suffix=example.com''],
     r_destinationPortItems := [NewPortItem False [443]],
     r_allItems := [DomainItem ([], [''example.com'']) ''domain_suffix=example.com'', NewPortItem False [443]]\<rparr>"

lemma sample_rule_steps:
  "run_steps (default_steps sample_env sample_rule) (rule_zero False) = Inr built_sample"
  by (simp add: default_steps_def default_steps_connection_def default_steps_address_def default_steps_port_def
      default_steps_process_def default_steps_network_def sample_rule_def default_rule_zero_def
      NewDomainItem_def describe_three_def sample_env_def built_sample_def rule_zero_def)

lemma sample_route_action:
  "\<exists>a. NewRuleAction sample_actions (sample_route outbound) = Inr (Some (ActRoute outbound a))"
  by (simp add: NewRuleAction_def sample_route_def newRuleActionRouteOptions_def ParseOptions_def
      raw_route_options_zero_def sample_actions_def Let_def)

lemma sample_rule_built:
  "\<exists>a. NewRule sample_env sample_actions (DefaultOptions sample_rule (sample_route ''proxy'')) True =
     Inr (DefaultRule built_sample, Some (ActRoute ''proxy'' a))"
proof -
  obtain a where a: "NewRuleAction sample_actions (sample_route ''proxy'') = Inr (Some (ActRoute ''proxy'' a))"
    using sample_route_action by blast
  have valid: "DefaultRule_IsValid sample_rule (sample_route ''proxy'')"
    by (simp add: DefaultRule_IsValid_def sample_rule_def default_rule_zero_def)
  have out: "\<not> missing_outbound (sample_route ''proxy'')"
    by (simp add: missing_outbound_def sample_route_def)
  have plain: "o_RuleSet sample_rule = []" "o_Invert sample_rule = False"
    by (simp_all add: sample_rule_def default_rule_zero_def)
  show ?thesis
    by (simp add: NewDefaultRule_def a valid out sample_rule_steps plain)
qed

end
