(* ===== verification/Rule_Set.thy ===== *)
theory Rule_Set
  imports Rule_Build Sample_Env
begin

text \<open>
  Rule-sets: the metadata and IP set extraction of \<^verbatim>\<open>route/rule/rule_set.go\<close>, the state of
  a rule-set object and its operations (\<^verbatim>\<open>rule_set_local.go\<close>, and the same code in
  \<^verbatim>\<open>rule_set_remote.go\<close>), and \<^verbatim>\<open>Start\<close> and \<^verbatim>\<open>Close\<close> of the rule-set item with the
  reference counts they keep.
\<close>

subsection \<open>Metadata\<close>

fun HasHeadlessRule :: "('x DefaultHeadlessRule \<Rightarrow> bool) \<Rightarrow> 'x headless_options list \<Rightarrow> bool" where
  "HasHeadlessRule cond [] = False"
| "HasHeadlessRule cond (DefaultHeadless r # rules) = (cond r \<or> HasHeadlessRule cond rules)"
| "HasHeadlessRule cond (LogicalHeadless mode sub invert # rules) =
     (HasHeadlessRule cond sub \<or> HasHeadlessRule cond rules)"

definition isProcessHeadlessRule :: "'x DefaultHeadlessRule \<Rightarrow> bool" where
  "isProcessHeadlessRule r =
     (h_ProcessName r \<noteq> [] \<or> h_ProcessPath r \<noteq> [] \<or> h_ProcessPathRegex r \<noteq> [] \<or>
      h_PackageName r \<noteq> [] \<or> h_PackageNameRegex r \<noteq> [])"

definition isWIFIHeadlessRule :: "'x DefaultHeadlessRule \<Rightarrow> bool" where
  "isWIFIHeadlessRule r = (h_WIFISSID r \<noteq> [] \<or> h_WIFIBSSID r \<noteq> [])"

definition isIPCIDRHeadlessRule :: "'x DefaultHeadlessRule \<Rightarrow> bool" where
  "isIPCIDRHeadlessRule r = (h_IPCIDR r \<noteq> [] \<or> h_IPSet r \<noteq> None)"

definition isDNSQueryTypeHeadlessRule :: "'x DefaultHeadlessRule \<Rightarrow> bool" where
  "isDNSQueryTypeHeadlessRule r = (h_QueryType r \<noteq> [])"

definition isNonIPCIDRHeadlessRule :: "'x DefaultHeadlessRule \<Rightarrow> bool" where
  "isNonIPCIDRHeadlessRule r =
     (r \<noteq> headless_rule_zero\<lparr>h_IPCIDR := h_IPCIDR r, h_IPSet := h_IPSet r, h_Invert := h_Invert r\<rparr>)"

definition buildRuleSetMetadata :: "'x headless_options list \<Rightarrow> ruleset_metadata" where
  "buildRuleSetMetadata headlessRules =
     \<lparr>ContainsProcessRule = HasHeadlessRule isProcessHeadlessRule headlessRules,
      ContainsWIFIRule = HasHeadlessRule isWIFIHeadlessRule headlessRules,
      ContainsIPCIDRRule = HasHeadlessRule isIPCIDRHeadlessRule headlessRules,
      ContainsDNSQueryTypeRule = HasHeadlessRule isDNSQueryTypeHeadlessRule headlessRules,
      ContainsNonIPCIDRRule = HasHeadlessRule isNonIPCIDRHeadlessRule headlessRules\<rparr>"

fun item_ipSet :: "'x rule_item \<Rightarrow> ipset list" where
  "item_ipSet (IPCIDRItem ipSet _ _) = [ipSet]"
| "item_ipSet _ = []"

fun extractIPSetFromRule :: "'x rule \<Rightarrow> ipset list" where
  "extractIPSetFromRule (DefaultRule r) = concat (map item_ipSet (r_destinationIPCIDRItems r))"
| "extractIPSetFromRule (LogicalRule mode rules invert) = concat (map extractIPSetFromRule rules)"

subsection \<open>The rule-set object\<close>

text \<open>\<^verbatim>\<open>callbacks\<close> are identified by numbers; an operation returns the ones it calls.\<close>

record 'x rule_set =
  rs_tag :: string
  rs_rules :: "'x rule list"
  rs_metadata :: ruleset_metadata
  rs_callbacks :: "nat list"
  rs_refs :: "32 word"

fun build_rules :: "'x env \<Rightarrow> bool \<Rightarrow> nat \<Rightarrow> 'x headless_options list \<Rightarrow> 'x rule list result" where
  "build_rules e nm i [] = Inr []"
| "build_rules e nm i (options # rest) =
     bind_result (cause_result (''parse rule_set.rules.['' @ show_nat i @ '']'') (NewHeadlessRule e nm options))
       (\<lambda>rule. bind_result (build_rules e nm (Suc i) rest) (\<lambda>rules. Inr (rule # rules)))"

text \<open>\<^verbatim>\<open>reloadRules\<close>: the validator is the DNS router's, if there is one. On an error the set
  keeps its rules and nobody is called.\<close>

definition reloadRules ::
  "'x env \<Rightarrow> bool \<Rightarrow> (string \<Rightarrow> ruleset_metadata \<Rightarrow> error option) \<Rightarrow> 'x headless_options list \<Rightarrow> 'x rule_set
   \<Rightarrow> error option \<times> 'x rule_set \<times> nat list" where
  "reloadRules e nm validate headlessRules s =
     (case build_rules e nm 0 headlessRules of
        Inl err \<Rightarrow> (Some err, s, [])
      | Inr rules \<Rightarrow>
          (let metadata = buildRuleSetMetadata headlessRules in
           case validate (rs_tag s) metadata of
             Some err \<Rightarrow> (Some err, s, [])
           | None \<Rightarrow> (None, s\<lparr>rs_rules := rules, rs_metadata := metadata\<rparr>, rs_callbacks s)))"

definition ExtractIPSet :: "'x rule_set \<Rightarrow> ipset list" where
  "ExtractIPSet s = concat (map extractIPSetFromRule (rs_rules s))"

definition IncRef :: "'x rule_set \<Rightarrow> 'x rule_set" where
  "IncRef s = s\<lparr>rs_refs := rs_refs s + 1\<rparr>"

text \<open>
  The count is an \<^verbatim>\<open>atomic.Int32\<close>: it wraps, and \<^verbatim>\<open>DecRef\<close> panics
  (\<open>None\<close>) when it is negative as a signed number.
\<close>

definition DecRef :: "'x rule_set \<Rightarrow> 'x rule_set option" where
  "DecRef s = (if sint (rs_refs s - 1) < 0 then None else Some (s\<lparr>rs_refs := rs_refs s - 1\<rparr>))"

definition Cleanup :: "'x rule_set \<Rightarrow> 'x rule_set" where
  "Cleanup s = (if rs_refs s = 0 then s\<lparr>rs_rules := []\<rparr> else s)"

definition RegisterCallback :: "nat \<Rightarrow> 'x rule_set \<Rightarrow> 'x rule_set" where
  "RegisterCallback cb s = s\<lparr>rs_callbacks := rs_callbacks s @ [cb]\<rparr>"

definition UnregisterCallback :: "nat \<Rightarrow> 'x rule_set \<Rightarrow> 'x rule_set" where
  "UnregisterCallback cb s = s\<lparr>rs_callbacks := remove1 cb (rs_callbacks s)\<rparr>"

definition RuleSet_Match :: "'x env \<Rightarrow> 'x rule_set \<Rightarrow> inbound_context \<Rightarrow> bool" where
  "RuleSet_Match e s metadata = matchAnyHeadlessRule e (rs_rules s) metadata"

definition mergeableRule :: "'x rule_set \<Rightarrow> 'x abstractDefaultRule option" where
  "mergeableRule s = mergeableRuleIn (rs_rules s)"

subsection \<open>Start and Close of the item\<close>

text \<open>The router's rule-sets by tag. \<open>None\<close> as a result is a panic.\<close>

type_synonym 'x ruleset_store = "string \<rightharpoonup> 'x rule_set"

fun dec_all :: "string list \<Rightarrow> 'x ruleset_store \<Rightarrow> 'x ruleset_store option" where
  "dec_all [] store = Some store"
| "dec_all (tag # tags) store =
     (case store tag of
        None \<Rightarrow> None
      | Some s \<Rightarrow>
          (case DecRef s of None \<Rightarrow> None | Some s' \<Rightarrow> dec_all tags (store(tag \<mapsto> s'))))"

definition RuleSetItem_Close ::
  "RuleSetItem \<Rightarrow> 'x ruleset_store \<Rightarrow> (RuleSetItem \<times> 'x ruleset_store) option" where
  "RuleSetItem_Close r store =
     (case dec_all (rsi_setList r) store of
        None \<Rightarrow> None
      | Some store' \<Rightarrow> Some (r\<lparr>rsi_setList := []\<rparr>, store'))"

fun start_loop ::
  "string list \<Rightarrow> RuleSetItem \<Rightarrow> 'x ruleset_store \<Rightarrow> (error option \<times> RuleSetItem \<times> 'x ruleset_store) option" where
  "start_loop [] r store = Some (None, r, store)"
| "start_loop (tag # tags) r store =
     (case store tag of
        None \<Rightarrow>
          (case RuleSetItem_Close r store of
             None \<Rightarrow> None
           | Some (r, store) \<Rightarrow> Some (Some (E_New (''rule-set not found: '' @ tag)), r, store))
      | Some s \<Rightarrow>
          start_loop tags (r\<lparr>rsi_setList := rsi_setList r @ [tag]\<rparr>) (store(tag \<mapsto> IncRef s)))"

definition RuleSetItem_Start ::
  "RuleSetItem \<Rightarrow> 'x ruleset_store \<Rightarrow> (error option \<times> RuleSetItem \<times> 'x ruleset_store) option" where
  "RuleSetItem_Start r store =
     (case RuleSetItem_Close r store of
        None \<Rightarrow> None
      | Some (r, store) \<Rightarrow> start_loop (rsi_tagList r) r store)"

definition RuleSetItem_String :: "RuleSetItem \<Rightarrow> string" where
  "RuleSetItem_String r = describe_all ''rule_set='' (rsi_tagList r)"

subsection \<open>Metadata and extraction agree\<close>

lemma HasHeadlessRule_iff:
  "HasHeadlessRule cond rules \<longleftrightarrow> (\<exists>r \<in> set rules. HasHeadlessRule cond [r])"
  by (induction cond rules rule: HasHeadlessRule.induct) auto

lemma headless_cidr_items:
  assumes "NewDefaultHeadlessRule e nm options = Inr r"
  shows "r_destinationIPCIDRItems r \<noteq> [] \<longleftrightarrow> isIPCIDRHeadlessRule options"
proof -
  from run_steps_Inr [OF assms [unfolded NewDefaultHeadlessRule_def]]
  have g: "group_items GDestinationIPCIDR r = picked GDestinationIPCIDR (headless_steps e nm options)"
    and ok: "list_all step_ok (headless_steps e nm options)"
    by (simp_all add: list_all_iff)
  have cidr: "h_IPCIDR options \<noteq> [] \<Longrightarrow> \<exists>it. NewIPCIDRItem e False (h_IPCIDR options) = Inr it"
    using ok by (auto simp: headless_steps_def headless_steps_address_def Let_def step_ok_Add simp del: step_ok.simps)
  have "picked GDestinationIPCIDR (headless_steps e nm options) \<noteq> [] \<longleftrightarrow> isIPCIDRHeadlessRule options"
    unfolding picked_Nil
    by (cases "h_IPCIDR options = []")
      (auto simp: headless_steps_def headless_steps_address_def headless_steps_port_process_def
        headless_steps_network_def Let_def isIPCIDRHeadlessRule_def dest!: cidr)
  with g show ?thesis by simp
qed

lemma item_ipSet_cidr: "is_ip_cidr it \<Longrightarrow> item_ipSet it \<noteq> []"
  by (cases it) simp_all

lemma extract_iff:
  fixes rules :: "'x rule list"
  shows "NewHeadlessRule e nm options = Inr rule \<Longrightarrow>
      extractIPSetFromRule rule \<noteq> [] \<longleftrightarrow> HasHeadlessRule isIPCIDRHeadlessRule [options]"
    and "NewHeadlessSubRules e nm i os = Inr rules \<Longrightarrow>
      concat (map extractIPSetFromRule rules) \<noteq> [] \<longleftrightarrow> HasHeadlessRule isIPCIDRHeadlessRule os"
proof (induction e nm options and e nm i os arbitrary: rule and rules
    rule: NewHeadlessRule_NewHeadlessSubRules.induct)
  case (1 e nm options)
  then obtain r where r: "NewDefaultHeadlessRule e nm options = Inr r" and rule: "rule = DefaultRule r"
    by (auto split: if_splits)
  have "\<forall>it \<in> set (r_destinationIPCIDRItems r). item_ipSet it \<noteq> []"
    using NewDefaultHeadlessRule_wf(2) [OF r] item_ipSet_cidr by (auto simp: wf_branch_def)
  then have "extractIPSetFromRule rule \<noteq> [] \<longleftrightarrow> r_destinationIPCIDRItems r \<noteq> []"
    by (cases "r_destinationIPCIDRItems r") (auto simp: rule)
  then show ?case using headless_cidr_items [OF r] by simp
next
  case (4 e nm i subRule rest)
  then obtain rule' rules' where "NewHeadlessRule e nm subRule = Inr rule'"
    "NewHeadlessSubRules e nm (Suc i) rest = Inr rules'" "rules = rule' # rules'"
    by auto
  then show ?case
    using 4 HasHeadlessRule_iff [of isIPCIDRHeadlessRule "subRule # rest"]
      HasHeadlessRule_iff [of isIPCIDRHeadlessRule rest]
    by auto
qed (auto split: if_splits)

lemma build_rules_extract:
  "build_rules e nm i os = Inr rules \<Longrightarrow>
     concat (map extractIPSetFromRule rules) \<noteq> [] \<longleftrightarrow> HasHeadlessRule isIPCIDRHeadlessRule os"
proof (induction os arbitrary: i rules)
  case (Cons o' os)
  then obtain rule rules' where "NewHeadlessRule e nm o' = Inr rule" "build_rules e nm (Suc i) os = Inr rules'"
    "rules = rule # rules'"
    by auto
  then show ?case
    using Cons.IH [of "Suc i" rules'] extract_iff(1) [of e nm o' rule]
      HasHeadlessRule_iff [of isIPCIDRHeadlessRule "o' # os"] HasHeadlessRule_iff [of isIPCIDRHeadlessRule os]
    by auto
qed simp

subsection \<open>Reference counts\<close>

text \<open>A signed 32-bit sum that stays in range is the sum.\<close>

lemma sint_add_of_int:
  fixes w :: "32 word"
  assumes "- (2 ^ 31) \<le> sint w + k" and "sint w + k < 2 ^ 31"
  shows "sint (w + of_int k) = sint w + k"
proof -
  have "w + of_int k = of_int (sint w + k)" by simp
  then have "sint (w + of_int k) = sint (of_int (sint w + k) :: 32 word)" by (rule arg_cong)
  also have "\<dots> = signed_take_bit 31 (sint w + k)" by (simp only: sint_sbintrunc') simp
  also have "\<dots> = sint w + k" using assms by (intro signed_take_bit_int_eq_self) simp_all
  finally show ?thesis .
qed

definition adjust :: "(string \<Rightarrow> int) \<Rightarrow> 'x ruleset_store \<Rightarrow> 'x ruleset_store" where
  "adjust f store = (\<lambda>t. map_option (\<lambda>s. s\<lparr>rs_refs := rs_refs s + of_int (f t)\<rparr>) (store t))"

lemma adjust_adjust: "adjust f (adjust g store) = adjust (\<lambda>t. g t + f t) store"
  by (rule ext) (simp add: adjust_def option.map_comp comp_def algebra_simps)

lemma adjust_zero [simp]: "adjust (\<lambda>_. 0) store = store"
  by (rule ext) (simp add: adjust_def option.map_ident_strong)

lemma adjust_None [simp]: "adjust f store t = None \<longleftrightarrow> store t = None"
  by (simp add: adjust_def)

definition cnt :: "string list \<Rightarrow> string \<Rightarrow> int" where
  "cnt tags t = int (count_list tags t)"

lemma cnt_simps [simp]:
  "cnt [] t = 0" "cnt (x # xs) t = (if x = t then 1 else 0) + cnt xs t" "cnt (xs @ ys) t = cnt xs t + cnt ys t"
  "0 \<le> cnt xs t"
  by (simp_all add: cnt_def)

lemma cnt_Nil_fun [simp]: "cnt [] = (\<lambda>_. 0)"
  by (rule ext) simp

text \<open>
  \<open>counted tags store\<close>: the references of \<open>tags\<close> are counted in the store; \<open>room tags store\<close>:
  as many more fit into the count.
\<close>

definition counted :: "string list \<Rightarrow> 'x ruleset_store \<Rightarrow> bool" where
  "counted tags store \<longleftrightarrow>
     (\<forall>t \<in> set tags. store t \<noteq> None) \<and> (\<forall>t s. store t = Some s \<longrightarrow> cnt tags t \<le> sint (rs_refs s))"

definition room :: "string list \<Rightarrow> 'x ruleset_store \<Rightarrow> bool" where
  "room tags store \<longleftrightarrow> (\<forall>t s. store t = Some s \<longrightarrow> sint (rs_refs s) + cnt tags t < 2 ^ 31)"

lemma sint_32_less: "sint (w :: 32 word) < 2 ^ 31"
  using sint_lt [of w] by simp

lemma dec_all_counted:
  "counted tags store \<Longrightarrow> dec_all tags store = Some (adjust (\<lambda>t. - cnt tags t) store)"
proof (induction tags arbitrary: store)
  case (Cons tag tags)
  from Cons.prems obtain s where s: "store tag = Some s" by (auto simp: counted_def)
  have pos: "1 + cnt tags tag \<le> sint (rs_refs s)" using Cons.prems s by (force simp: counted_def)
  have one: "1 \<le> sint (rs_refs s)" using pos cnt_simps(4) [of tags tag] by linarith
  have sub: "sint (rs_refs s - 1) = sint (rs_refs s) - 1"
    using sint_add_of_int [of "rs_refs s" "-1"] one sint_32_less [of "rs_refs s"] by simp
  then have dec: "DecRef s = Some (s\<lparr>rs_refs := rs_refs s - 1\<rparr>)"
    using one by (simp add: DecRef_def)
  have eq: "store(tag \<mapsto> s\<lparr>rs_refs := rs_refs s - 1\<rparr>) = adjust (\<lambda>t. if t = tag then -1 else 0) store"
    using s by (auto simp: adjust_def option.map_ident_strong)
  have "counted tags (store(tag \<mapsto> s\<lparr>rs_refs := rs_refs s - 1\<rparr>))"
    using Cons.prems pos sub by (auto simp: counted_def split: if_splits)
  from Cons.IH [OF this] show ?case
    by (simp add: s dec eq adjust_adjust) (rule arg_cong [where f = "\<lambda>f. adjust f store"], auto)
qed simp

lemma Close_counted:
  "counted (rsi_setList r) store \<Longrightarrow>
     RuleSetItem_Close r store = Some (r\<lparr>rsi_setList := []\<rparr>, adjust (\<lambda>t. - cnt (rsi_setList r) t) store)"
  by (simp add: RuleSetItem_Close_def dec_all_counted)

lemma sint_adjust:
  assumes "store t = Some s" and "adjust f store t = Some s'"
    and "0 \<le> sint (rs_refs s) + f t" and "sint (rs_refs s) + f t < 2 ^ 31"
  shows "sint (rs_refs s') = sint (rs_refs s) + f t"
  using assms by (auto simp: adjust_def sint_add_of_int)

lemma start_loop_counted:
  assumes "counted (rsi_setList r) store" and "room tags store"
  shows "start_loop tags r store =
     (if \<forall>t \<in> set tags. store t \<noteq> None
      then Some (None, r\<lparr>rsi_setList := rsi_setList r @ tags\<rparr>, adjust (cnt tags) store)
      else Some (Some (E_New (''rule-set not found: '' @ hd (filter (\<lambda>t. store t = None) tags))),
             r\<lparr>rsi_setList := []\<rparr>, adjust (\<lambda>t. - cnt (rsi_setList r) t) store))"
  using assms
proof (induction tags arbitrary: r store)
  case (Cons tag tags)
  show ?case
  proof (cases "store tag")
    case None
    then show ?thesis using Close_counted [OF Cons.prems(1)] by simp
  next
    case (Some s)
    let ?r = "r\<lparr>rsi_setList := rsi_setList r @ [tag]\<rparr>" and ?store = "adjust (cnt [tag]) store"
    have eq: "store(tag \<mapsto> IncRef s) = ?store"
      using Some by (auto simp: adjust_def IncRef_def option.map_ident_strong)
    have refs: "sint (rs_refs s') = sint (rs_refs s'') + cnt [tag] t" if "?store t = Some s'" "store t = Some s''" for t s' s''
    proof -
      have "cnt (rsi_setList r) t \<le> sint (rs_refs s'')" "sint (rs_refs s'') + (cnt [tag] t + cnt tags t) < 2 ^ 31"
        using Cons.prems that(2) by (auto simp: counted_def room_def)
      then have "0 \<le> sint (rs_refs s'') + cnt [tag] t" "sint (rs_refs s'') + cnt [tag] t < 2 ^ 31"
        using cnt_simps(4) [of tags t] cnt_simps(4) [of "rsi_setList r" t] cnt_simps(4) [of "[tag]" t] by linarith+
      with that(2,1) show ?thesis by (rule sint_adjust)
    qed
    have known: "\<exists>s''. store t = Some s''" if "?store t = Some s'" for t s'
      using that by (auto simp: adjust_def)
    have "counted (rsi_setList ?r) ?store" unfolding counted_def
    proof (intro conjI ballI allI impI)
      show "?store t \<noteq> None" if "t \<in> set (rsi_setList ?r)" for t
        using that Cons.prems(1) Some by (auto simp: counted_def)
      show "cnt (rsi_setList ?r) t \<le> sint (rs_refs s')" if "?store t = Some s'" for t s'
        using refs [OF that] known [OF that] Cons.prems(1) by (fastforce simp: counted_def)
    qed
    moreover have "room tags ?store" unfolding room_def
    proof (intro allI impI)
      show "sint (rs_refs s') + cnt tags t < 2 ^ 31" if "?store t = Some s'" for t s'
        using refs [OF that] known [OF that] Cons.prems(2) by (fastforce simp: room_def)
    qed
    ultimately show ?thesis
      using Cons.IH [of ?r ?store] Some unfolding eq [symmetric] by (simp add: eq adjust_adjust)
  qed
qed simp

subsection \<open>The items of a router and its rule-sets\<close>

text \<open>
  The rule-set items of all rules of a router, and its rule-sets. Rules are started and
  closed in any order and any number of times; rule-sets are reloaded and cleaned up in
  between. A step that panics ends in \<open>None\<close>.
\<close>

type_synonym 'x rs_system = "RuleSetItem list \<times> 'x ruleset_store"

inductive rs_step :: "'x env \<Rightarrow> bool \<Rightarrow> 'x rs_system \<Rightarrow> 'x rs_system option \<Rightarrow> bool"
  for e :: "'x env" and nm :: bool where
  start: "i < length items \<Longrightarrow> RuleSetItem_Start (items ! i) store = res \<Longrightarrow>
     rs_step e nm (items, store) (map_option (\<lambda>(err, r, store'). (items[i := r], store')) res)"
| close: "i < length items \<Longrightarrow> RuleSetItem_Close (items ! i) store = res \<Longrightarrow>
     rs_step e nm (items, store) (map_option (\<lambda>(r, store'). (items[i := r], store')) res)"
| cleanup: "store t = Some s \<Longrightarrow> rs_step e nm (items, store) (Some (items, store(t \<mapsto> Cleanup s)))"
| reload: "store t = Some s \<Longrightarrow> reloadRules e nm validate options s = (err, s', called) \<Longrightarrow>
     rs_step e nm (items, store) (Some (items, store(t \<mapsto> s')))"

inductive_cases rs_stepE: "rs_step e nm (items, store) res"

inductive rs_reach :: "'x env \<Rightarrow> bool \<Rightarrow> 'x rs_system \<Rightarrow> bool" for e :: "'x env" and nm :: bool where
  init: "\<forall>r \<in> set items. rsi_setList r = [] \<Longrightarrow> \<forall>t s. store t = Some s \<longrightarrow> rs_refs s = 0 \<Longrightarrow>
     rs_reach e nm (items, store)"
| step: "rs_reach e nm sys \<Longrightarrow> rs_step e nm sys (Some sys') \<Longrightarrow> rs_reach e nm sys'"

definition total_refs :: "RuleSetItem list \<Rightarrow> string \<Rightarrow> int" where
  "total_refs items t = (\<Sum>r \<leftarrow> items. cnt (rsi_setList r) t)"

text \<open>
  The references the rules of a router can hold at once; they fit into the count as long as the
  rules name fewer than \<open>2 ^ 31\<close> rule-sets in all.
\<close>

definition few_refs :: "RuleSetItem list \<Rightarrow> bool" where
  "few_refs items \<longleftrightarrow> (\<Sum>r \<leftarrow> items. length (rsi_tagList r)) < 2 ^ 31"

definition refs_inv :: "'x rs_system \<Rightarrow> bool" where
  "refs_inv sys \<longleftrightarrow>
     (\<forall>r \<in> set (fst sys). rsi_setList r = [] \<or> rsi_setList r = rsi_tagList r) \<and>
     (\<forall>r \<in> set (fst sys). \<forall>t \<in> set (rsi_setList r). snd sys t \<noteq> None) \<and>
     (\<forall>t s. snd sys t = Some s \<longrightarrow> sint (rs_refs s) = total_refs (fst sys) t)"

lemma total_refs_update:
  "i < length items \<Longrightarrow>
     total_refs (items[i := r]) t = total_refs items t - cnt (rsi_setList (items ! i)) t + cnt (rsi_setList r) t"
proof (induction items arbitrary: i)
  case (Cons x items)
  then show ?case by (cases i) (simp_all add: total_refs_def)
qed simp

lemma total_refs_ge:
  "i < length items \<Longrightarrow> cnt (rsi_setList (items ! i)) t \<le> total_refs items t"
proof (induction items arbitrary: i)
  case (Cons x items)
  have nonneg: "0 \<le> total_refs xs t" for xs by (induction xs) (simp_all add: total_refs_def)
  show ?case
  proof (cases i)
    case 0
    then show ?thesis using nonneg [of items] by (simp add: total_refs_def)
  next
    case (Suc j)
    then have "cnt (rsi_setList (items ! j)) t \<le> total_refs items t" using Cons by simp
    also have "\<dots> \<le> total_refs (x # items) t" by (simp add: total_refs_def)
    finally show ?thesis by (simp add: Suc)
  qed
qed simp

lemma refs_inv_counted:
  "refs_inv (items, store) \<Longrightarrow> i < length items \<Longrightarrow> counted (rsi_setList (items ! i)) store"
  using total_refs_ge [of i items] by (auto simp: refs_inv_def counted_def)

text \<open>The references counted never exceed the tags of the rules, whichever rules are started.\<close>

lemma cnt_le: "cnt xs t \<le> int (length xs)"
  using count_le_length [of xs t] by (simp add: cnt_def)

lemma total_refs_le:
  assumes "\<forall>r \<in> set items. rsi_setList r = [] \<or> rsi_setList r = rsi_tagList r"
  shows "total_refs items t \<le> int (\<Sum>r \<leftarrow> items. length (rsi_tagList r))"
  using assms
proof (induction items)
  case (Cons r items)
  have "cnt (rsi_setList r) t \<le> int (length (rsi_tagList r))" using Cons.prems cnt_le [of "rsi_tagList r" t] by auto
  with Cons show ?case by (simp add: total_refs_def)
qed (simp add: total_refs_def)

lemma few_refs_update:
  "few_refs items \<Longrightarrow> i < length items \<Longrightarrow> rsi_tagList r = rsi_tagList (items ! i) \<Longrightarrow> few_refs (items[i := r])"
proof -
  assume a: "few_refs items" "i < length items" "rsi_tagList r = rsi_tagList (items ! i)"
  then have "map (\<lambda>r. length (rsi_tagList r)) (items[i := r]) = map (\<lambda>r. length (rsi_tagList r)) items"
    by (simp add: map_update list_update_same_conv)
  with a(1) show ?thesis by (simp add: few_refs_def)
qed

lemma total_refs_update_bound:
  assumes inv: "refs_inv (items, store)" and few: "few_refs items" and i: "i < length items"
    and r: "rsi_setList r = [] \<or> rsi_setList r = rsi_tagList r" "rsi_tagList r = rsi_tagList (items ! i)"
  shows "total_refs (items[i := r]) t < 2 ^ 31"
proof -
  have "\<forall>x \<in> set (items[i := r]). rsi_setList x = [] \<or> rsi_setList x = rsi_tagList x"
    using inv r(1) set_update_subset_insert [of items i r] by (auto simp: refs_inv_def)
  from total_refs_le [OF this, of t] few_refs_update [OF few i r(2)] show ?thesis by (simp add: few_refs_def)
qed

lemma total_refs_nonneg: "0 \<le> total_refs items t"
  by (induction items) (simp_all add: total_refs_def)

lemma Start_counted:
  assumes inv: "refs_inv (items, store)" and few: "few_refs items" and i: "i < length items"
  shows "\<exists>err r'. RuleSetItem_Start (items ! i) store =
     Some (err, r', adjust (\<lambda>t. cnt (rsi_setList r') t - cnt (rsi_setList (items ! i)) t) store) \<and>
     (\<forall>t \<in> set (rsi_setList r'). store t \<noteq> None) \<and>
     (err = None \<longleftrightarrow> (\<forall>t \<in> set (rsi_tagList (items ! i)). store t \<noteq> None)) \<and>
     rsi_setList r' = (if err = None then rsi_tagList (items ! i) else []) \<and> rsi_tagList r' = rsi_tagList (items ! i)"
proof -
  let ?r = "items ! i"
  let ?closed = "?r\<lparr>rsi_setList := []\<rparr>" and ?store = "adjust (\<lambda>t. - cnt (rsi_setList ?r) t) store"
  note counted = refs_inv_counted [OF inv i]
  have refs: "0 \<le> sint (rs_refs s')" "sint (rs_refs s') + cnt (rsi_tagList ?r) t < 2 ^ 31" if s': "?store t = Some s'" for t s'
  proof -
    obtain s where s: "store t = Some s" using s' by (auto simp: adjust_def)
    then have total: "sint (rs_refs s) = total_refs items t" using inv by (simp add: refs_inv_def)
    have ge: "0 \<le> sint (rs_refs s) + - cnt (rsi_setList ?r) t" using total_refs_ge [OF i, of t] total by linarith
    have "sint (rs_refs s) + - cnt (rsi_setList ?r) t < 2 ^ 31"
      using sint_32_less [of "rs_refs s"] cnt_simps(4) [of "rsi_setList ?r" t] by linarith
    then have eq: "sint (rs_refs s') = sint (rs_refs s) + - cnt (rsi_setList ?r) t"
      by (rule sint_adjust [where f = "\<lambda>t. - cnt (rsi_setList ?r) t", OF s s' ge])
    with ge show "0 \<le> sint (rs_refs s')" by simp
    show "sint (rs_refs s') + cnt (rsi_tagList ?r) t < 2 ^ 31"
      using total_refs_update_bound [OF inv few i, of "?r\<lparr>rsi_setList := rsi_tagList ?r\<rparr>" t] total_refs_update [OF i, of "?r\<lparr>rsi_setList := rsi_tagList ?r\<rparr>" t]
      by (simp add: eq total)
  qed
  have "counted (rsi_setList ?closed) ?store" using refs(1) by (auto simp: counted_def)
  moreover have "room (rsi_tagList ?r) ?store" using refs(2) by (auto simp: room_def)
  ultimately show ?thesis
    using start_loop_counted [of ?closed ?store "rsi_tagList ?r"]
    by (auto simp: RuleSetItem_Start_def Close_counted [OF counted] adjust_adjust algebra_simps
        intro!: arg_cong [where f = "\<lambda>f. adjust f store"])
qed

lemma reloadRules_refs:
  "reloadRules e nm validate options s = (err, s', called) \<Longrightarrow> rs_refs s' = rs_refs s"
  by (auto simp: reloadRules_def Let_def split: sum.splits option.splits)

lemma refs_inv_update:
  assumes inv: "refs_inv (items, store)" and few: "few_refs items" and i: "i < length items"
    and r: "rsi_setList r = [] \<or> rsi_setList r = rsi_tagList r" "rsi_tagList r = rsi_tagList (items ! i)"
    and known: "\<forall>t \<in> set (rsi_setList r). store t \<noteq> None"
  shows "refs_inv (items[i := r], adjust (\<lambda>t. cnt (rsi_setList r) t - cnt (rsi_setList (items ! i)) t) store)"
proof -
  let ?f = "\<lambda>t. cnt (rsi_setList r) t - cnt (rsi_setList (items ! i)) t"
  have "sint (rs_refs s') = total_refs (items[i := r]) t" if s': "adjust ?f store t = Some s'" for t s'
  proof -
    obtain s where s: "store t = Some s" using s' by (auto simp: adjust_def)
    then have "sint (rs_refs s) + ?f t = total_refs (items[i := r]) t"
      using inv by (simp add: refs_inv_def total_refs_update [OF i])
    with sint_adjust [where f = ?f, OF s s'] total_refs_update_bound [OF inv few i r, of t] total_refs_nonneg [of "items[i := r]" t]
    show ?thesis by simp
  qed
  then show ?thesis
    using inv known r(1) set_update_subset_insert [of items i r] by (auto simp: refs_inv_def)
qed

lemma refs_inv_step:
  assumes "rs_step e nm sys (Some sys')" and "refs_inv sys" and "few_refs (fst sys)"
  shows "refs_inv sys'"
  using assms
proof (cases rule: rs_step.cases)
  case (start i items store res)
  have inv: "refs_inv (items, store)" and few: "few_refs items" using assms(2,3) start by simp_all
  obtain err r where
    run: "RuleSetItem_Start (items ! i) store =
      Some (err, r, adjust (\<lambda>t. cnt (rsi_setList r) t - cnt (rsi_setList (items ! i)) t) store)"
    and known: "\<forall>t \<in> set (rsi_setList r). store t \<noteq> None"
    and list: "rsi_setList r = (if err = None then rsi_tagList (items ! i) else [])"
    and tags: "rsi_tagList r = rsi_tagList (items ! i)"
    using Start_counted [OF inv few start(3)] by blast
  have r: "rsi_setList r = [] \<or> rsi_setList r = rsi_tagList r" by (simp add: list tags)
  have "sys' = (items[i := r], adjust (\<lambda>t. cnt (rsi_setList r) t - cnt (rsi_setList (items ! i)) t) store)"
    using start run by auto
  with refs_inv_update [OF inv few start(3) r tags known] show ?thesis by simp
next
  case (close i items store res)
  let ?r = "(items ! i)\<lparr>rsi_setList := []\<rparr>"
  from close Close_counted [OF refs_inv_counted, of items store i] assms(2)
  have "sys' = (items[i := ?r], adjust (\<lambda>t. - cnt (rsi_setList (items ! i)) t) store)"
    by auto
  with refs_inv_update [of items store i ?r] assms(2,3) close
  show ?thesis by simp
next
  case (cleanup store t s items)
  have "rs_refs (Cleanup s) = rs_refs s" by (simp add: Cleanup_def)
  with cleanup assms(2) show ?thesis by (auto simp: refs_inv_def)
next
  case (reload store t s validate options err s' called items)
  with assms(2,3) reloadRules_refs [OF reload(4)] show ?thesis by (auto simp: refs_inv_def)
qed

text \<open>The tags of the items never change, so it is enough to bound them at the end.\<close>

lemma Close_tags: "RuleSetItem_Close r store = Some (r', store') \<Longrightarrow> rsi_tagList r' = rsi_tagList r"
  by (auto simp: RuleSetItem_Close_def split: option.split_asm)

lemma start_loop_tags: "start_loop tags r store = Some (err, r', store') \<Longrightarrow> rsi_tagList r' = rsi_tagList r"
proof (induction tags arbitrary: r store)
  case (Cons tag tags)
  then show ?case by (auto dest: Close_tags Cons.IH split: option.split_asm)
qed simp

lemma Start_tags:
  assumes "RuleSetItem_Start r store = Some (err, r', store')"
  shows "rsi_tagList r' = rsi_tagList r"
  using assms by (auto simp: RuleSetItem_Start_def dest!: Close_tags start_loop_tags split: option.split_asm)

lemma rs_step_tags:
  assumes "rs_step e nm sys (Some sys')"
  shows "map rsi_tagList (fst sys') = map rsi_tagList (fst sys)"
  using assms
proof (cases rule: rs_step.cases)
  case (start i items store res)
  then obtain err r store' where "RuleSetItem_Start (items ! i) store = Some (err, r, store')" "sys' = (items[i := r], store')" by (cases res) auto
  then show ?thesis using Start_tags [of "items ! i" store] start by (simp add: map_update list_update_same_conv)
next
  case (close i items store res)
  then obtain r store' where "RuleSetItem_Close (items ! i) store = Some (r, store')" "sys' = (items[i := r], store')" by (cases res) auto
  then show ?thesis using Close_tags [of "items ! i" store] close by (simp add: map_update list_update_same_conv)
qed auto

lemma few_refs_tags:
  assumes "map rsi_tagList items' = map rsi_tagList items"
  shows "few_refs items' \<longleftrightarrow> few_refs items"
proof -
  have "map (\<lambda>r. length (rsi_tagList r)) items' = map (\<lambda>r. length (rsi_tagList r)) items"
    using arg_cong [OF assms, of "map length"] by (simp add: comp_def)
  then show ?thesis by (simp only: few_refs_def)
qed

lemma refs_inv_reach: "rs_reach e nm sys \<Longrightarrow> few_refs (fst sys) \<Longrightarrow> refs_inv sys"
proof (induction rule: rs_reach.induct)
  case (init items store)
  have "total_refs items t = 0" for t
    using init(1) unfolding total_refs_def by (induction items) auto
  with init show ?case by (simp add: refs_inv_def)
next
  case (step sys sys')
  then show ?case using refs_inv_step few_refs_tags [OF rs_step_tags] by blast
qed

subsection \<open>The contract between rules and rule-sets\<close>

text \<open>
  What a rule relies on when it merges a rule-set instead of matching it: the branch it gets
  has its CIDR items in their group, and matching the set is matching the branch.
\<close>

locale ruleset_contract =
  fixes e :: "'x env" and sets :: "string \<Rightarrow> 'x ruleset_iface"
  assumes mergeable_wf: "if_mergeableRule (sets t) = Some b \<Longrightarrow> wf_branch b"
    and mergeable_match: "if_mergeableRule (sets t) = Some b \<Longrightarrow> if_Match (sets t) c = default_holds e b c"
begin

lemma default_rule_with_sets:
  assumes "\<not> mc_IPCIDRMatchSource c" "\<not> mc_IPCIDRAcceptEmpty c" "\<not> mc_IgnoreDestinationIPCIDRMatch c"
    and "r_ruleSetItem r = Some item" "\<not> rsi_ipCidrAcceptEmpty item"
  shows "fst (rule_Match e sets (DefaultRule r) c) \<longleftrightarrow>
           (\<exists>tag \<in> set (rsi_setList item). set_holds e sets item r c tag) \<noteq> r_invert r"
  using matchInner_set [OF assms mergeable_wf] abstractDefaultRule_Match_fst [OF assms(3), of e sets r] assms(4)
  by (simp add: no_items_def)

text \<open>For a rule that only names rule-sets, merging changes nothing.\<close>

lemma rule_set_only:
  assumes item: "r_ruleSetItem r = Some item" and none: "r_allItems r = []" "wf_lists r"
  shows "fst (matchInner e sets r c) \<longleftrightarrow> RuleSetItem_Match sets item c"
proof -
  have empty: "r_items r = []" "src_items r c = []" "dst_items r c = []" "r_sourcePortItems r = []"
    "r_destinationPortItems r = []"
    using none by (auto simp: wf_lists_def src_items_def dst_items_def)
  then have zero: "fst (evaluateGroups e r c) = groups_zero"
    by (simp add: evaluateGroups_eq groups_zero_def group_flags_zero)
  have one: "(case if_mergeableRule (sets t) of
       Some branch \<Rightarrow>
         (let (branchGroups, branchMatched) = fst (evaluateForMerge e branch n)
          in branchMatched \<and> done_groups (mergeWith groups_zero branchGroups))
     | None \<Rightarrow> done_groups groups_zero \<and> if_Match (sets t) n) = if_Match (sets t) n" for t n
  proof (cases "if_mergeableRule (sets t)")
    case None
    then show ?thesis by (simp add: groups_zero_def done_groups_def)
  next
    case (Some b)
    then show ?thesis
      using mergeable_match [OF Some, of n]
      by (auto simp: evaluateForMerge_fst done_merge_zero evaluateGroups_done default_holds_def)
  qed
  show ?thesis
    by (simp add: matchInner_fst item empty zero matchWithOuterGroups_def RuleSetItem_Match_def one)
qed

end

text \<open>The rule-sets of a router by tag, loaded from their options.\<close>

definition sets_of ::
  "'x env \<Rightarrow> bool \<Rightarrow> (string \<Rightarrow> 'x headless_options list) \<Rightarrow> string \<Rightarrow> 'x ruleset_iface" where
  "sets_of e nm config tag =
     (case build_rules e nm 0 (config tag) of
        Inl _ \<Rightarrow> no_sets tag
      | Inr rules \<Rightarrow> ruleset_of e (rules, buildRuleSetMetadata (config tag)))"

lemma build_rules_single:
  assumes "build_rules e nm i os = Inr [DefaultRule b]"
  shows "wf_branch b \<and> wf_lists b"
proof -
  from assms obtain o' where os: "os = [o']" by (cases os rule: remdups_adj.cases) auto
  with assms have new: "NewHeadlessRule e nm o' = Inr (DefaultRule b)" by simp
  then obtain options where "NewDefaultHeadlessRule e nm options = Inr b"
    by (cases o') (auto split: if_splits)
  then show ?thesis using NewDefaultHeadlessRule_wf by blast
qed

lemma sets_of_mergeable:
  assumes "if_mergeableRule (sets_of e nm config t) = Some b"
  shows "\<exists>rules. build_rules e nm 0 (config t) = Inr rules \<and> mergeableRuleIn rules = Some b \<and>
     wf_branch b \<and> wf_lists b"
  using assms build_rules_single [of e nm 0 "config t" b]
  by (auto simp: sets_of_def no_sets_def ruleset_of_def mergeableRuleIn_Some split: sum.splits)

interpretation loaded: ruleset_contract e "sets_of e nm config" for e nm config
proof
  fix t b c
  assume "if_mergeableRule (sets_of e nm config t) = Some b"
  from sets_of_mergeable [OF this] obtain rules where
    rules: "build_rules e nm 0 (config t) = Inr rules" "mergeableRuleIn rules = Some b" "wf_branch b" "wf_lists b"
    by blast
  show "wf_branch b" by (rule rules)
  show "if_Match (sets_of e nm config t) c = default_holds e b c"
    using mergeable_Match [OF rules(2,4), of e c] by (simp add: sets_of_def rules(1) ruleset_of_def)
qed

text \<open>A rule whose item has been started without error refers to all its sets.\<close>

definition started :: "'x abstractDefaultRule \<Rightarrow> 'x abstractDefaultRule" where
  "started r = r\<lparr>r_ruleSetItem := map_option (\<lambda>i. i\<lparr>rsi_setList := rsi_tagList i\<rparr>) (r_ruleSetItem r)\<rparr>"

end
