(* ===== verification/Rule_Spec.thy ===== *)
theory Rule_Spec
  imports Rule_Set Sample_Env
begin

text \<open>
  The properties of rules: what a rule built from options matches, how rule-sets are merged
  into it, which state matching reads and writes, and what the rule-set objects guarantee.
\<close>

subsection \<open>Route rules without rule-sets\<close>



subsection \<open>Rule-sets\<close>

text \<open>The rule-set item of a started rule.\<close>

definition started_item :: "RawDefaultRule \<Rightarrow> RuleSetItem" where
  "started_item options = \<lparr>rsi_tagList = o_RuleSet options, rsi_setList = o_RuleSet options,
     rsi_ipCidrMatchSource = o_RuleSetIPCIDRMatchSource options, rsi_ipCidrAcceptEmpty = False\<rparr>"

text \<open>C2: a route rule that names rule-sets matches if for one of the sets either the set's
  single plain rule, merged into the route rule item by item (its ip_cidr items as source
  items under rule_set_ip_cidr_match_source), is satisfied, or, for any other set, the
  route rule's own fields are satisfied and the set matches as a whole; inverted if the
  rule says so. The sets are loaded from headless rules, the rule is started.\<close>

theorem route_rule_sets_merged:
  assumes new: "NewRule e ae (DefaultOptions options act) checkOutbound = Inr (DefaultRule r, action)"
    and sets: "o_RuleSet options \<noteq> []"
    and c: "\<not> mc_IPCIDRMatchSource c" "\<not> mc_IPCIDRAcceptEmpty c" "\<not> mc_IgnoreDestinationIPCIDRMatch c"
  shows "fst (rule_Match e (sets_of e nm config) (DefaultRule (started r)) c) \<longleftrightarrow>
     (\<exists>tag \<in> set (o_RuleSet options).
        case if_mergeableRule (sets_of e nm config tag) of
          Some b \<Rightarrow> default_holds e (merge_rules (started r) (branch_for (started_item options) b)) c
        | None \<Rightarrow> default_holds e (started r) c \<and>
            if_Match (sets_of e nm config tag) (nestedMetadata (started_item options) c)) \<noteq> o_Invert options"
proof -
  from new have def: "NewDefaultRule e ae options act = Inr (r, action)" by (auto split: if_splits)
  note wf = NewDefaultRule_wf(2,3) [OF def]
  have item: "r_ruleSetItem (started r) = Some (started_item options)" "r_invert (started r) = o_Invert options"
    using wf sets by (simp_all add: started_def started_item_def NewRuleSetItem_def)
  have "\<not> rsi_ipCidrAcceptEmpty (started_item options)" "rsi_setList (started_item options) = o_RuleSet options"
    by (simp_all add: started_item_def)
  with loaded.default_rule_with_sets [OF c item(1), of e nm config] show ?thesis
    unfolding set_holds_def by (simp add: item(2))
qed

definition sample_set_rule :: RawDefaultRule where
  "sample_set_rule = default_rule_zero\<lparr>o_Port := [443], o_RuleSet := [''geo'']\<rparr>"

definition sample_sets :: "string \<Rightarrow> (string list \<times> string list) headless_options list" where
  "sample_sets tag = [DefaultHeadless (headless_rule_zero\<lparr>h_DomainSuffix := [''example.com'']\<rparr>)]"

lemma sample_set_rule_built:
  "\<exists>r a. NewRule sample_env sample_actions (DefaultOptions sample_set_rule (sample_route ''proxy'')) True =
     Inr (DefaultRule r, a)"
proof -
  obtain a where a: "NewRuleAction sample_actions (sample_route ''proxy'') = Inr (Some (ActRoute ''proxy'' a))"
    using sample_route_action by blast
  have valid: "DefaultRule_IsValid sample_set_rule (sample_route ''proxy'')"
    by (simp add: DefaultRule_IsValid_def sample_set_rule_def default_rule_zero_def)
  have out: "\<not> missing_outbound (sample_route ''proxy'')"
    by (simp add: missing_outbound_def sample_route_def)
  have "\<exists>r. run_steps (default_steps sample_env sample_set_rule) (rule_zero (o_Invert sample_set_rule)) = Inr r"
    by (rule run_steps_ok)
      (simp add: default_steps_def default_steps_connection_def default_steps_address_def default_steps_port_def
      default_steps_process_def default_steps_network_def sample_set_rule_def default_rule_zero_def step_ok_Add)
  then show ?thesis by (auto simp: NewDefaultRule_def a valid out)
qed

theorem route_rule_sets_merged_witness:
  "\<exists>r a. NewRule sample_env sample_actions (DefaultOptions sample_set_rule (sample_route ''proxy'')) True =
       Inr (DefaultRule r, a) \<and>
     (fst (rule_Match sample_env (sets_of sample_env False sample_sets) (DefaultRule (started r))
        (sample_conn ''www.example.com'' 443)) \<longleftrightarrow>
      (case if_mergeableRule (sets_of sample_env False sample_sets ''geo'') of
         Some b \<Rightarrow> default_holds sample_env (merge_rules (started r) b) (sample_conn ''www.example.com'' 443)
       | None \<Rightarrow> default_holds sample_env (started r) (sample_conn ''www.example.com'' 443) \<and>
           if_Match (sets_of sample_env False sample_sets ''geo'')
             (ResetRuleCache (sample_conn ''www.example.com'' 443))))"
proof -
  obtain r a where new:
    "NewRule sample_env sample_actions (DefaultOptions sample_set_rule (sample_route ''proxy'')) True =
     Inr (DefaultRule r, a)"
    using sample_set_rule_built by blast
  have plain: "o_RuleSet sample_set_rule = [''geo'']" "o_Invert sample_set_rule = False"
    "o_RuleSetIPCIDRMatchSource sample_set_rule = False"
    by (simp_all add: sample_set_rule_def default_rule_zero_def)
  have ne: "o_RuleSet sample_set_rule \<noteq> []" by (simp add: plain)
  have single: "(\<exists>tag \<in> set [''geo'']. P tag) \<longleftrightarrow> P ''geo''" for P by simp
  have nested: "nestedMetadata \<lparr>rsi_tagList = ts, rsi_setList = ts, rsi_ipCidrMatchSource = False,
      rsi_ipCidrAcceptEmpty = False\<rparr> c = ResetRuleCache c" for ts c
    by (simp add: nestedMetadata_def ResetRuleCache_def ResetRuleMatchCache_def)
  have "fst (rule_Match sample_env (sets_of sample_env False sample_sets) (DefaultRule (started r))
        (sample_conn ''www.example.com'' 443)) \<longleftrightarrow>
      (case if_mergeableRule (sets_of sample_env False sample_sets ''geo'') of
         Some b \<Rightarrow> default_holds sample_env (merge_rules (started r) b) (sample_conn ''www.example.com'' 443)
       | None \<Rightarrow> default_holds sample_env (started r) (sample_conn ''www.example.com'' 443) \<and>
           if_Match (sets_of sample_env False sample_sets ''geo'')
             (ResetRuleCache (sample_conn ''www.example.com'' 443)))"
    unfolding route_rule_sets_merged [OF new ne sample_conn_flags] started_item_def plain single nested
      branch_for_def
    by (simp cong: option.case_cong)
  with new show ?thesis by blast
qed

text \<open>C6: merging does not change the meaning of a rule-set: a rule that only names rule-sets
  matches exactly when one of the sets, matched as a whole, does.\<close>

theorem rule_set_only_rule:
  assumes "r_ruleSetItem r = Some item" and "r_allItems r = []" and "wf_lists r" and "\<not> r_invert r"
  shows "fst (rule_Match e (sets_of e nm config) (DefaultRule r) c) \<longleftrightarrow>
           RuleSetItem_Match (sets_of e nm config) item c"
  using loaded.rule_set_only [OF assms(1-3)] assms(1,4)
  by (simp add: abstractDefaultRule_Match_def no_items_def Let_def split_beta)

definition sample_item :: RuleSetItem where
  "sample_item = \<lparr>rsi_tagList = [''geo''], rsi_setList = [''geo''], rsi_ipCidrMatchSource = False,
     rsi_ipCidrAcceptEmpty = False\<rparr>"

theorem rule_set_only_rule_witness:
  "fst (rule_Match sample_env (sets_of sample_env False sample_sets)
      (DefaultRule ((rule_zero False)\<lparr>r_ruleSetItem := Some sample_item\<rparr>)) (sample_conn ''www.example.com'' 443)) \<longleftrightarrow>
   RuleSetItem_Match (sets_of sample_env False sample_sets) sample_item (sample_conn ''www.example.com'' 443)"
  by (rule rule_set_only_rule) (simp_all add: rule_zero_def wf_lists_def)

fun is_logical :: "'x rule \<Rightarrow> bool" where
  "is_logical (LogicalRule _ _ _) = True"
| "is_logical (DefaultRule _) = False"

lemma logical_ResetRuleCache:
  "is_logical rule \<Longrightarrow> fst (rule_Match e sets rule c) = fst (rule_Match e sets rule (ResetRuleCache c))"
  by (cases rule) (simp_all add: Let_def)

lemma ResetRuleCache_nested [simp]:
  "ResetRuleCache (ResetRuleMatchCache (nestedMetadata item c)) = ResetRuleCache c"
  by (simp add: nestedMetadata_def ResetRuleCache_def ResetRuleMatchCache_def)

text \<open>C9: the flag rule_set_ip_cidr_match_source (and its DNS counterpart for empty answers)
  does not reach the logical rules of a rule-set: a set of logical rules matches as if the
  flags were not set.\<close>

theorem match_source_ignored_in_logical_rules:
  assumes "list_all is_logical rules"
  shows "matchAnyHeadlessRule e rules (nestedMetadata item c) =
     matchAnyHeadlessRule e rules
       (nestedMetadata (item\<lparr>rsi_ipCidrMatchSource := False, rsi_ipCidrAcceptEmpty := False\<rparr>) c)"
  unfolding matchAnyHeadlessRule_def list_ex_iff
proof (intro bex_cong refl)
  fix rule assume "rule \<in> set rules"
  with assms have "is_logical rule" by (simp add: list_all_iff)
  from logical_ResetRuleCache [OF this] show "fst (rule_Match e no_sets rule (ResetRuleMatchCache (nestedMetadata item c))) =
      fst (rule_Match e no_sets rule (ResetRuleMatchCache
        (nestedMetadata (item\<lparr>rsi_ipCidrMatchSource := False, rsi_ipCidrAcceptEmpty := False\<rparr>) c)))"
    by (metis ResetRuleCache_nested)
qed

text \<open>A logical rule over an ip_cidr rule that holds the client's address: the connection's
  source is in the set, its destination is not, and the rule does not match although it is
  asked to match the source.\<close>

definition sample_cidr_set :: "(string list \<times> string list) rule list" where
  "sample_cidr_set = [LogicalRule ''or'' [DefaultRule ((rule_zero False)\<lparr>
     r_destinationIPCIDRItems := [IPCIDRItem [(A4 0xC0A80000, A4 0xC0A8FFFF)] False ''ip_cidr''],
     r_allItems := [IPCIDRItem [(A4 0xC0A80000, A4 0xC0A8FFFF)] False ''ip_cidr'']\<rparr>)] False]"

theorem match_source_ignored_in_logical_rules_witness:
  "list_all is_logical sample_cidr_set \<and>
   \<not> matchAnyHeadlessRule sample_env sample_cidr_set
       (nestedMetadata (sample_item\<lparr>rsi_ipCidrMatchSource := True\<rparr>) (sample_conn ''www.example.com'' 443))"
proof -
  have log: "list_all is_logical sample_cidr_set" by (simp add: sample_cidr_set_def)
  have "\<not> matchAnyHeadlessRule sample_env sample_cidr_set
      (nestedMetadata (sample_item\<lparr>rsi_ipCidrMatchSource := False, rsi_ipCidrAcceptEmpty := False\<rparr>)
        (sample_conn ''www.example.com'' 443))"
    by (simp add: matchAnyHeadlessRule_def sample_cidr_set_def abstractDefaultRule_Match_def no_items_def
        Let_def split_beta matchInner_no_set rule_zero_def default_holds_def any_or_none_def dst_items_def
        destinationIPCIDRMatchesDestination_def IPCIDRItem_Match_def ResetRuleCache_def ResetRuleMatchCache_def
        nestedMetadata_def sample_conn_def context_zero_def sample_env_def)
  with match_source_ignored_in_logical_rules [OF log, of sample_env
      "sample_item\<lparr>rsi_ipCidrMatchSource := True\<rparr>" "sample_conn ''www.example.com'' 443"] log
  show ?thesis by simp
qed

subsection \<open>What matching reads and writes\<close>

lemma default_Match_Reset:
  assumes "\<not> mc_IgnoreDestinationIPCIDRMatch c"
  shows "fst (abstractDefaultRule_Match e sets r (ResetRuleMatchCache c)) = fst (abstractDefaultRule_Match e sets r c)"
proof -
  have ign: "\<not> mc_IgnoreDestinationIPCIDRMatch (ResetRuleMatchCache c)"
    using assms by (simp add: ResetRuleMatchCache_def)
  have flag: "mc_IPCIDRMatchSource (ResetRuleMatchCache c) = mc_IPCIDRMatchSource c"
    by (simp add: ResetRuleMatchCache_def)
  have groups: "fst (evaluateGroups e r (ResetRuleMatchCache c)) = fst (evaluateGroups e r c)"
    by (simp add: evaluateGroups_eq src_dst_items [OF ign] src_dst_items [OF assms] flag matchAnyItem_def)
  have "nestedMetadata item ((ResetRuleMatchCache c)\<lparr>mc_DidMatch := b\<rparr>) = nestedMetadata item (c\<lparr>mc_DidMatch := b\<rparr>)"
    for item b by (simp add: nestedMetadata_def)
  then have outer: "matchWithOuterGroups e sets item ((ResetRuleMatchCache c)\<lparr>mc_DidMatch := b\<rparr>) g =
      matchWithOuterGroups e sets item (c\<lparr>mc_DidMatch := b\<rparr>) g" for item b g
    unfolding matchWithOuterGroups_def by presburger
  show ?thesis
    by (cases "r_ruleSetItem r")
      (simp_all add: abstractDefaultRule_Match_fst [OF ign] abstractDefaultRule_Match_fst [OF assms]
        matchInner_fst groups outer)
qed

text \<open>C10: matching a rule changes nothing in the context but the DidMatch mark, which it never
  clears. Unless the context asks to ignore destination IP CIDR items, as only the matching of
  DNS rules against a query does, its verdict does not depend on the match caches (the four
  address and port marks and DidMatch) that earlier rules left.\<close>

theorem rule_Match_frame:
  "(\<exists>did. snd (rule_Match e sets rule c) = c\<lparr>mc_DidMatch := mc_DidMatch c \<or> did\<rparr>) \<and>
   (\<not> mc_IgnoreDestinationIPCIDRMatch c \<longrightarrow>
     fst (rule_Match e sets rule (ResetRuleMatchCache c)) = fst (rule_Match e sets rule c))"
proof (intro conjI impI)
  show "\<exists>did. snd (rule_Match e sets rule c) = c\<lparr>mc_DidMatch := mc_DidMatch c \<or> did\<rparr>"
    using rule_Match_snd [of e sets rule c] by (simp add: mark_def)
  assume "\<not> mc_IgnoreDestinationIPCIDRMatch c"
  moreover have "ResetRuleCache (ResetRuleMatchCache c) = ResetRuleCache c"
    by (simp add: ResetRuleCache_def ResetRuleMatchCache_def)
  ultimately show "fst (rule_Match e sets rule (ResetRuleMatchCache c)) = fst (rule_Match e sets rule c)"
    by (cases rule) (simp_all add: default_Match_Reset Let_def)
qed

text \<open>A context with every match cache set, and an inverted rule that depends on DidMatch if IP CIDR items are ignored.\<close>

definition cached_conn :: "bool \<Rightarrow> inbound_context" where
  "cached_conn ignore = (sample_conn ''www.example.com'' 443)\<lparr>mc_SourceAddressMatch := True, mc_SourcePortMatch := True,
     mc_DestinationAddressMatch := True, mc_DestinationPortMatch := True, mc_DidMatch := True,
     mc_IgnoreDestinationIPCIDRMatch := ignore\<rparr>"

definition inverted_cidr :: "(string list \<times> string list) rule" where
  "inverted_cidr = DefaultRule ((rule_zero True)\<lparr>
     r_destinationIPCIDRItems := [IPCIDRItem [(A4 0xC0A80000, A4 0xC0A8FFFF)] False ''ip_cidr''],
     r_allItems := [IPCIDRItem [(A4 0xC0A80000, A4 0xC0A8FFFF)] False ''ip_cidr'']\<rparr>)"

theorem rule_Match_frame_witness:
  "ResetRuleMatchCache (cached_conn False) \<noteq> cached_conn False \<and>
   fst (rule_Match sample_env no_sets inverted_cidr (cached_conn False)) \<and>
   fst (rule_Match sample_env no_sets inverted_cidr (ResetRuleMatchCache (cached_conn False))) \<and>
   fst (rule_Match sample_env no_sets inverted_cidr (ResetRuleMatchCache (cached_conn True)))
     \<noteq> fst (rule_Match sample_env no_sets inverted_cidr (cached_conn True))"
proof -
  have "ResetRuleMatchCache (cached_conn False) \<noteq> cached_conn False"
    by (simp add: cached_conn_def ResetRuleMatchCache_def sample_conn_def context_zero_def)
  moreover have "fst (rule_Match sample_env no_sets inverted_cidr (cached_conn False))"
    "fst (rule_Match sample_env no_sets inverted_cidr (ResetRuleMatchCache (cached_conn True)))
     \<noteq> fst (rule_Match sample_env no_sets inverted_cidr (cached_conn True))"
    by code_simp+
  moreover have "\<not> mc_IgnoreDestinationIPCIDRMatch (cached_conn False)" by (simp add: cached_conn_def)
  ultimately show ?thesis
    using rule_Match_frame [of sample_env no_sets inverted_cidr "cached_conn False"] by blast
qed

subsection \<open>Rule-set objects\<close>

text \<open>C7: however the rules of a router are started, restarted and closed, and its rule-sets
  reloaded and cleaned up in between, neither Start nor Close panics on a negative reference
  count, the count of a rule-set is the number of references the started rules hold, and a
  rule-set that a started item refers to keeps its rules through Cleanup. The count is a
  32-bit number; this holds as long as the rules name fewer than \<open>2 ^ 31\<close> rule-sets in all.\<close>

theorem rule_set_refs_safe:
  assumes "rs_reach e nm (items, store)" and "few_refs items" and "i < length items"
  shows "RuleSetItem_Start (items ! i) store \<noteq> None \<and> RuleSetItem_Close (items ! i) store \<noteq> None \<and>
     (\<forall>t s. store t = Some s \<longrightarrow> sint (rs_refs s) = total_refs items t) \<and>
     (\<forall>t \<in> set (rsi_setList (items ! i)). \<exists>s. store t = Some s \<and> Cleanup s = s)"
proof -
  have inv: "refs_inv (items, store)" using refs_inv_reach [OF assms(1)] assms(2) by simp
  have counted: "counted (rsi_setList (items ! i)) store" by (rule refs_inv_counted [OF inv assms(3)])
  have "\<exists>s. store t = Some s \<and> Cleanup s = s" if t: "t \<in> set (rsi_setList (items ! i))" for t
  proof -
    from counted t obtain s where s: "store t = Some s" "cnt (rsi_setList (items ! i)) t \<le> sint (rs_refs s)"
      by (auto simp: counted_def)
    have "count_list (rsi_setList (items ! i)) t \<noteq> 0" using t by (simp add: count_list_0_iff)
    then have "0 < cnt (rsi_setList (items ! i)) t" by (simp add: cnt_def)
    with s show ?thesis by (auto simp: Cleanup_def)
  qed
  moreover have "\<forall>t s. store t = Some s \<longrightarrow> sint (rs_refs s) = total_refs items t"
    using inv by (simp add: refs_inv_def)
  ultimately show ?thesis using Start_counted [OF inv assms(2,3)] Close_counted [OF counted] by auto
qed

definition sample_store :: "(string list \<times> string list) ruleset_store" where
  "sample_store = [''geo'' \<mapsto> \<lparr>rs_tag = ''geo'', rs_rules = sample_cidr_set, rs_metadata = buildRuleSetMetadata (sample_sets []),
     rs_callbacks = [], rs_refs = 0\<rparr>]"

text \<open>Two rules on the same set, both started, the first closed again: one reference is left.\<close>

lemma sample_refs_reach:
  "rs_reach sample_env False ([sample_item\<lparr>rsi_setList := []\<rparr>, sample_item],
     sample_store(''geo'' \<mapsto> (the (sample_store ''geo''))\<lparr>rs_refs := 1\<rparr>))"
proof -
  let ?off = "sample_item\<lparr>rsi_setList := []\<rparr>" and ?geo = "\<lambda>n. sample_store(''geo'' \<mapsto> (the (sample_store ''geo''))\<lparr>rs_refs := n\<rparr>)"
  have item: "rsi_tagList sample_item = [''geo'']" "rsi_setList sample_item = [''geo'']" by (simp_all add: sample_item_def)
  have on: "?off\<lparr>rsi_setList := [''geo'']\<rparr> = sample_item" by (simp add: sample_item_def)
  have start: "RuleSetItem_Start ?off (?geo n) = Some (None, sample_item, ?geo (n + 1))" for n
    by (simp add: RuleSetItem_Start_def RuleSetItem_Close_def item on IncRef_def)
  have close: "RuleSetItem_Close sample_item (?geo 2) = Some (?off, ?geo 1)"
    by (simp add: RuleSetItem_Close_def item DecRef_def)
  have "rs_reach sample_env False ([?off, ?off], ?geo 0)"
    by (rule rs_reach.init) (simp_all add: sample_store_def)
  moreover have "rs_step sample_env False ([?off, ?off], ?geo 0) (Some ([sample_item, ?off], ?geo 1))"
    using rs_step.start [of 0 "[?off, ?off]" "?geo 0" _ sample_env False] start [of 0] by simp
  ultimately have "rs_reach sample_env False ([sample_item, ?off], ?geo 1)" by (rule rs_reach.step)
  moreover have "rs_step sample_env False ([sample_item, ?off], ?geo 1) (Some ([sample_item, sample_item], ?geo 2))"
    using rs_step.start [of 1 "[sample_item, ?off]" "?geo 1" _ sample_env False] start [of 1] by simp
  ultimately have "rs_reach sample_env False ([sample_item, sample_item], ?geo 2)" by (rule rs_reach.step)
  moreover have "rs_step sample_env False ([sample_item, sample_item], ?geo 2) (Some ([?off, sample_item], ?geo 1))"
    using rs_step.close [of 0 "[sample_item, sample_item]" "?geo 2" _ sample_env False] close by simp
  ultimately show ?thesis by (rule rs_reach.step)
qed

theorem rule_set_refs_safe_witness:
  "\<exists>s. (sample_store(''geo'' \<mapsto> (the (sample_store ''geo''))\<lparr>rs_refs := 1\<rparr>)) ''geo'' = Some s \<and>
     rs_refs s = 1 \<and> rs_rules s \<noteq> [] \<and> Cleanup s = s \<and>
     RuleSetItem_Close sample_item (sample_store(''geo'' \<mapsto> s)) \<noteq> None"
proof -
  have item: "rsi_tagList sample_item = [''geo'']" "rsi_setList sample_item = [''geo'']" by (simp_all add: sample_item_def)
  have "few_refs [sample_item\<lparr>rsi_setList := []\<rparr>, sample_item]" by (simp add: few_refs_def item)
  from rule_set_refs_safe [OF sample_refs_reach this, of 1] show ?thesis
    by (simp add: item sample_store_def sample_cidr_set_def)
qed

text \<open>C11: after a successful reload the metadata flag for IP CIDR rules is set exactly when IP
  sets can be extracted from the rules.\<close>

theorem metadata_matches_extraction:
  assumes "reloadRules e nm validate headlessRules s = (None, s', called)"
  shows "ContainsIPCIDRRule (rs_metadata s') \<longleftrightarrow> ExtractIPSet s' \<noteq> []"
  using assms build_rules_extract [of e nm 0 headlessRules]
  by (auto simp: reloadRules_def Let_def buildRuleSetMetadata_def ExtractIPSet_def
      split: sum.splits option.splits)

theorem metadata_matches_extraction_witness:
  "\<exists>s'. fst (reloadRules sample_env False (\<lambda>_ _. None) [DefaultHeadless (headless_rule_zero\<lparr>h_IPSet := Some []\<rparr>)]
      (the (sample_store ''geo''))) = None \<and>
    s' = fst (snd (reloadRules sample_env False (\<lambda>_ _. None)
      [DefaultHeadless (headless_rule_zero\<lparr>h_IPSet := Some []\<rparr>)] (the (sample_store ''geo'')))) \<and>
    ContainsIPCIDRRule (rs_metadata s') \<and> ExtractIPSet s' \<noteq> []"
proof -
  let ?os = "[DefaultHeadless (headless_rule_zero\<lparr>h_IPSet := Some []\<rparr>)] ::
    (string list \<times> string list) headless_options list"
  let ?res = "reloadRules sample_env False (\<lambda>_ _. None) ?os (the (sample_store ''geo''))"
  obtain err s' called where res: "?res = (err, s', called)" by (cases ?res)
  have "\<exists>rules. build_rules sample_env False 0 ?os = Inr rules"
    by (simp add: DefaultHeadlessRule_IsValid_def NewDefaultHeadlessRule_def headless_rule_zero_def
        headless_steps_def headless_steps_address_def headless_steps_port_process_def headless_steps_network_def)
  then have ok: "err = None" and meta: "rs_metadata s' = buildRuleSetMetadata ?os"
    using res by (auto simp: reloadRules_def Let_def)
  have "ContainsIPCIDRRule (rs_metadata s')"
    by (simp add: meta buildRuleSetMetadata_def isIPCIDRHeadlessRule_def)
  with metadata_matches_extraction [OF res [unfolded ok]] res ok show ?thesis by auto
qed

subsection \<open>Actions\<close>

text \<open>Without the flooding check every answer is the same and the counter is left alone.\<close>

definition fixed_answer :: "string \<Rightarrow> reject_error" where
  "fixed_answer method = (if method = ''drop'' then ErrDrop else if method = ''reply'' then ErrNil
     else if method \<noteq> ''default'' then ErrPanic else ErrReset)"

lemma reject_run_fixed:
  assumes "\<not> (method = ''default'' \<and> \<not> noDrop)"
  shows "reject_run method noDrop ts counter = (replicate (length ts) (fixed_answer method), counter)"
proof -
  have "RuleActionReject_Error method noDrop t counter = (fixed_answer method, counter)" for t
    using assms unfolding RuleActionReject_Error_def fixed_answer_def Let_def by presburger
  then show ?thesis by (induction ts) simp_all
qed

text \<open>C8: the answers of a reject action to any sequence of rejections at non-decreasing times.
  With the default method and without no_drop, the last rejection is answered by a drop if and
  only if more than 50 of them, itself included, lie in the window of 30 seconds that ends with
  it, else by a reset, and the action remembers just the rejections of that window. With
  no_drop every rejection is a reset, with method drop every one a drop, with method reply none
  has an error, and any other method panics; none of these remembers anything.\<close>

theorem reject_flooding:
  assumes "sorted (ts @ [now])"
  shows "last (fst (reject_run method noDrop (ts @ [now]) [])) =
      (if method = ''drop'' then ErrDrop
       else if method = ''reply'' then ErrNil
       else if method \<noteq> ''default'' then ErrPanic
       else if noDrop then ErrReset
       else if 50 < length (recent (ts @ [now]) now) then ErrDrop else ErrReset) \<and>
    snd (reject_run method noDrop (ts @ [now]) []) =
      (if method = ''default'' \<and> \<not> noDrop then recent (ts @ [now]) now else [])"
proof (cases "method = ''default'' \<and> \<not> noDrop")
  case True
  then show ?thesis using reject_run_default [OF assms] by simp
next
  case False
  then show ?thesis using reject_run_fixed [OF False, of "ts @ [now]" "[]"] by (simp add: fixed_answer_def)
qed

theorem reject_flooding_witness:
  "last (fst (reject_run ''default'' False (replicate 50 0 @ [0]) [])) = ErrDrop \<and>
   last (fst (reject_run ''default'' False (replicate 49 0 @ [0]) [])) = ErrReset \<and>
   last (fst (reject_run ''default'' True (replicate 50 0 @ [0]) [])) = ErrReset \<and>
   last (fst (reject_run ''drop'' False ([] @ [0]) [])) = ErrDrop"
proof -
  have sorted: "sorted (replicate n (0::int) @ [0])" for n by (simp add: sorted_append)
  have len: "length (recent (replicate n (0::int) @ [0]) 0) = Suc n" for n
    by (simp add: recent_def drop_window_def)
  show ?thesis
    using reject_flooding [OF sorted [of 50], of "''default''" False] reject_flooding [OF sorted [of 49], of "''default''" False]
      reject_flooding [OF sorted [of 50], of "''default''" True] reject_flooding [of "[]" 0 "''drop''" False]
    by (simp add: len del: reject_run.simps)
qed

end
