(* ===== verification/Fakeip.thy ===== *)
theory Fakeip
  imports Netip
begin

text \<open>
  The FakeIP store: \<^verbatim>\<open>dns/transport/fakeip/store.go\<close> and \<^verbatim>\<open>memory.go\<close>. The store
  allocates addresses of its ranges to domains and keeps the mapping in a storage, an
  interface (\<^verbatim>\<open>adapter.FakeIPStorage\<close>) with an in-memory and a file implementation. The
  interface is the record \<open>storage_ops\<close> of functions on a storage state; what the store
  relies on is the locale \<open>fakeip_storage\<close>, which the in-memory storage satisfies.
\<close>

unbundle bit_operations_syntax

subsection \<open>The storage interface\<close>

record FakeIPMetadata =
  md_Inet4Range :: netip_prefix
  md_Inet6Range :: netip_prefix
  md_Inet4Current :: netip_addr
  md_Inet6Current :: netip_addr

record 's storage_ops =
  fs_Metadata :: "'s \<Rightarrow> FakeIPMetadata option"
  fs_SaveMetadata :: "FakeIPMetadata \<Rightarrow> 's \<Rightarrow> error option \<times> 's"
  fs_SaveMetadataAsync :: "FakeIPMetadata \<Rightarrow> 's \<Rightarrow> 's"
  fs_Store :: "netip_addr \<Rightarrow> string \<Rightarrow> 's \<Rightarrow> error option \<times> 's"
  fs_Load :: "netip_addr \<Rightarrow> 's \<Rightarrow> string option"
  fs_LoadDomain :: "string \<Rightarrow> bool \<Rightarrow> 's \<Rightarrow> netip_addr option"
  fs_Reset :: "'s \<Rightarrow> error option \<times> 's"

subsection \<open>The in-memory storage\<close>

record MemoryStorage =
  addressCache :: "netip_addr \<rightharpoonup> string"
  domainCache4 :: "string \<rightharpoonup> netip_addr"
  domainCache6 :: "string \<rightharpoonup> netip_addr"

definition NewMemoryStorage :: MemoryStorage where
  "NewMemoryStorage = \<lparr>addressCache = Map.empty, domainCache4 = Map.empty, domainCache6 = Map.empty\<rparr>"

definition mem_FakeIPMetadata :: "MemoryStorage \<Rightarrow> FakeIPMetadata option" where
  "mem_FakeIPMetadata s = None"

definition mem_FakeIPSaveMetadata :: "FakeIPMetadata \<Rightarrow> MemoryStorage \<Rightarrow> error option \<times> MemoryStorage" where
  "mem_FakeIPSaveMetadata metadata s = (None, s)"

definition mem_FakeIPSaveMetadataAsync :: "FakeIPMetadata \<Rightarrow> MemoryStorage \<Rightarrow> MemoryStorage" where
  "mem_FakeIPSaveMetadataAsync metadata s = s"

definition mem_FakeIPStore :: "netip_addr \<Rightarrow> string \<Rightarrow> MemoryStorage \<Rightarrow> error option \<times> MemoryStorage" where
  "mem_FakeIPStore address domain s =
     (let s = (case addressCache s address of
                 Some oldDomain \<Rightarrow>
                   if addr_Is4 address then s\<lparr>domainCache4 := (domainCache4 s)(oldDomain := None)\<rparr>
                   else s\<lparr>domainCache6 := (domainCache6 s)(oldDomain := None)\<rparr>
               | None \<Rightarrow> s);
          s = s\<lparr>addressCache := (addressCache s)(address \<mapsto> domain)\<rparr>;
          s = (if addr_Is4 address then s\<lparr>domainCache4 := (domainCache4 s)(domain \<mapsto> address)\<rparr>
               else s\<lparr>domainCache6 := (domainCache6 s)(domain \<mapsto> address)\<rparr>)
      in (None, s))"

definition mem_FakeIPLoad :: "netip_addr \<Rightarrow> MemoryStorage \<Rightarrow> string option" where
  "mem_FakeIPLoad address s = addressCache s address"

definition mem_FakeIPLoadDomain :: "string \<Rightarrow> bool \<Rightarrow> MemoryStorage \<Rightarrow> netip_addr option" where
  "mem_FakeIPLoadDomain domain isIPv6 s =
     (if \<not> isIPv6 then domainCache4 s domain else domainCache6 s domain)"

definition mem_FakeIPReset :: "MemoryStorage \<Rightarrow> error option \<times> MemoryStorage" where
  "mem_FakeIPReset s = (None, NewMemoryStorage)"

definition memory_ops :: "MemoryStorage storage_ops" where
  "memory_ops = \<lparr>
     fs_Metadata = mem_FakeIPMetadata, fs_SaveMetadata = mem_FakeIPSaveMetadata,
     fs_SaveMetadataAsync = mem_FakeIPSaveMetadataAsync, fs_Store = mem_FakeIPStore,
     fs_Load = mem_FakeIPLoad, fs_LoadDomain = mem_FakeIPLoadDomain, fs_Reset = mem_FakeIPReset\<rparr>"

subsection \<open>The store\<close>

record 's Store =
  inet4Range :: netip_prefix
  inet6Range :: netip_prefix
  inet4Last :: netip_addr
  inet6Last :: netip_addr
  inet4Current :: netip_addr
  inet6Current :: netip_addr
  storage :: "'s option"

text \<open>\<^verbatim>\<open>broadcastAddress\<close>: byte \<open>i/8\<close>, bit \<open>7 - i%8\<close> of the 16 bytes is bit
  \<open>127 - i\<close> of the address as a word.\<close>

definition broadcastAddress :: "netip_prefix \<Rightarrow> netip_addr" where
  "broadcastAddress prefix =
     (let addr = pfx_ip prefix;
          bits = prefix_Bits prefix + (if addr_Is4 addr then 96 else 0);
          raw = fold (\<lambda>i raw. raw OR push_bit (127 - i) 1) [bits..<128] (addr_As16 addr)
      in if addr_Is4 addr then A4 (ucast raw) else A6 raw [])"

definition NewStore :: "netip_prefix \<Rightarrow> netip_prefix \<Rightarrow> 's Store" where
  "NewStore range4 range6 = \<lparr>
     inet4Range = range4, inet6Range = range6,
     inet4Last = (if prefix_IsValid range4 then broadcastAddress range4 else addr_zero),
     inet6Last = (if prefix_IsValid range6 then broadcastAddress range6 else addr_zero),
     inet4Current = addr_zero, inet6Current = addr_zero, storage = None\<rparr>"

text \<open>\<^verbatim>\<open>Start\<close> on the storage it selects.\<close>

definition Store_Start :: "'s storage_ops \<Rightarrow> 's \<Rightarrow> 's Store \<Rightarrow> 's Store" where
  "Store_Start ops st s =
     (case fs_Metadata ops st of
        Some metadata \<Rightarrow>
          if md_Inet4Range metadata = inet4Range s \<and> md_Inet6Range metadata = inet6Range s
          then s\<lparr>inet4Current := md_Inet4Current metadata, inet6Current := md_Inet6Current metadata,
                 storage := Some st\<rparr>
          else s\<lparr>inet4Current := (if prefix_IsValid (inet4Range s) then addr_Next (pfx_ip (inet4Range s)) else inet4Current s),
                 inet6Current := (if prefix_IsValid (inet6Range s) then addr_Next (pfx_ip (inet6Range s)) else inet6Current s),
                 storage := Some (snd (fs_Reset ops st))\<rparr>
      | None \<Rightarrow>
          s\<lparr>inet4Current := (if prefix_IsValid (inet4Range s) then addr_Next (pfx_ip (inet4Range s)) else inet4Current s),
             inet6Current := (if prefix_IsValid (inet6Range s) then addr_Next (pfx_ip (inet6Range s)) else inet6Current s),
             storage := Some (snd (fs_Reset ops st))\<rparr>)"

definition Store_Contains :: "'s Store \<Rightarrow> netip_addr \<Rightarrow> bool" where
  "Store_Contains s address =
     (prefix_Contains (inet4Range s) address \<or> prefix_Contains (inet6Range s) address)"

definition store_metadata :: "'s Store \<Rightarrow> FakeIPMetadata" where
  "store_metadata s = \<lparr>md_Inet4Range = inet4Range s, md_Inet6Range = inet6Range s,
     md_Inet4Current = inet4Current s, md_Inet6Current = inet6Current s\<rparr>"

definition Store_Close :: "'s storage_ops \<Rightarrow> 's Store \<Rightarrow> error option \<times> 's Store" where
  "Store_Close ops s =
     (case storage s of
        None \<Rightarrow> (None, s)
      | Some st \<Rightarrow>
          (let (err, st) = fs_SaveMetadata ops (store_metadata s) st in (err, s\<lparr>storage := Some st\<rparr>)))"

definition next_address :: "netip_prefix \<Rightarrow> netip_addr \<Rightarrow> netip_addr \<Rightarrow> netip_addr" where
  "next_address inetRange inetLast current =
     (let nextAddress = addr_Next current in
      if nextAddress = inetLast \<or> \<not> prefix_Contains inetRange nextAddress
      then addr_Next (addr_Next (pfx_ip inetRange)) else nextAddress)"

text \<open>
  \<^verbatim>\<open>Create\<close>. The part after the lock is one atomic step; the first lookup happens before
  it, and is repeated under the lock. A store that is not started has no storage and panics
  on the nil interface: that is \<open>None\<close>.
\<close>

definition Create_locked ::
  "'s storage_ops \<Rightarrow> string \<Rightarrow> bool \<Rightarrow> 's Store \<Rightarrow> 's \<Rightarrow> netip_addr result \<times> 's Store" where
  "Create_locked ops domain isIPv6 s st =
     (case fs_LoadDomain ops domain isIPv6 st of
        Some address \<Rightarrow> (Inr address, s)
      | None \<Rightarrow>
          if \<not> isIPv6 \<and> \<not> addr_IsValid (inet4Current s)
          then (Inl (E_New ''missing IPv4 fakeip address range''), s)
          else if isIPv6 \<and> \<not> addr_IsValid (inet6Current s)
          then (Inl (E_New ''missing IPv6 fakeip address range''), s)
          else
            let address = (if \<not> isIPv6 then next_address (inet4Range s) (inet4Last s) (inet4Current s)
                           else next_address (inet6Range s) (inet6Last s) (inet6Current s));
                s = (if \<not> isIPv6 then s\<lparr>inet4Current := address\<rparr> else s\<lparr>inet6Current := address\<rparr>);
                st = snd (fs_Store ops address domain st);
                st = fs_SaveMetadataAsync ops (store_metadata s) st
            in (Inr address, s\<lparr>storage := Some st\<rparr>))"

definition Store_Create ::
  "'s storage_ops \<Rightarrow> string \<Rightarrow> bool \<Rightarrow> 's Store \<Rightarrow> (netip_addr result \<times> 's Store) option" where
  "Store_Create ops domain isIPv6 s =
     (case storage s of
        None \<Rightarrow> None
      | Some st \<Rightarrow>
          (case fs_LoadDomain ops domain isIPv6 st of
             Some address \<Rightarrow> Some (Inr address, s)
           | None \<Rightarrow> Some (Create_locked ops domain isIPv6 s st)))"

definition Store_Lookup :: "'s storage_ops \<Rightarrow> netip_addr \<Rightarrow> 's Store \<Rightarrow> string option option" where
  "Store_Lookup ops address s = map_option (fs_Load ops address) (storage s)"

definition Store_Reset :: "'s storage_ops \<Rightarrow> 's Store \<Rightarrow> (error option \<times> 's Store) option" where
  "Store_Reset ops s =
     (case storage s of
        None \<Rightarrow> None
      | Some st \<Rightarrow> (let (err, st) = fs_Reset ops st in Some (err, s\<lparr>storage := Some st\<rparr>)))"

subsection \<open>What the store relies on\<close>

locale fakeip_storage =
  fixes ops :: "'s storage_ops" and sinv :: "'s \<Rightarrow> bool"
  assumes reset: "sinv (snd (fs_Reset ops st))" "fs_Load ops a (snd (fs_Reset ops st)) = None"
    and lookup: "sinv st \<Longrightarrow> fs_LoadDomain ops d v6 st = Some a \<longleftrightarrow> fs_Load ops a st = Some d \<and> addr_Is4 a = (\<not> v6)"
    and store: "sinv st \<Longrightarrow> fs_LoadDomain ops d (\<not> addr_Is4 a) st = None \<Longrightarrow> sinv (snd (fs_Store ops a d st))"
      "fs_Load ops b (snd (fs_Store ops a d st)) = (if b = a then Some d else fs_Load ops b st)"
    and async: "sinv st \<Longrightarrow> sinv (fs_SaveMetadataAsync ops md st)"
      "fs_Load ops b (fs_SaveMetadataAsync ops md st) = fs_Load ops b st"
    and save: "sinv st \<Longrightarrow> sinv (snd (fs_SaveMetadata ops md st))"
      "fs_Load ops b (snd (fs_SaveMetadata ops md st)) = fs_Load ops b st"
begin

lemma load_inj:
  assumes "sinv st" "fs_Load ops a st = Some d" "fs_Load ops b st = Some d" "addr_Is4 a = addr_Is4 b"
  shows "a = b"
  using assms lookup [of st d "\<not> addr_Is4 a"] by (metis option.inject)

end

definition mem_inv :: "MemoryStorage \<Rightarrow> bool" where
  "mem_inv s \<longleftrightarrow>
     (\<forall>d a. domainCache4 s d = Some a \<longleftrightarrow> addressCache s a = Some d \<and> addr_Is4 a) \<and>
     (\<forall>d a. domainCache6 s d = Some a \<longleftrightarrow> addressCache s a = Some d \<and> \<not> addr_Is4 a)"

lemmas mem_defs = mem_FakeIPMetadata_def mem_FakeIPSaveMetadata_def mem_FakeIPSaveMetadataAsync_def
  mem_FakeIPStore_def mem_FakeIPLoad_def mem_FakeIPLoadDomain_def mem_FakeIPReset_def

lemma mem_inv_store:
  assumes "mem_inv s" and "mem_FakeIPLoadDomain d (\<not> addr_Is4 a) s = None"
  shows "mem_inv (snd (mem_FakeIPStore a d s))"
proof -
  have i4: "\<And>d a. domainCache4 s d = Some a \<longleftrightarrow> addressCache s a = Some d \<and> addr_Is4 a"
    and i6: "\<And>d a. domainCache6 s d = Some a \<longleftrightarrow> addressCache s a = Some d \<and> \<not> addr_Is4 a"
    using assms(1) by (simp_all add: mem_inv_def)
  show ?thesis
  proof (cases "addr_Is4 a")
    case True
    with assms(2) have new: "domainCache4 s d = None" by (simp add: mem_FakeIPLoadDomain_def)
    show ?thesis
      using True new i4 i6
      by (auto simp: mem_inv_def mem_FakeIPStore_def Let_def split: option.splits if_splits)
        (metis option.distinct(1) option.inject)+
  next
    case False
    with assms(2) have new: "domainCache6 s d = None" by (simp add: mem_FakeIPLoadDomain_def)
    show ?thesis
      using False new i4 i6
      by (auto simp: mem_inv_def mem_FakeIPStore_def Let_def split: option.splits if_splits)
        (metis option.distinct(1) option.inject)+
  qed
qed

interpretation memory: fakeip_storage memory_ops mem_inv
proof
  show "mem_inv (snd (fs_Reset memory_ops st))" for st
    by (simp add: memory_ops_def mem_defs mem_inv_def NewMemoryStorage_def)
  show "fs_Load memory_ops a (snd (fs_Reset memory_ops st)) = None" for a st
    by (simp add: memory_ops_def mem_defs NewMemoryStorage_def)
  show "mem_inv st \<Longrightarrow> (fs_LoadDomain memory_ops d v6 st = Some a) =
      (fs_Load memory_ops a st = Some d \<and> addr_Is4 a = (\<not> v6))" for st d v6 a
    by (auto simp: memory_ops_def mem_defs mem_inv_def)
  show "mem_inv st \<Longrightarrow> fs_LoadDomain memory_ops d (\<not> addr_Is4 a) st = None \<Longrightarrow>
      mem_inv (snd (fs_Store memory_ops a d st))" for st d a
    using mem_inv_store [of st d a] by (simp add: memory_ops_def)
  show "fs_Load memory_ops b (snd (fs_Store memory_ops a d st)) =
      (if b = a then Some d else fs_Load memory_ops b st)" for b a d st
    by (auto simp: memory_ops_def mem_defs Let_def split: option.splits)
qed (simp_all add: memory_ops_def mem_defs)

subsection \<open>Allocation\<close>

text \<open>A range is large enough if the second address after its own is inside and is not the
  last one.\<close>

definition good_range :: "netip_prefix \<Rightarrow> bool" where
  "good_range p \<longleftrightarrow>
     prefix_Contains p (addr_Next (addr_Next (pfx_ip p))) \<and>
     addr_Next (addr_Next (pfx_ip p)) \<noteq> broadcastAddress p"

definition good_config :: "netip_prefix \<Rightarrow> netip_prefix \<Rightarrow> bool" where
  "good_config r4 r6 \<longleftrightarrow>
     (prefix_IsValid r4 \<longrightarrow> addr_Is4 (pfx_ip r4) \<and> good_range r4) \<and>
     (prefix_IsValid r6 \<longrightarrow> addr_Is6 (pfx_ip r6) \<and> good_range r6)"

text \<open>An address the store may hand out.\<close>

definition allocatable :: "netip_prefix \<Rightarrow> netip_addr \<Rightarrow> bool" where
  "allocatable p a \<longleftrightarrow> prefix_Contains p a \<and> a \<noteq> broadcastAddress p"

lemma next_address_allocatable:
  "good_range p \<Longrightarrow> allocatable p (next_address p (broadcastAddress p) current)"
  by (auto simp: next_address_def good_range_def allocatable_def Let_def)

lemma allocatable_family:
  "allocatable p a \<Longrightarrow> addr_Is4 a = addr_Is4 (pfx_ip p) \<and> addr_IsValid a"
  using prefix_Contains_family prefix_Contains_valid by (auto simp: allocatable_def)

definition store_inv ::
  "'s storage_ops \<Rightarrow> ('s \<Rightarrow> bool) \<Rightarrow> netip_prefix \<Rightarrow> netip_prefix \<Rightarrow> 's Store \<Rightarrow> bool" where
  "store_inv ops sinv r4 r6 s \<longleftrightarrow>
     inet4Range s = r4 \<and> inet6Range s = r6 \<and>
     (prefix_IsValid r4 \<longrightarrow> inet4Last s = broadcastAddress r4) \<and>
     (prefix_IsValid r6 \<longrightarrow> inet6Last s = broadcastAddress r6) \<and>
     addr_IsValid (inet4Current s) = prefix_IsValid r4 \<and>
     addr_IsValid (inet6Current s) = prefix_IsValid r6 \<and>
     (\<exists>st. storage s = Some st \<and> sinv st \<and>
        (\<forall>a d. fs_Load ops a st = Some d \<longrightarrow> allocatable (if addr_Is4 a then r4 else r6) a))"

definition range_of :: "netip_prefix \<Rightarrow> netip_prefix \<Rightarrow> bool \<Rightarrow> netip_prefix" where
  "range_of r4 r6 v6 = (if v6 then r6 else r4)"

lemma Next_valid_of_good: "good_range p \<Longrightarrow> addr_IsValid (addr_Next (pfx_ip p))"
proof -
  assume "good_range p"
  then have "addr_IsValid (addr_Next (addr_Next (pfx_ip p)))"
    by (auto simp: good_range_def dest: prefix_Contains_valid)
  then show ?thesis by (cases "pfx_ip p") (auto split: if_splits)
qed

context fakeip_storage
begin

lemma store_inv_start:
  assumes cfg: "good_config r4 r6" and none: "fs_Metadata ops st = None"
    and s: "s = NewStore r4 r6 \<or> store_inv ops sinv r4 r6 s"
  shows "store_inv ops sinv r4 r6 (Store_Start ops st s)"
proof -
  have "good_range r4" if "prefix_IsValid r4" using cfg that by (simp add: good_config_def)
  moreover have "good_range r6" if "prefix_IsValid r6" using cfg that by (simp add: good_config_def)
  ultimately show ?thesis
    using s reset Next_valid_of_good [of r4] Next_valid_of_good [of r6]
    by (auto simp: Store_Start_def none store_inv_def NewStore_def)
qed

text \<open>One call of \<^verbatim>\<open>Create\<close>.\<close>

lemma Create_cases:
  assumes s: "store_inv ops sinv r4 r6 s" and st: "storage s = Some st"
  obtains
    (known) a where "fs_LoadDomain ops d v6 st = Some a" "Store_Create ops d v6 s = Some (Inr a, s)"
  | (missing) err where "\<not> prefix_IsValid (range_of r4 r6 v6)" "Store_Create ops d v6 s = Some (Inl err, s)"
  | (fresh) a md s1 where "prefix_IsValid (range_of r4 r6 v6)" "fs_LoadDomain ops d v6 st = None"
      "a = (if v6 then next_address r6 (broadcastAddress r6) (inet6Current s)
            else next_address r4 (broadcastAddress r4) (inet4Current s))"
      "s1 = (if v6 then s\<lparr>inet6Current := a\<rparr> else s\<lparr>inet4Current := a\<rparr>)"
      "Store_Create ops d v6 s =
         Some (Inr a, s1\<lparr>storage := Some (fs_SaveMetadataAsync ops md (snd (fs_Store ops a d st)))\<rparr>)"
proof (cases "fs_LoadDomain ops d v6 st")
  case (Some a)
  then show ?thesis using known st by (simp add: Store_Create_def)
next
  case None
  show ?thesis
  proof (cases "prefix_IsValid (range_of r4 r6 v6)")
    case False
    with None s st show ?thesis
      by (cases v6) (auto simp: Store_Create_def Create_locked_def store_inv_def range_of_def intro!: missing)
  next
    case True
    let ?a = "if v6 then next_address r6 (broadcastAddress r6) (inet6Current s)
            else next_address r4 (broadcastAddress r4) (inet4Current s)"
    let ?s1 = "if v6 then s\<lparr>inet6Current := ?a\<rparr> else s\<lparr>inet4Current := ?a\<rparr>"
    have "Store_Create ops d v6 s =
         Some (Inr ?a, ?s1\<lparr>storage := Some (fs_SaveMetadataAsync ops (store_metadata ?s1) (snd (fs_Store ops ?a d st)))\<rparr>)"
      using True None s st
      by (cases v6) (auto simp: Store_Create_def Create_locked_def store_inv_def range_of_def Let_def)
    with True None show ?thesis by (intro fresh) auto
  qed
qed

lemma store_inv_create:
  assumes cfg: "good_config r4 r6" and s: "store_inv ops sinv r4 r6 s"
    and run: "Store_Create ops d v6 s = Some (res, s')"
  shows "store_inv ops sinv r4 r6 s'"
    and "res = Inr a \<Longrightarrow> Store_Lookup ops a s' = Some (Some d) \<and> allocatable (range_of r4 r6 v6) a \<and>
           Store_Create ops d v6 s' = Some (Inr a, s')"
    and "res = Inr a \<Longrightarrow> b \<noteq> a \<Longrightarrow> Store_Lookup ops b s' = Store_Lookup ops b s"
    and "(\<exists>a. res = Inr a) \<longleftrightarrow> prefix_IsValid (range_of r4 r6 v6)"
proof -
  obtain st where st: "storage s = Some st" and sinv: "sinv st"
    and held: "\<And>a d. fs_Load ops a st = Some d \<Longrightarrow> allocatable (if addr_Is4 a then r4 else r6) a"
    using s by (auto simp: store_inv_def)
  from s st have goal: "store_inv ops sinv r4 r6 s' \<and>
      (\<forall>a. res = Inr a \<longrightarrow> Store_Lookup ops a s' = Some (Some d) \<and> allocatable (range_of r4 r6 v6) a \<and>
           Store_Create ops d v6 s' = Some (Inr a, s')) \<and>
      (\<forall>a b. res = Inr a \<longrightarrow> b \<noteq> a \<longrightarrow> Store_Lookup ops b s' = Store_Lookup ops b s) \<and>
      ((\<exists>a. res = Inr a) \<longleftrightarrow> prefix_IsValid (range_of r4 r6 v6))"
  proof (cases rule: Create_cases [where d = d and ?v6.0 = v6])
    case (known a)
    then have "fs_Load ops a st = Some d" "addr_Is4 a = (\<not> v6)" using lookup [OF sinv] by simp_all
    with held [of a d] have alloc: "allocatable (range_of r4 r6 v6) a" by (cases v6) (auto simp: range_of_def)
    then have "prefix_IsValid (range_of r4 r6 v6)"
      by (auto simp: allocatable_def prefix_Contains_def split: if_splits)
    with known run st s alloc \<open>fs_Load ops a st = Some d\<close> show ?thesis by (auto simp: Store_Lookup_def)
  next
    case (missing err)
    with run s show ?thesis by auto
  next
    case (fresh a md s1)
    have good: "good_range (range_of r4 r6 v6)" and fam: "addr_Is4 (pfx_ip (range_of r4 r6 v6)) = (\<not> v6)"
      using cfg fresh(1) by (cases v6; cases "pfx_ip r6"; auto simp: good_config_def range_of_def)+
    have alloc: "allocatable (range_of r4 r6 v6) a"
      using next_address_allocatable [OF good] fresh(3) by (auto simp: range_of_def)
    have is4: "addr_Is4 a = (\<not> v6)" and valid: "addr_IsValid a" using allocatable_family [OF alloc] fam by auto
    let ?st = "fs_SaveMetadataAsync ops md (snd (fs_Store ops a d st))"
    have sinv': "sinv ?st" using async(1) store(1) [OF sinv] fresh(2) is4 by simp
    have load: "fs_Load ops b ?st = (if b = a then Some d else fs_Load ops b st)" for b
      using async(2) store(2) by simp
    have s': "s' = s1\<lparr>storage := Some ?st\<rparr>" and res: "res = Inr a" using fresh(5) run by auto
    have again: "fs_LoadDomain ops d v6 ?st = Some a" using lookup [OF sinv'] load is4 by simp
    have all: "allocatable (if addr_Is4 b then r4 else r6) b" if "fs_Load ops b ?st = Some e" for b e
    proof (cases "b = a")
      case True
      then show ?thesis using alloc is4 by (cases v6) (auto simp: range_of_def)
    next
      case False
      then show ?thesis using that load [of b] held [of b e] by simp
    qed
    have all': "\<forall>b e. fs_Load ops b ?st = Some e \<longrightarrow> allocatable (if addr_Is4 b then r4 else r6) b"
      using all by blast
    have "store_inv ops sinv r4 r6 s'"
    proof (cases v6)
      case True
      with fresh(1,4) have "s1 = s\<lparr>inet6Current := a\<rparr>" "prefix_IsValid r6" by (simp_all add: range_of_def)
      then show ?thesis
        using s sinv' all' valid unfolding s' store_inv_def by (simp split del: if_split)
    next
      case False
      with fresh(1,4) have "s1 = s\<lparr>inet4Current := a\<rparr>" "prefix_IsValid r4" by (simp_all add: range_of_def)
      then show ?thesis
        using s sinv' all' valid unfolding s' store_inv_def by (simp split del: if_split)
    qed
    moreover have "Store_Lookup ops b s' = (if b = a then Some (Some d) else Store_Lookup ops b s)" for b
      using load st by (simp add: s' Store_Lookup_def)
    moreover have "Store_Create ops d v6 s' = Some (Inr a, s')"
      using again by (simp add: Store_Create_def s')
    ultimately show ?thesis using res alloc fresh(1) by auto
  qed
  from goal show "store_inv ops sinv r4 r6 s'" by blast
  from goal show "res = Inr a \<Longrightarrow> Store_Lookup ops a s' = Some (Some d) \<and> allocatable (range_of r4 r6 v6) a \<and>
           Store_Create ops d v6 s' = Some (Inr a, s')" by blast
  from goal show "res = Inr a \<Longrightarrow> b \<noteq> a \<Longrightarrow> Store_Lookup ops b s' = Store_Lookup ops b s" by blast
  from goal show "(\<exists>a. res = Inr a) \<longleftrightarrow> prefix_IsValid (range_of r4 r6 v6)" by blast
qed

lemma store_inv_storage:
  assumes s: "store_inv ops sinv r4 r6 s" and st: "sinv st"
    and held: "\<And>a d. fs_Load ops a st = Some d \<Longrightarrow> (\<exists>st0. storage s = Some st0 \<and> fs_Load ops a st0 = Some d)"
  shows "store_inv ops sinv r4 r6 (s\<lparr>storage := Some st\<rparr>)"
proof -
  have "\<forall>a d. fs_Load ops a st = Some d \<longrightarrow> allocatable (if addr_Is4 a then r4 else r6) a"
    using s held unfolding store_inv_def by (metis option.inject)
  with s st show ?thesis unfolding store_inv_def by (simp split del: if_split)
qed

lemma store_inv_reset:
  assumes s: "store_inv ops sinv r4 r6 s" and run: "Store_Reset ops s = Some (err, s')"
  shows "store_inv ops sinv r4 r6 s'"
proof -
  obtain st where "storage s = Some st" using s by (auto simp: store_inv_def)
  with run have "s' = s\<lparr>storage := Some (snd (fs_Reset ops st))\<rparr>"
    by (auto simp: Store_Reset_def split_beta)
  then show ?thesis using store_inv_storage [OF s reset(1)] reset(2) by simp
qed

lemma store_inv_close:
  assumes s: "store_inv ops sinv r4 r6 s"
  shows "store_inv ops sinv r4 r6 (snd (Store_Close ops s))"
proof -
  obtain st where st: "storage s = Some st" "sinv st" using s by (auto simp: store_inv_def)
  then have "snd (Store_Close ops s) = s\<lparr>storage := Some (snd (fs_SaveMetadata ops (store_metadata s) st))\<rparr>"
    by (simp add: Store_Close_def split_beta)
  then show ?thesis using store_inv_storage [OF s save(1) [OF st(2)]] save(2) st(1) by simp
qed

end

subsection \<open>The states a store can be in\<close>

text \<open>A started store, and every state later calls lead to; \<open>st\<close> is the storage
  \<^verbatim>\<open>Start\<close> selects. Each call holds the lock, so calls are steps.\<close>

inductive fakeip_reach :: "'s storage_ops \<Rightarrow> netip_prefix \<Rightarrow> netip_prefix \<Rightarrow> 's Store \<Rightarrow> bool"
  for ops r4 r6
where
  start: "fs_Metadata ops st = None \<Longrightarrow> fakeip_reach ops r4 r6 (Store_Start ops st (NewStore r4 r6))"
| restart: "fakeip_reach ops r4 r6 s \<Longrightarrow> fs_Metadata ops st = None \<Longrightarrow>
    fakeip_reach ops r4 r6 (Store_Start ops st s)"
| create: "fakeip_reach ops r4 r6 s \<Longrightarrow> Store_Create ops d v6 s = Some (res, s') \<Longrightarrow> fakeip_reach ops r4 r6 s'"
| reset: "fakeip_reach ops r4 r6 s \<Longrightarrow> Store_Reset ops s = Some (err, s') \<Longrightarrow> fakeip_reach ops r4 r6 s'"
| close: "fakeip_reach ops r4 r6 s \<Longrightarrow> fakeip_reach ops r4 r6 (snd (Store_Close ops s))"

context fakeip_storage
begin

lemma store_inv_reach:
  assumes "fakeip_reach ops r4 r6 s" and "good_config r4 r6"
  shows "store_inv ops sinv r4 r6 s"
  using assms
proof (induction rule: fakeip_reach.induct)
  case (start st)
  then show ?case using store_inv_start by blast
next
  case (restart s st)
  then show ?case using store_inv_start by blast
next
  case (create s d v6 res s')
  then show ?case using store_inv_create(1) by blast
next
  case (reset s err s')
  then show ?case using store_inv_reset by blast
next
  case (close s)
  then show ?case using store_inv_close by blast
qed

text \<open>Two addresses of one family never stand for the same domain.\<close>

lemma reach_lookup_inj:
  assumes "fakeip_reach ops r4 r6 s" and "good_config r4 r6"
    and a: "Store_Lookup ops a s = Some (Some d)" and b: "Store_Lookup ops b s = Some (Some d)"
    and fam: "addr_Is4 a = addr_Is4 b"
  shows "a = b"
proof -
  obtain st where "storage s = Some st" "sinv st"
    using store_inv_reach [OF assms(1,2)] by (auto simp: store_inv_def)
  then show ?thesis using a b fam load_inj [of st a d b] by (simp add: Store_Lookup_def)
qed

lemma reach_lookup_allocatable:
  assumes "fakeip_reach ops r4 r6 s" and "good_config r4 r6"
    and a: "Store_Lookup ops a s = Some (Some d)"
  shows "allocatable (if addr_Is4 a then r4 else r6) a"
proof -
  obtain st where "storage s = Some st"
    and "\<forall>a d. fs_Load ops a st = Some d \<longrightarrow> allocatable (if addr_Is4 a then r4 else r6) a"
    using store_inv_reach [OF assms(1,2)] by (auto simp: store_inv_def simp del: if_split_asm)
  then show ?thesis using a by (simp add: Store_Lookup_def split del: if_split)
qed

end

end
