(* ===== verification/Fakeip_Spec.thy ===== *)
theory Fakeip_Spec
  imports Fakeip
begin

text \<open>
  The properties of the FakeIP store: what \<^verbatim>\<open>broadcastAddress\<close> computes, how many
  domains a range serves before an address is used again, and the promises of
  \<^verbatim>\<open>Create\<close> and \<^verbatim>\<open>Lookup\<close> in every state the store can reach, for the in-memory
  storage through the interpretation \<open>memory\<close>.
\<close>

unbundle bit_operations_syntax

subsection \<open>The last address of a range\<close>

lemma bit_fold_set_bits:
  fixes r :: "128 word"
  shows "bit (fold (\<lambda>i raw. raw OR push_bit (127 - i) 1) is r) j \<longleftrightarrow>
    bit r j \<or> j < 128 \<and> (\<exists>i\<in>set is. j = 127 - i)"
proof (induction "is" arbitrary: r)
  case (Cons i "is")
  have "bit (r OR push_bit (127 - i) 1) j \<longleftrightarrow> bit r j \<or> j < 128 \<and> j = 127 - i"
    unfolding bit_or_iff by (auto simp: bit_exp_iff)
  then show ?case using Cons.IH [of "r OR push_bit (127 - i) 1"] by (simp only: fold.simps o_apply list.set) blast
qed simp

lemma bit_broadcast_raw:
  fixes r :: "128 word"
  assumes "b \<le> 128"
  shows "bit (fold (\<lambda>i raw. raw OR push_bit (127 - i) 1) [b..<128] r) j \<longleftrightarrow> bit r j \<or> j < 128 - b"
proof -
  have "(\<exists>i\<in>set [b..<128]. j = 127 - i) \<and> j < 128 \<longleftrightarrow> j < 128 - b"
    using assms by (auto intro!: bexI [of _ "127 - j"])
  then show ?thesis using bit_fold_set_bits [of "[b..<128]" r j] by blast
qed

lemma broadcast_raw:
  fixes r :: "128 word"
  assumes "b \<le> 128"
  shows "fold (\<lambda>i raw. raw OR push_bit (127 - i) 1) [b..<128] r = r OR mask (128 - b)"
  by (rule bit_word_eqI, unfold bit_broadcast_raw [OF assms] bit_or_iff) (simp add: bit_mask_iff)

lemma ucast_mapped_or_mask:
  fixes u :: "32 word"
  assumes "k \<le> 32"
  shows "ucast ((push_bit 32 0xFFFF OR ucast u :: 128 word) OR mask k) = u OR mask k"
proof (rule bit_word_eqI)
  fix n assume n: "n < LENGTH(32)"
  have "\<not> bit (push_bit 32 0xFFFF :: 128 word) n" using n unfolding bit_push_bit_iff by simp
  then show "bit (ucast ((push_bit 32 0xFFFF OR ucast u :: 128 word) OR mask k) :: 32 word) n = bit (u OR mask k) n"
    using n assms unfolding bit_ucast_iff bit_or_iff by (simp add: bit_mask_iff bit_ucast_iff)
qed

lemma broadcastAddress_4:
  assumes "b \<le> 32"
  shows "broadcastAddress \<lparr>pfx_ip = A4 u, pfx_bitsPlusOne = Suc b\<rparr> = A4 (u OR mask (32 - b))"
proof -
  have "128 - (b + 96) = 32 - b" by simp
  then show ?thesis
    using broadcast_raw [of "b + 96" "addr_As16 (A4 u)"] ucast_mapped_or_mask [of "32 - b" u] assms
    unfolding broadcastAddress_def prefix_Bits_def Let_def
    by (simp only: netip_prefix.simps addr_Is4.simps addr_As16.simps if_True diff_Suc_1)
qed

lemma broadcastAddress_6:
  assumes "b \<le> 128"
  shows "broadcastAddress \<lparr>pfx_ip = A6 u z, pfx_bitsPlusOne = Suc b\<rparr> = A6 (u OR mask (128 - b)) []"
  using broadcast_raw [of b u] assms
  unfolding broadcastAddress_def prefix_Bits_def Let_def
  by (simp only: netip_prefix.simps addr_Is4.simps addr_As16.simps if_False diff_Suc_1 add_0_right)

subsection \<open>The order in which addresses are handed out\<close>

text \<open>The address at offset \<open>j\<close> of a range that starts at \<open>u\<close>.\<close>

abbreviation addr_at :: "32 word \<Rightarrow> nat \<Rightarrow> netip_addr" where
  "addr_at u j \<equiv> A4 (u + of_nat j)"

text \<open>\<open>u\<close> is the network address of a range with \<open>k\<close> host bits.\<close>

definition network :: "nat \<Rightarrow> 32 word \<Rightarrow> bool" where
  "network k u \<longleftrightarrow> k \<le> 32 \<and> unat u mod 2 ^ k = 0"

lemma network_room: "network k u \<Longrightarrow> unat u + 2 ^ k \<le> 2 ^ 32"
proof -
  assume n: "network k u"
  then obtain q where q: "unat u = 2 ^ k * q" by (auto simp: network_def mod_eq_0_iff_dvd elim: dvdE)
  have p: "(2::nat) ^ 32 = 2 ^ k * 2 ^ (32 - k)"
    using n by (simp add: network_def flip: power_add)
  have "2 ^ k * q < (2::nat) ^ k * 2 ^ (32 - k)"
    using unsigned_less [of u] unfolding q [symmetric] p [symmetric] by simp
  then have "q < 2 ^ (32 - k)" by (simp only: mult_less_cancel1)
  then have "2 ^ k * (q + 1) \<le> (2::nat) ^ k * 2 ^ (32 - k)" by (intro mult_le_mono) auto
  then show "unat u + 2 ^ k \<le> 2 ^ 32" unfolding q p by (simp only: distrib_left mult_1_right)
qed

lemma unat_addr_at: "network k u \<Longrightarrow> j < 2 ^ k \<Longrightarrow> unat (u + of_nat j) = unat u + j"
  using network_room [of k u] by (simp add: unat_word_ariths unat_of_nat take_bit_eq_mod)

lemma addr_at_inj:
  assumes "network k u" "i < 2 ^ k" "j < 2 ^ k"
  shows "addr_at u i = addr_at u j \<longleftrightarrow> i = j"
proof
  assume "addr_at u i = addr_at u j"
  then have "unat (u + of_nat i) = unat (u + of_nat j)" by (simp only: netip_addr.inject)
  then show "i = j" unfolding unat_addr_at [OF assms(1,2)] unat_addr_at [OF assms(1,3)] by simp
qed simp

lemma Next_addr_at:
  assumes "network k u" "Suc j < 2 ^ k"
  shows "addr_Next (addr_at u j) = addr_at u (Suc j)"
proof -
  have "u + of_nat j + 1 = u + of_nat (Suc j)" by (simp add: add.assoc add.commute [of 1])
  moreover from unat_addr_at [OF assms] have "u + of_nat (Suc j) \<noteq> 0" by (metis add_is_0 nat.distinct(1) unat_0)
  ultimately show ?thesis by (simp only: addr_Next.simps if_False)
qed

lemma network_broadcast:
  assumes "network k u"
  shows "u OR mask k = u + of_nat (2 ^ k - 1)"
proof -
  have "bit u n = False" if "n < k" for n
  proof -
    have "take_bit k (unat u) = 0" using assms by (simp add: network_def take_bit_eq_mod)
    then have "\<not> bit (take_bit k (unat u)) n" by simp
    then show ?thesis using that by (simp add: bit_take_bit_iff bit_unsigned_iff)
  qed
  then have "u AND mask k = 0" by (intro bit_word_eqI) (auto simp: bit_and_iff bit_mask_iff)
  then have "u OR mask k = u + mask k" by (simp add: disjunctive_add_eq_or)
  then show ?thesis by (simp add: mask_eq_exp_minus_1 of_nat_diff)
qed

abbreviation range4 :: "nat \<Rightarrow> 32 word \<Rightarrow> netip_prefix" where
  "range4 k u \<equiv> \<lparr>pfx_ip = A4 u, pfx_bitsPlusOne = Suc (32 - k)\<rparr>"

lemma range4_Contains:
  assumes "network k u" "j < 2 ^ k"
  shows "prefix_Contains (range4 k u) (addr_at u j)"
proof -
  have k: "32 - (32 - k) = k" and d: "2 ^ k dvd unat u" using assms by (auto simp: network_def)
  have "(unat u + j) div 2 ^ k = unat u div 2 ^ k"
    using d assms(2) by (simp add: div_plus_div_distrib_dvd_left)
  then show ?thesis unfolding prefix_Contains_4 k unat_addr_at [OF assms] .
qed

lemma range4_broadcast:
  assumes "network k u"
  shows "broadcastAddress (range4 k u) = addr_at u (2 ^ k - 1)"
proof -
  have "32 - (32 - k) = k" using assms by (simp add: network_def)
  then show ?thesis
    unfolding broadcastAddress_4 [OF diff_le_self] by (simp only: network_broadcast [OF assms])
qed

lemma addr_at_2:
  assumes "network k u" "3 \<le> k"
  shows "addr_Next (addr_Next (A4 u)) = addr_at u 2"
proof -
  have "(2::nat) ^ 3 \<le> 2 ^ k" using assms(2) by (intro power_increasing) auto
  then have p: "Suc 0 < 2 ^ k" "Suc (Suc 0) < 2 ^ k" by simp_all
  have "addr_at u 0 = A4 u" by simp
  then have "addr_Next (A4 u) = addr_at u (Suc 0)" using Next_addr_at [OF assms(1) p(1)] by argo
  then show ?thesis using Next_addr_at [OF assms(1) p(2)] unfolding numeral_2_eq_2 by argo
qed

lemma next_address_at:
  assumes n: "network k u" and k: "3 \<le> k" and j: "j + 2 \<le> 2 ^ k"
  shows "next_address (range4 k u) (broadcastAddress (range4 k u)) (addr_at u j) =
    addr_at u (if j + 2 < 2 ^ k then Suc j else 2)"
proof -
  have nxt: "addr_Next (addr_at u j) = addr_at u (Suc j)" using Next_addr_at [OF n] j by simp
  have last: "addr_at u (Suc j) = addr_at u (2 ^ k - 1) \<longleftrightarrow> j + 2 = 2 ^ k"
    using addr_at_inj [OF n, of "Suc j" "2 ^ k - 1"] j by auto
  show ?thesis
    using range4_Contains [OF n, of "Suc j"] j last
    unfolding next_address_def Let_def range4_broadcast [OF n] nxt
    by (simp only: netip_prefix.simps addr_at_2 [OF n k] split: if_splits) auto
qed

lemma range4_good:
  assumes n: "network k u" and k: "3 \<le> k"
  shows "good_range (range4 k u)"
proof -
  have "(2::nat) ^ 3 \<le> 2 ^ k" using k by (intro power_increasing) auto
  then have "addr_at u 2 \<noteq> addr_at u (2 ^ k - 1)" using addr_at_inj [OF n, of 2 "2 ^ k - 1"] by auto
  moreover have "prefix_Contains (range4 k u) (addr_at u 2)"
    using range4_Contains [OF n, of 2] \<open>2 ^ 3 \<le> 2 ^ k\<close> by simp
  ultimately show ?thesis
    unfolding good_range_def range4_broadcast [OF n] netip_prefix.simps addr_at_2 [OF n k] by blast
qed

subsection \<open>Allocation is round robin\<close>

text \<open>A sequence of calls \<^verbatim>\<open>Create(domain, false)\<close>, with the addresses they return.\<close>

fun creates :: "'s storage_ops \<Rightarrow> string list \<Rightarrow> 's Store \<Rightarrow> (netip_addr result list \<times> 's Store) option" where
  "creates ops [] s = Some ([], s)"
| "creates ops (d # ds) s =
     (case Store_Create ops d False s of
        None \<Rightarrow> None
      | Some (r, s) \<Rightarrow> map_option (\<lambda>(rs, s). (r # rs, s)) (creates ops ds s))"

text \<open>The offset of the \<open>i\<close>-th allocation: the network address, the one after it and the
  broadcast address are left out.\<close>

definition offset :: "nat \<Rightarrow> nat \<Rightarrow> nat" where
  "offset k i = 2 + i mod (2 ^ k - 3)"

definition current_offset :: "nat \<Rightarrow> nat \<Rightarrow> nat" where
  "current_offset k n = (if n = 0 then 1 else offset k (n - 1))"

lemma offset_bound: "3 \<le> k \<Longrightarrow> offset k i + 2 \<le> 2 ^ k"
proof -
  assume "3 \<le> k"
  then have "(2::nat) ^ 3 \<le> 2 ^ k" by (intro power_increasing) auto
  moreover from this have "i mod (2 ^ k - 3) < 2 ^ k - 3" by (intro mod_less_divisor) simp
  ultimately show ?thesis unfolding offset_def by linarith
qed

lemma next_offset:
  assumes k: "3 \<le> k"
  shows "(if current_offset k n + 2 < 2 ^ k then Suc (current_offset k n) else 2) = offset k n"
proof (cases n)
  case 0
  have "(2::nat) ^ 3 \<le> 2 ^ k" using k by (intro power_increasing) auto
  then show ?thesis using 0 by (simp add: current_offset_def offset_def)
next
  case (Suc m)
  have "(2::nat) ^ 3 \<le> 2 ^ k" using k by (intro power_increasing) auto
  then have pos: "0 < (2::nat) ^ k - 3" by simp
  have lt: "m mod (2 ^ k - 3) < 2 ^ k - 3" using pos by (rule mod_less_divisor)
  show ?thesis
    using lt by (auto simp: Suc current_offset_def offset_def mod_Suc)
qed

lemma offset_inj:
  assumes "offset k i = offset k j" "i < j + (2 ^ k - 3)" "j < i + (2 ^ k - 3)"
  shows "i = j"
proof (rule ccontr)
  assume "i \<noteq> j"
  have eq: "i mod (2 ^ k - 3) = j mod (2 ^ k - 3)" using assms(1) by (simp add: offset_def)
  show False
  proof (cases "i < j")
    case True
    then have "(2 ^ k - 3) dvd (j - i)" using eq mod_eq_dvd_iff_nat [of i j "2 ^ k - 3"] by simp
    then show False using True assms(3) by (auto dest: dvd_imp_le)
  next
    case False
    with \<open>i \<noteq> j\<close> have "j < i" by simp
    then have "(2 ^ k - 3) dvd (i - j)" using eq mod_eq_dvd_iff_nat [of j i "2 ^ k - 3"] by simp
    then show False using \<open>j < i\<close> assms(2) by (auto dest: dvd_imp_le)
  qed
qed

definition round_robin :: "'s storage_ops \<Rightarrow> ('s \<Rightarrow> bool) \<Rightarrow> nat \<Rightarrow> 32 word \<Rightarrow> netip_prefix \<Rightarrow> string list \<Rightarrow> 's Store \<Rightarrow> bool" where
  "round_robin ops sinv k u r6 done s \<longleftrightarrow>
     store_inv ops sinv (range4 k u) r6 s \<and>
     inet4Current s = addr_at u (current_offset k (length done)) \<and>
     (\<forall>a e. addr_Is4 a \<longrightarrow> Store_Lookup ops a s = Some (Some e) \<longrightarrow> e \<in> set done) \<and>
     (\<forall>i<length done. length done \<le> i + (2 ^ k - 3) \<longrightarrow>
        Store_Lookup ops (addr_at u (offset k i)) s = Some (Some (done ! i)))"

context fakeip_storage
begin

lemma round_robin_start:
  assumes n: "network k u" and k: "3 \<le> k" and cfg: "good_config (range4 k u) r6"
    and none: "fs_Metadata ops st = None"
  shows "round_robin ops sinv k u r6 [] (Store_Start ops st (NewStore (range4 k u) r6))"
proof -
  have "addr_Next (A4 u) = addr_at u 1"
  proof -
    have "(2::nat) ^ 3 \<le> 2 ^ k" using k by (intro power_increasing) auto
    then have "Suc 0 < 2 ^ k" by simp
    moreover have "addr_at u 0 = A4 u" by simp
    ultimately show ?thesis using Next_addr_at [OF n, of 0] by (metis One_nat_def)
  qed
  then have cur: "inet4Current (Store_Start ops st (NewStore (range4 k u) r6)) = addr_at u 1"
    unfolding Store_Start_def none NewStore_def
    by (simp only: option.case Store.simps netip_prefix.simps prefix_IsValid_def zero_less_Suc if_True)
  have "Store_Lookup ops a (Store_Start ops st (NewStore (range4 k u) r6)) = Some None" for a
    using reset by (simp add: Store_Lookup_def Store_Start_def none)
  with cur store_inv_start [OF cfg none] show ?thesis
    unfolding round_robin_def current_offset_def by simp
qed

lemma round_robin_create:
  assumes n: "network k u" and k: "3 \<le> k" and cfg: "good_config (range4 k u) r6"
    and s: "round_robin ops sinv k u r6 done s" and d: "d \<notin> set done"
  shows "\<exists>s'. Store_Create ops d False s = Some (Inr (addr_at u (offset k (length done))), s') \<and>
    round_robin ops sinv k u r6 (done @ [d]) s'"
proof -
  let ?o = "offset k (length done)"
  have inv: "store_inv ops sinv (range4 k u) r6 s"
    and cur: "inet4Current s = addr_at u (current_offset k (length done))"
    and doms: "\<And>a e. addr_Is4 a \<Longrightarrow> Store_Lookup ops a s = Some (Some e) \<Longrightarrow> e \<in> set done"
    and kept: "\<And>i. i < length done \<Longrightarrow> length done \<le> i + (2 ^ k - 3) \<Longrightarrow>
        Store_Lookup ops (addr_at u (offset k i)) s = Some (Some (done ! i))"
    using s unfolding round_robin_def by blast+
  obtain st where st: "storage s = Some st" "sinv st" using inv by (auto simp: store_inv_def)
  have "fs_LoadDomain ops d False st = None"
  proof (rule ccontr)
    assume "fs_LoadDomain ops d False st \<noteq> None"
    then obtain a where "fs_LoadDomain ops d False st = Some a" by blast
    then have "fs_Load ops a st = Some d" "addr_Is4 a" using lookup [OF st(2)] by simp_all
    then show False using doms [of a d] d st(1) by (simp add: Store_Lookup_def)
  qed
  have co: "current_offset k (length done) + 2 \<le> 2 ^ k"
    using offset_bound [OF k] k power_increasing [of 3 k "2::nat"] by (simp add: current_offset_def)
  have a: "next_address (range4 k u) (broadcastAddress (range4 k u)) (inet4Current s) = addr_at u ?o"
    unfolding cur next_address_at [OF n k co] next_offset [OF k] ..
  from inv st(1) obtain s' where run: "Store_Create ops d False s = Some (Inr (addr_at u ?o), s')"
      and cur': "inet4Current s' = addr_at u ?o"
  proof (cases rule: Create_cases [where d = d and ?v6.0 = False])
    case (fresh a' md s1)
    then show ?thesis using a that by simp
  qed (use \<open>fs_LoadDomain ops d False st = None\<close> in \<open>auto simp: range_of_def prefix_IsValid_def\<close>)
  note step = store_inv_create [OF cfg inv run]
  have look: "Store_Lookup ops b s' = (if b = addr_at u ?o then Some (Some d) else Store_Lookup ops b s)" for b
    using step(2) [OF refl] step(3) [OF refl, of b] by simp
  have "Store_Lookup ops (addr_at u (offset k i)) s' = Some (Some ((done @ [d]) ! i))"
    if i: "i < Suc (length done)" "Suc (length done) \<le> i + (2 ^ k - 3)" for i
  proof (cases "i = length done")
    case False
    have "i < length done + (2 ^ k - 3)" "length done < i + (2 ^ k - 3)" using False i by linarith+
    then have "offset k i \<noteq> ?o" using offset_inj [of k i "length done"] False by blast
    moreover have "offset k i < 2 ^ k" "?o < 2 ^ k" using offset_bound [OF k, of i] offset_bound [OF k, of "length done"] by simp_all
    ultimately have "addr_at u (offset k i) \<noteq> addr_at u ?o" using addr_at_inj [OF n] by blast
    then show ?thesis using look kept [of i] i False by (simp add: nth_append)
  qed (simp add: look)
  moreover have "e \<in> set (done @ [d])" if "addr_Is4 b" "Store_Lookup ops b s' = Some (Some e)" for b e
    using that look [of b] doms [of b e] by (auto split: if_splits)
  ultimately have "round_robin ops sinv k u r6 (done @ [d]) s'"
    using step(1) cur' unfolding round_robin_def by (simp add: current_offset_def)
  with run show ?thesis by blast
qed

lemma round_robin_creates:
  assumes n: "network k u" and k: "3 \<le> k" and cfg: "good_config (range4 k u) r6"
    and s: "round_robin ops sinv k u r6 done s" and d: "distinct (done @ ds)"
  shows "\<exists>s'. creates ops ds s =
      Some (map (\<lambda>i. Inr (addr_at u (offset k i))) [length done..<length done + length ds], s') \<and>
    round_robin ops sinv k u r6 (done @ ds) s'"
  using s d
proof (induction ds arbitrary: "done" s)
  case (Cons d ds)
  then obtain s1 where s1: "Store_Create ops d False s = Some (Inr (addr_at u (offset k (length done))), s1)"
      "round_robin ops sinv k u r6 (done @ [d]) s1"
    using round_robin_create [OF n k cfg Cons.prems(1), of d] by auto
  obtain s' where s': "creates ops ds s1 = Some (map (\<lambda>i. Inr (addr_at u (offset k i)))
        [length (done @ [d])..<length (done @ [d]) + length ds], s')"
      "round_robin ops sinv k u r6 ((done @ [d]) @ ds) s'"
    using Cons.IH [OF s1(2)] Cons.prems(2) by auto
  have idx: "[length done..<length done + length (d # ds)] =
      length done # [length (done @ [d])..<length (done @ [d]) + length ds]"
    by (simp add: upt_conv_Cons del: upt_Suc)
  show ?case unfolding idx using s1(1) s' by (simp del: upt_Suc)
qed simp

end

subsection \<open>A small store\<close>

text \<open>The network 198.18.0.0/29, without IPv6.\<close>

definition small_range :: netip_prefix where
  "small_range = range4 3 0xC6120000"

definition small_store :: "MemoryStorage Store" where
  "small_store = Store_Start memory_ops NewMemoryStorage (NewStore small_range prefix_zero)"

lemma small_network: "network 3 0xC6120000"
  by (simp add: network_def)

lemma small_config: "good_config small_range prefix_zero"
  using range4_good [OF small_network]
  by (simp add: good_config_def small_range_def prefix_zero_def prefix_IsValid_def)

lemma small_reach: "fakeip_reach memory_ops small_range prefix_zero small_store"
  unfolding small_store_def by (rule fakeip_reach.start) (simp add: memory_ops_def mem_defs)

lemma small_create:
  "map_option fst (Store_Create memory_ops ''example.com'' False small_store) = Some (Inr (A4 0xC6120002))"
  by code_simp

definition small_store1 :: "MemoryStorage Store" where
  "small_store1 = snd (the (Store_Create memory_ops ''example.com'' False small_store))"

lemma small_create1:
  "Store_Create memory_ops ''example.com'' False small_store = Some (Inr (A4 0xC6120002), small_store1)"
  using small_create by (auto simp: small_store1_def)

lemma small_reach1: "fakeip_reach memory_ops small_range prefix_zero small_store1"
  using small_reach small_create1 by (rule fakeip_reach.create)

lemma small_lookup1: "Store_Lookup memory_ops (A4 0xC6120002) small_store1 = Some (Some ''example.com'')"
  by code_simp

subsection \<open>Properties\<close>

text \<open>
  C3: Let every configured range be of its family and have room: the second address after its own
  is inside and not the broadcast address (the code checks neither). Then in every state a store over
  the in-memory storage reaches (any interleaving of creations, resets, closes and restarts), \<^verbatim>\<open>Create\<close> succeeds exactly when the range of the
  family is configured. The address it returns is of that family, inside the range, and is not
  the broadcast address. \<^verbatim>\<open>Lookup\<close> of it gives the domain back; asking for the same
  domain again gives the same address and changes nothing; every other address keeps its
  domain.
\<close>

theorem fakeip_create_lookup:
  assumes "fakeip_reach memory_ops r4 r6 s" and "good_config r4 r6"
    and "Store_Create memory_ops domain isIPv6 s = Some (res, s')"
  shows "case res of
      Inl err \<Rightarrow> \<not> prefix_IsValid (range_of r4 r6 isIPv6)
    | Inr a \<Rightarrow> prefix_IsValid (range_of r4 r6 isIPv6) \<and>
        prefix_Contains (range_of r4 r6 isIPv6) a \<and> a \<noteq> broadcastAddress (range_of r4 r6 isIPv6) \<and>
        Store_Lookup memory_ops a s' = Some (Some domain) \<and>
        Store_Create memory_ops domain isIPv6 s' = Some (Inr a, s') \<and>
        (\<forall>b. b \<noteq> a \<longrightarrow> Store_Lookup memory_ops b s' = Store_Lookup memory_ops b s)"
proof -
  note step = memory.store_inv_create [OF assms(2) memory.store_inv_reach [OF assms(1,2)] assms(3)]
  show ?thesis
  proof (cases res)
    case (Inl err)
    with step(4) show ?thesis by simp
  next
    case (Inr a)
    then show ?thesis using step(2) [OF Inr] step(3) [OF Inr] step(4) by (simp add: allocatable_def)
  qed
qed

theorem fakeip_create_lookup_witness:
  "Store_Create memory_ops ''example.com'' False small_store = Some (Inr (A4 0xC6120002), small_store1) \<and>
   Store_Create memory_ops ''example.com'' False small_store1 = Some (Inr (A4 0xC6120002), small_store1) \<and>
   Store_Lookup memory_ops (A4 0xC6120002) small_store1 = Some (Some ''example.com'')"
  using fakeip_create_lookup [OF small_reach small_config small_create1] small_create1 by simp

text \<open>
  C5: When every configured range is of its family and has room, as for C3, in every reachable
  state an address that stands for a domain lies in the range of its
  family, so the transport recognises it as its own, and two addresses of one family never
  stand for the same domain.
\<close>

theorem fakeip_mapping:
  assumes "fakeip_reach memory_ops r4 r6 s" and "good_config r4 r6"
    and "Store_Lookup memory_ops a s = Some (Some domain)"
  shows "Store_Contains s a \<and>
    (\<forall>b. Store_Lookup memory_ops b s = Some (Some domain) \<and> addr_Is4 b = addr_Is4 a \<longrightarrow> b = a)"
proof -
  have "inet4Range s = r4" "inet6Range s = r6"
    using memory.store_inv_reach [OF assms(1,2)] by (simp_all add: store_inv_def)
  moreover have "allocatable (if addr_Is4 a then r4 else r6) a"
    by (rule memory.reach_lookup_allocatable [OF assms])
  ultimately have "Store_Contains s a" by (auto simp: Store_Contains_def allocatable_def split: if_splits)
  then show ?thesis using memory.reach_lookup_inj [OF assms(1,2) _ assms(3)] by blast
qed

theorem fakeip_mapping_witness:
  "Store_Lookup memory_ops (A4 0xC6120002) small_store1 = Some (Some ''example.com'') \<and>
   Store_Contains small_store1 (A4 0xC6120002)"
  using fakeip_mapping [OF small_reach1 small_config small_lookup1] small_lookup1 by blast

text \<open>
  C4: A store on an IPv4 network with \<open>k \<ge> 3\<close> host bits hands out its addresses round robin:
  of a sequence of different domains the \<open>i\<close>-th gets the address at offset
  \<open>2 + i mod (2 ^ k - 3)\<close>, which is never the network address, the one after it or the
  broadcast address. So \<open>2 ^ k - 3\<close> domains are held at the same time: the last
  \<open>2 ^ k - 3\<close> domains can be looked up by their addresses.
\<close>

theorem fakeip_round_robin:
  assumes "network k u" and "3 \<le> k" and "good_config (range4 k u) r6" and "distinct ds"
  shows "\<exists>s'. creates memory_ops ds (Store_Start memory_ops NewMemoryStorage (NewStore (range4 k u) r6)) =
      Some (map (\<lambda>i. Inr (addr_at u (2 + i mod (2 ^ k - 3)))) [0..<length ds], s') \<and>
    (\<forall>i<length ds. length ds \<le> i + (2 ^ k - 3) \<longrightarrow>
       Store_Lookup memory_ops (addr_at u (2 + i mod (2 ^ k - 3))) s' = Some (Some (ds ! i)))"
proof -
  have "fs_Metadata memory_ops NewMemoryStorage = None" by (simp add: memory_ops_def mem_defs)
  note start = memory.round_robin_start [OF assms(1-3) this]
  show ?thesis
    using memory.round_robin_creates [OF assms(1-3) start, of ds] assms(4)
    unfolding round_robin_def offset_def by auto
qed

theorem fakeip_round_robin_witness:
  "\<exists>s'. creates memory_ops [''a'', ''b'', ''c'', ''d'', ''e'', ''f''] small_store =
      Some (map (\<lambda>i. Inr (addr_at 0xC6120000 (2 + i mod (2 ^ 3 - 3))))
              [0..<length [''a'', ''b'', ''c'', ''d'', ''e'', ''f'']], s') \<and>
     Store_Lookup memory_ops (addr_at 0xC6120000 2) s' = Some (Some ''f'')"
proof -
  have "distinct [''a'', ''b'', ''c'', ''d'', ''e'', ''f'']" by simp
  from fakeip_round_robin [OF small_network order.refl small_config [unfolded small_range_def] this]
  obtain s' where s': "creates memory_ops [''a'', ''b'', ''c'', ''d'', ''e'', ''f''] small_store =
      Some (map (\<lambda>i. Inr (addr_at 0xC6120000 (2 + i mod (2 ^ 3 - 3))))
              [0..<length [''a'', ''b'', ''c'', ''d'', ''e'', ''f'']], s')"
    and all: "\<forall>i<length [''a'', ''b'', ''c'', ''d'', ''e'', ''f''].
       length [''a'', ''b'', ''c'', ''d'', ''e'', ''f''] \<le> i + (2 ^ 3 - 3) \<longrightarrow>
       Store_Lookup memory_ops (addr_at 0xC6120000 (2 + i mod (2 ^ 3 - 3))) s' =
         Some (Some ([''a'', ''b'', ''c'', ''d'', ''e'', ''f''] ! i))"
    unfolding small_store_def small_range_def by blast
  have "Store_Lookup memory_ops (addr_at 0xC6120000 2) s' = Some (Some ''f'')"
    using all [rule_format, of 5] by simp
  with s' show ?thesis by blast
qed

end
