(* ===== verification/Binary_Io.thy ===== *)
theory Binary_Io
  imports Netip
begin

text \<open>
  Reading and writing bytes, as the binary formats of the program use Go's
  \<^verbatim>\<open>io\<close>, \<^verbatim>\<open>bufio\<close> and \<^verbatim>\<open>encoding/binary\<close>. A reader is its remaining
  bytes; a read returns a value and the rest, or an error. A writer appends to a buffer, so
  what is written is a list of bytes. The locale \<open>codec\<close> is the contract of a pair of a
  write and a read function: what was written is read back, and nothing more is consumed.
\<close>

unbundle bit_operations_syntax

type_synonym 'a reader = "byte list \<Rightarrow> ('a \<times> byte list) result"

abbreviation EOF :: error where
  "EOF \<equiv> E_Sentinel ''EOF''"

abbreviation UnexpectedEOF :: error where
  "UnexpectedEOF \<equiv> E_Sentinel ''unexpected EOF''"

abbreviation errOverflow :: error where
  "errOverflow \<equiv> E_New ''binary: varint overflows a 64-bit integer''"

abbreviation panic :: error where
  "panic \<equiv> E_Sentinel ''panic''"

subsection \<open>Reading\<close>

definition ReadByte :: "byte reader" where
  "ReadByte bs = (case bs of [] \<Rightarrow> Inl EOF | b # bs \<Rightarrow> Inr (b, bs))"

text \<open>\<^verbatim>\<open>io.ReadFull\<close> into a buffer of length \<open>n\<close>.\<close>

definition ReadFull :: "nat \<Rightarrow> byte list reader" where
  "ReadFull n bs =
     (if n \<le> length bs then Inr (take n bs, drop n bs)
      else if bs = [] then Inl EOF else Inl UnexpectedEOF)"

text \<open>\<^verbatim>\<open>binary.Read(reader, binary.BigEndian, &v)\<close>, by the type of \<open>v\<close>.\<close>

definition read_uint8 :: "byte reader" where
  "read_uint8 bs = ReadByte bs"

definition read_bool :: "bool reader" where
  "read_bool bs = bind_result (ReadByte bs) (\<lambda>(b, bs). Inr (b \<noteq> 0, bs))"

fun be_word :: "byte list \<Rightarrow> 'a::len word" where
  "be_word [] = 0"
| "be_word (b # bs) = push_bit (8 * length bs) (ucast b) OR be_word bs"

definition read_uint64 :: "64 word reader" where
  "read_uint64 bs = bind_result (ReadFull 8 bs) (\<lambda>(d, bs). Inr (be_word d, bs))"

fun be_uint16s :: "byte list \<Rightarrow> 16 word list" where
  "be_uint16s (a # b # bs) = be_word [a, b] # be_uint16s bs"
| "be_uint16s _ = []"

text \<open>A slice of \<open>n\<close> values of type \<^verbatim>\<open>uint16\<close>.\<close>

definition read_uint16s :: "nat \<Rightarrow> 16 word list reader" where
  "read_uint16s n bs = bind_result (ReadFull (2 * n) bs) (\<lambda>(d, bs). Inr (be_uint16s d, bs))"

text \<open>\<^verbatim>\<open>binary.ReadUvarint\<close>, with the loop counter and the value so far.\<close>

fun uvarint_loop :: "nat \<Rightarrow> 64 word \<Rightarrow> 64 word reader" where
  "uvarint_loop i x [] =
     (if 10 \<le> i then Inl errOverflow else if 0 < i then Inl UnexpectedEOF else Inl EOF)"
| "uvarint_loop i x (b # bs) =
     (if 10 \<le> i then Inl errOverflow
      else if b < 0x80 then
        (if i = 9 \<and> 1 < b then Inl errOverflow else Inr (x OR push_bit (7 * i) (ucast b), bs))
      else uvarint_loop (Suc i) (x OR push_bit (7 * i) (ucast (b AND 0x7F))) bs)"

definition ReadUvarint :: "64 word reader" where
  "ReadUvarint = uvarint_loop 0 0"

subsection \<open>Writing\<close>

text \<open>\<^verbatim>\<open>binary.PutUvarint\<close>.\<close>

function PutUvarint :: "64 word \<Rightarrow> byte list" where
  "PutUvarint x = (if x < 0x80 then [ucast x] else (ucast x OR 0x80) # PutUvarint (drop_bit 7 x))"
  by pat_completeness auto
termination
proof (relation "measure unat")
  fix x :: "64 word"
  assume "\<not> x < 0x80"
  then have "128 \<le> unat x" by (simp add: word_less_nat_alt)
  then have "unat x div 2 ^ 7 < unat x" by simp
  then show "(drop_bit 7 x, x) \<in> measure unat" by (simp add: unat_drop_bit del: power_numeral)
qed simp

declare PutUvarint.simps [simp del]

definition write_bool :: "bool \<Rightarrow> byte list" where
  "write_bool b = [if b then 1 else 0]"

fun write_be :: "nat \<Rightarrow> 'a::len word \<Rightarrow> byte list" where
  "write_be 0 w = []"
| "write_be (Suc n) w = ucast (drop_bit (8 * n) w) # write_be n w"

definition write_uint64 :: "64 word \<Rightarrow> byte list" where
  "write_uint64 w = write_be 8 w"

definition write_uint16s :: "16 word list \<Rightarrow> byte list" where
  "write_uint16s ws = concat (map (write_be 2) ws)"

text \<open>The conversions between \<^verbatim>\<open>string\<close> and \<^verbatim>\<open>[]byte\<close>.\<close>

definition bytes_of :: "string \<Rightarrow> byte list" where
  "bytes_of s = map (\<lambda>c. of_nat (of_char c)) s"

definition string_of :: "byte list \<Rightarrow> string" where
  "string_of bs = map (\<lambda>b. char_of (unat b)) bs"

subsection \<open>What is written is read back\<close>

locale codec =
  fixes put :: "'a \<Rightarrow> byte list" and get :: "'a reader" and good :: "'a \<Rightarrow> bool"
  assumes round_trip: "good x \<Longrightarrow> get (put x @ rest) = Inr (x, rest)"
begin

lemma put_inj: "good x \<Longrightarrow> good y \<Longrightarrow> put x = put y \<Longrightarrow> x = y"
  using round_trip [of x "[]"] round_trip [of y "[]"] by simp

text \<open>No encoding is a proper prefix of another: records can follow each other without a
  separator.\<close>

lemma put_prefix_free: "good x \<Longrightarrow> good y \<Longrightarrow> put x @ r = put y @ s \<Longrightarrow> x = y \<and> r = s"
  using round_trip [of x r] round_trip [of y s] by (metis Inr_inject Pair_inject)

end

text \<open>\<open>n\<close> values, one after the other: the loops \<^verbatim>\<open>for i := range result\<close> of the readers.\<close>

fun read_n :: "'a reader \<Rightarrow> nat \<Rightarrow> 'a list reader" where
  "read_n get 0 bs = Inr ([], bs)"
| "read_n get (Suc n) bs =
     bind_result (get bs) (\<lambda>(x, bs). bind_result (read_n get n bs) (\<lambda>(xs, bs). Inr (x # xs, bs)))"

context codec
begin

lemma read_n_round_trip:
  "list_all good xs \<Longrightarrow> read_n get (length xs) (concat (map put xs) @ rest) = Inr (xs, rest)"
  by (induction xs) (simp_all add: round_trip)

end

subsection \<open>The primitive encodings\<close>

lemma ReadFull_append [simp]: "ReadFull (length xs) (xs @ rest) = Inr (xs, rest)"
  by (simp add: ReadFull_def)

lemma string_of_bytes_of [simp]: "string_of (bytes_of s) = s"
proof -
  have "unat (of_nat (of_char c) :: byte) = of_char c" for c
    by (simp add: unat_of_nat take_bit_eq_mod)
  then show ?thesis by (simp add: string_of_def bytes_of_def o_def)
qed

lemma length_bytes_of [simp]: "length (bytes_of s) = length s"
  by (simp add: bytes_of_def)

interpretation bool_codec: codec write_bool read_bool "\<lambda>_. True"
  by unfold_locales (simp add: write_bool_def read_bool_def ReadByte_def)

interpretation byte_codec: codec "\<lambda>b. [b]" ReadByte "\<lambda>_. True"
  by unfold_locales (simp add: ReadByte_def)

lemma length_write_be [simp]: "length (write_be n w) = n"
  by (induction n) simp_all

lemma be_word_write_be:
  fixes w :: "'a::len word"
  shows "be_word (write_be n w) = take_bit (8 * n) w"
proof (induction n)
  case (Suc n)
  show ?case
  proof (rule bit_word_eqI)
    fix k assume k: "k < LENGTH('a)"
    have "bit (push_bit (8 * n) (ucast (ucast (drop_bit (8 * n) w) :: byte)) :: 'a word) k \<longleftrightarrow>
        8 * n \<le> k \<and> k < 8 * n + 8 \<and> bit w k"
      using k by (auto simp: bit_push_bit_iff bit_ucast_iff bit_drop_bit_eq)
    then show "bit (be_word (write_be (Suc n) w) :: 'a word) k = bit (take_bit (8 * Suc n) w) k"
      using k by (simp add: Suc bit_or_iff bit_take_bit_iff) auto
  qed
qed simp

interpretation uint64_codec: codec write_uint64 read_uint64 "\<lambda>_. True"
proof
  fix w :: "64 word" and rest
  have "ReadFull 8 (write_be 8 w @ rest) = Inr (write_be 8 w, rest)"
    using ReadFull_append [of "write_be 8 w" rest] by (simp only: length_write_be)
  then show "read_uint64 (write_uint64 w @ rest) = Inr (w, rest)"
    unfolding read_uint64_def write_uint64_def by (simp add: be_word_write_be take_bit_word_eq_self)
qed

lemma be_uint16s_write [simp]: "be_uint16s (write_uint16s ws) = ws"
proof (induction ws)
  case (Cons w ws)
  have "write_be 2 w = [ucast (drop_bit 8 w), ucast w]" by (simp add: numeral_2_eq_2)
  moreover have "be_word (write_be 2 w) = w" by (simp add: be_word_write_be take_bit_word_eq_self)
  ultimately show ?case using Cons by (simp add: write_uint16s_def del: be_word.simps)
qed (simp add: write_uint16s_def)

lemma length_write_uint16s [simp]: "length (write_uint16s ws) = 2 * length ws"
  by (induction ws) (simp_all add: write_uint16s_def)

lemma read_uint16s_round_trip: "read_uint16s (length ws) (write_uint16s ws @ rest) = Inr (ws, rest)"
  using ReadFull_append [of "write_uint16s ws" rest] by (simp add: read_uint16s_def)

lemma split_7:
  fixes y :: "64 word"
  shows "push_bit k (take_bit 7 y) OR push_bit (7 + k) (drop_bit 7 y) = push_bit k y"
proof (rule bit_word_eqI)
  fix n assume n: "n < LENGTH(64)"
  have "7 + (n - (7 + k)) = n - k" if "7 + k \<le> n" using that by simp
  then show "bit (push_bit k (take_bit 7 y) OR push_bit (7 + k) (drop_bit 7 y)) n = bit (push_bit k y) n"
    using n by (cases "7 + k \<le> n") (auto simp: bit_or_iff bit_push_bit_iff bit_take_bit_iff bit_drop_bit_eq)
qed

lemma uvarint_more:
  fixes y :: "64 word"
  shows "\<not> (ucast y OR 0x80 :: byte) < 0x80"
    and "ucast ((ucast y OR 0x80 :: byte) AND 0x7F) = take_bit 7 y"
proof -
  have b7: "(0x80 :: byte) = 2 ^ 7" and m7: "(0x7F :: byte) = mask 7" by (simp_all add: mask_eq_exp_minus_1)
  have bit80: "bit (0x80 :: byte) n \<longleftrightarrow> n = 7" for n
    unfolding b7 bit_exp_iff by auto
  show "\<not> (ucast y OR 0x80 :: byte) < 0x80"
  proof
    assume "(ucast y OR 0x80 :: byte) < 0x80"
    then have "unat (ucast y OR 0x80 :: byte) < 2 ^ 7" by (simp add: word_less_nat_alt)
    then have "take_bit 7 (unat (ucast y OR 0x80 :: byte)) = unat (ucast y OR 0x80 :: byte)"
      by (rule take_bit_nat_eq_self)
    then have "\<not> bit (unat (ucast y OR 0x80 :: byte)) 7" by (metis bit_take_bit_iff less_irrefl)
    then show False by (simp add: bit_unsigned_iff bit_or_iff bit80)
  qed
  show "ucast ((ucast y OR 0x80 :: byte) AND 0x7F) = take_bit 7 y"
    unfolding m7
    by (rule bit_word_eqI, unfold bit_ucast_iff bit_and_iff bit_or_iff bit80 bit_mask_iff bit_take_bit_iff) auto
qed

lemma uvarint_loop_Put:
  assumes "i \<le> 9" and "unat y < 2 ^ (64 - 7 * i)"
  shows "uvarint_loop i x (PutUvarint y @ rest) = Inr (x OR push_bit (7 * i) y, rest)"
  using assms
proof (induction y arbitrary: i x rule: PutUvarint.induct)
  case (1 y)
  show ?case
  proof (cases "y < 0x80")
    case True
    then have small: "unat y < 128" by (simp add: word_less_nat_alt)
    have u: "unat (ucast y :: byte) = unat y" using small by (simp add: unsigned_ucast_eq take_bit_nat_eq_self)
    then have "(ucast y :: byte) < 0x80" using small by (simp add: word_less_nat_alt)
    moreover have "\<not> (i = 9 \<and> 1 < (ucast y :: byte))" using 1(3) u by (auto simp: word_less_nat_alt)
    moreover have "ucast (ucast y :: byte) = y"
    proof (rule word_unat_eq_iff [THEN iffD2])
      have "unat (ucast (ucast y :: byte) :: 64 word) = take_bit LENGTH(64) (unat (ucast y :: byte))"
        by (rule unsigned_ucast_eq)
      then show "unat (ucast (ucast y :: byte) :: 64 word) = unat y"
        using small unfolding u by (simp add: take_bit_nat_eq_self)
    qed
    ultimately show ?thesis using 1(2) True by (subst PutUvarint.simps) simp
  next
    case False
    then have big: "128 \<le> unat y" by (simp add: word_less_nat_alt)
    with 1(2,3) have i: "i \<le> 8" by (cases "i = 9") auto
    have "unat (drop_bit 7 y) < 2 ^ (64 - 7 * Suc i)"
    proof -
      have "(2::nat) ^ (64 - 7 * i) = 2 ^ (64 - 7 * Suc i) * 2 ^ 7"
        using i by (simp only: power_add [symmetric]) simp
      then show ?thesis using 1(3) unfolding unat_drop_bit by (simp add: less_mult_imp_div_less)
    qed
    with 1(1) [OF False, of "Suc i"] i False show ?thesis
      by (subst PutUvarint.simps)
        (simp add: uvarint_more uvarint_more [simplified] split_7 or.assoc)
  qed
qed

interpretation uvarint_codec: codec PutUvarint ReadUvarint "\<lambda>_. True"
proof
  fix y :: "64 word" and rest
  have "unat y < 2 ^ 64" using unsigned_less [of y] by simp
  then show "ReadUvarint (PutUvarint y @ rest) = Inr (y, rest)"
    using uvarint_loop_Put [of 0 y 0 rest] by (simp add: ReadUvarint_def)
qed

end
