(* ===== verification/Srs.thy ===== *)
theory Srs
  imports Rule_Build Binary_Io
begin

text \<open>
  The binary rule-set format: \<^verbatim>\<open>common/srs/binary.go\<close>, \<^verbatim>\<open>ip_cidr.go\<close> and
  \<^verbatim>\<open>ip_set.go\<close>. A rule-set file is a magic number, a version and a compressed stream of
  rules; a rule is a sequence of tagged items. Reading and writing are functions on bytes
  (\<open>Binary_Io\<close>). The encodings of the third-party domain matchers, the variable length
  integers of \<^verbatim>\<open>varbin\<close>, \<^verbatim>\<open>zlib\<close> and the limit of \<^verbatim>\<open>make\<close> are the record
  \<open>srs_io\<close>. Errors of the underlying stream other than its end are not modelled.
\<close>

unbundle bit_operations_syntax

subsection \<open>Code outside the repository\<close>

record 'x srs_io =
  io_WriteUvarint :: "64 word \<Rightarrow> byte list"
  io_WriteMatcher :: "'x \<Rightarrow> byte list"
  io_ReadMatcher :: "'x reader"
  io_DumpMatcher :: "'x \<Rightarrow> string list \<times> string list"
  io_WriteAdGuard :: "'x \<Rightarrow> byte list"
  io_ReadAdGuard :: "'x reader"
  io_DumpAdGuard :: "'x \<Rightarrow> string list"
  io_Prefixes :: "ipset \<Rightarrow> netip_prefix list"
  io_makeslice :: "nat \<Rightarrow> bool"
  io_deflate :: "byte list \<Rightarrow> byte list"
  io_inflate :: "byte list \<Rightarrow> byte list result"

text \<open>\<^verbatim>\<open>make([]T, n)\<close> panics if the slice is too large.\<close>

definition make_slice :: "'x srs_io \<Rightarrow> 64 word \<Rightarrow> unit result" where
  "make_slice io n = (if io_makeslice io (unat n) then Inr () else Inl panic)"

abbreviation out_of_fuel :: error where
  "out_of_fuel \<equiv> E_Sentinel ''out of fuel''"

text \<open>\<^verbatim>\<open>E.Cause\<close> around a call; a panic is not an error value and is not wrapped, nor is the
  mark of a loop that was given too little fuel.\<close>

definition cause :: "string \<Rightarrow> 'a result \<Rightarrow> 'a result" where
  "cause msg m =
     (case m of
        Inr x \<Rightarrow> Inr x
      | Inl err \<Rightarrow> if err = panic \<or> err = out_of_fuel then Inl err else Inl (E_Cause err msg))"

lemma cause_eq_Inr [simp]: "cause msg m = Inr x \<longleftrightarrow> m = Inr x"
  by (cases m) (auto simp: cause_def)

lemma cause_Inr [simp]: "cause msg (Inr x) = Inr x"
  by (simp add: cause_def)

subsection \<open>The item tags\<close>

abbreviation ruleItemQueryType :: byte where "ruleItemQueryType \<equiv> 0"
abbreviation ruleItemNetwork :: byte where "ruleItemNetwork \<equiv> 1"
abbreviation ruleItemDomain :: byte where "ruleItemDomain \<equiv> 2"
abbreviation ruleItemDomainKeyword :: byte where "ruleItemDomainKeyword \<equiv> 3"
abbreviation ruleItemDomainRegex :: byte where "ruleItemDomainRegex \<equiv> 4"
abbreviation ruleItemSourceIPCIDR :: byte where "ruleItemSourceIPCIDR \<equiv> 5"
abbreviation ruleItemIPCIDR :: byte where "ruleItemIPCIDR \<equiv> 6"
abbreviation ruleItemSourcePort :: byte where "ruleItemSourcePort \<equiv> 7"
abbreviation ruleItemSourcePortRange :: byte where "ruleItemSourcePortRange \<equiv> 8"
abbreviation ruleItemPort :: byte where "ruleItemPort \<equiv> 9"
abbreviation ruleItemPortRange :: byte where "ruleItemPortRange \<equiv> 10"
abbreviation ruleItemProcessName :: byte where "ruleItemProcessName \<equiv> 11"
abbreviation ruleItemProcessPath :: byte where "ruleItemProcessPath \<equiv> 12"
abbreviation ruleItemPackageName :: byte where "ruleItemPackageName \<equiv> 13"
abbreviation ruleItemWIFISSID :: byte where "ruleItemWIFISSID \<equiv> 14"
abbreviation ruleItemWIFIBSSID :: byte where "ruleItemWIFIBSSID \<equiv> 15"
abbreviation ruleItemAdGuardDomain :: byte where "ruleItemAdGuardDomain \<equiv> 16"
abbreviation ruleItemProcessPathRegex :: byte where "ruleItemProcessPathRegex \<equiv> 17"
abbreviation ruleItemNetworkType :: byte where "ruleItemNetworkType \<equiv> 18"
abbreviation ruleItemNetworkIsExpensive :: byte where "ruleItemNetworkIsExpensive \<equiv> 19"
abbreviation ruleItemNetworkIsConstrained :: byte where "ruleItemNetworkIsConstrained \<equiv> 20"
abbreviation ruleItemNetworkInterfaceAddress :: byte where "ruleItemNetworkInterfaceAddress \<equiv> 21"
abbreviation ruleItemDefaultInterfaceAddress :: byte where "ruleItemDefaultInterfaceAddress \<equiv> 22"
abbreviation ruleItemPackageNameRegex :: byte where "ruleItemPackageNameRegex \<equiv> 23"
abbreviation ruleItemFinal :: byte where "ruleItemFinal \<equiv> 0xFF"

subsection \<open>Lists of strings and numbers\<close>

definition len :: "'a list \<Rightarrow> 64 word" where
  "len xs = of_nat (length xs)"

text \<open>A length, a buffer of that length, and its contents.\<close>

definition read_bytes :: "'x srs_io \<Rightarrow> byte list reader" where
  "read_bytes io bs =
     bind_result (ReadUvarint bs) (\<lambda>(strLen, bs).
     bind_result (make_slice io strLen) (\<lambda>_. ReadFull (unat strLen) bs))"

definition write_bytes :: "'x srs_io \<Rightarrow> byte list \<Rightarrow> byte list" where
  "write_bytes io b = io_WriteUvarint io (len b) @ b"

definition read_string :: "'x srs_io \<Rightarrow> string reader" where
  "read_string io bs = bind_result (read_bytes io bs) (\<lambda>(buf, bs). Inr (string_of buf, bs))"

definition readRuleItemString :: "'x srs_io \<Rightarrow> string list reader" where
  "readRuleItemString io bs =
     bind_result (ReadUvarint bs) (\<lambda>(n, bs).
     bind_result (make_slice io n) (\<lambda>_. read_n (read_string io) (unat n) bs))"

definition writeRuleItemString :: "'x srs_io \<Rightarrow> byte \<Rightarrow> string list \<Rightarrow> byte list" where
  "writeRuleItemString io itemType value =
     itemType # io_WriteUvarint io (len value) @ concat (map (\<lambda>s. write_bytes io (bytes_of s)) value)"

definition readRuleItemUint8 :: "'x srs_io \<Rightarrow> byte list reader" where
  "readRuleItemUint8 io bs =
     bind_result (ReadUvarint bs) (\<lambda>(n, bs).
     bind_result (make_slice io n) (\<lambda>_. ReadFull (unat n) bs))"

definition writeRuleItemUint8 :: "'x srs_io \<Rightarrow> byte \<Rightarrow> byte list \<Rightarrow> byte list" where
  "writeRuleItemUint8 io itemType value = itemType # io_WriteUvarint io (len value) @ value"

definition readRuleItemUint16 :: "'x srs_io \<Rightarrow> 16 word list reader" where
  "readRuleItemUint16 io bs =
     bind_result (ReadUvarint bs) (\<lambda>(n, bs).
     bind_result (make_slice io n) (\<lambda>_. read_uint16s (unat n) bs))"

definition writeRuleItemUint16 :: "'x srs_io \<Rightarrow> byte \<Rightarrow> 16 word list \<Rightarrow> byte list" where
  "writeRuleItemUint16 io itemType value = itemType # io_WriteUvarint io (len value) @ write_uint16s value"

subsection \<open>Prefixes and IP sets\<close>

fun addr_AsSlice :: "netip_addr \<Rightarrow> byte list" where
  "addr_AsSlice (Z0 _) = []"
| "addr_AsSlice (A4 w) = write_be 4 w"
| "addr_AsSlice (A6 w _) = write_be 16 w"

definition readPrefix :: "'x env \<Rightarrow> 'x srs_io \<Rightarrow> netip_prefix reader" where
  "readPrefix e io bs =
     bind_result (read_bytes io bs) (\<lambda>(addrSlice, bs).
     bind_result (ReadByte bs) (\<lambda>(prefixBits, bs).
       Inr (PrefixFrom (x_AddrFromIP e addrSlice) (uint prefixBits), bs)))"

definition writePrefix :: "'x srs_io \<Rightarrow> netip_prefix \<Rightarrow> byte list" where
  "writePrefix io prefix =
     write_bytes io (addr_AsSlice (pfx_ip prefix)) @ [of_int (int (pfx_bitsPlusOne prefix) - 1)]"

definition read_range :: "'x env \<Rightarrow> 'x srs_io \<Rightarrow> (netip_addr \<times> netip_addr) reader" where
  "read_range e io bs =
     bind_result (read_bytes io bs) (\<lambda>(fromBytes, bs).
     bind_result (read_bytes io bs) (\<lambda>(toBytes, bs).
       Inr ((x_AddrFromIP e fromBytes, x_AddrFromIP e toBytes), bs)))"

definition readIPSet :: "'x env \<Rightarrow> 'x srs_io \<Rightarrow> ipset reader" where
  "readIPSet e io bs =
     bind_result (ReadByte bs) (\<lambda>(version, bs).
     if version \<noteq> 1 then Inl (E_Sentinel ''invalid argument'')
     else bind_result (read_uint64 bs) (\<lambda>(n, bs).
     bind_result (make_slice io n) (\<lambda>_. read_n (read_range e io) (unat n) bs)))"

definition write_range :: "'x srs_io \<Rightarrow> netip_addr \<times> netip_addr \<Rightarrow> byte list" where
  "write_range io rr = write_bytes io (addr_AsSlice (fst rr)) @ write_bytes io (addr_AsSlice (snd rr))"

definition writeIPSet :: "'x srs_io \<Rightarrow> ipset \<Rightarrow> byte list" where
  "writeIPSet io rr = 1 # write_uint64 (len rr) @ concat (map (write_range io) rr)"

definition writeRuleItemCIDR :: "'x env \<Rightarrow> 'x srs_io \<Rightarrow> byte \<Rightarrow> string list \<Rightarrow> byte list result" where
  "writeRuleItemCIDR e io itemType value =
     bind_result (cidr_entries 0 value) (\<lambda>entries.
     bind_result (x_IPSetBuild e entries) (\<lambda>ipSet. Inr (itemType # writeIPSet io ipSet)))"

text \<open>The list of prefixes of an interface, and the map from interface types to such lists.\<close>

definition read_prefixes :: "'x env \<Rightarrow> 'x srs_io \<Rightarrow> netip_prefix list reader" where
  "read_prefixes e io bs = bind_result (ReadUvarint bs) (\<lambda>(n, bs). read_n (readPrefix e io) (unat n) bs)"

definition write_prefixes :: "'x srs_io \<Rightarrow> netip_prefix list \<Rightarrow> byte list" where
  "write_prefixes io ps = io_WriteUvarint io (len ps) @ concat (map (writePrefix io) ps)"

definition read_entry :: "'x env \<Rightarrow> 'x srs_io \<Rightarrow> (byte \<times> netip_prefix list) reader" where
  "read_entry e io bs =
     bind_result (read_uint8 bs) (\<lambda>(key, bs).
     bind_result (read_prefixes e io bs) (\<lambda>(value, bs). Inr ((key, value), bs)))"

definition write_entry :: "'x srs_io \<Rightarrow> byte \<times> netip_prefix list \<Rightarrow> byte list" where
  "write_entry io entry = fst entry # write_prefixes io (snd entry)"

text \<open>\<^verbatim>\<open>TypedMap.Put\<close> on the ordered map as the list of its entries.\<close>

fun put_entry :: "'k \<times> 'v \<Rightarrow> ('k \<times> 'v) list \<Rightarrow> ('k \<times> 'v) list" where
  "put_entry (k, v) [] = [(k, v)]"
| "put_entry (k, v) ((k', v') # es) = (if k = k' then (k, v) # es else (k', v') # put_entry (k, v) es)"

subsection \<open>Default rules\<close>

text \<open>One pass of the loop of \<^verbatim>\<open>readDefaultRule\<close> for an item that is not the final one;
  \<open>upd\<close> stores the value read.\<close>

definition read_into :: "'a reader \<Rightarrow> ('a \<Rightarrow> 'r \<Rightarrow> 'r) \<Rightarrow> 'r \<Rightarrow> 'r reader" where
  "read_into get upd rule bs = bind_result (get bs) (\<lambda>(v, bs). Inr (upd v rule, bs))"

definition read_item ::
  "'x env \<Rightarrow> 'x srs_io \<Rightarrow> bool \<Rightarrow> byte \<Rightarrow> byte \<Rightarrow> 'x DefaultHeadlessRule \<Rightarrow> 'x DefaultHeadlessRule reader" where
  "read_item e io recover lastItemType itemType rule =
     (if itemType = ruleItemQueryType then
        read_into (readRuleItemUint16 io) (\<lambda>v r. r\<lparr>h_QueryType := v\<rparr>) rule
      else if itemType = ruleItemNetwork then
        read_into (readRuleItemString io) (\<lambda>v r. r\<lparr>h_Network := v\<rparr>) rule
      else if itemType = ruleItemDomain then
        read_into (io_ReadMatcher io) (\<lambda>matcher r.
          (let r = r\<lparr>h_DomainMatcher := Some matcher\<rparr> in
           if recover then r\<lparr>h_Domain := fst (io_DumpMatcher io matcher), h_DomainSuffix := snd (io_DumpMatcher io matcher)\<rparr>
           else r)) rule
      else if itemType = ruleItemDomainKeyword then
        read_into (readRuleItemString io) (\<lambda>v r. r\<lparr>h_DomainKeyword := v\<rparr>) rule
      else if itemType = ruleItemDomainRegex then
        read_into (readRuleItemString io) (\<lambda>v r. r\<lparr>h_DomainRegex := v\<rparr>) rule
      else if itemType = ruleItemSourceIPCIDR then
        read_into (readIPSet e io) (\<lambda>ipSet r.
          (let r = r\<lparr>h_SourceIPSet := Some ipSet\<rparr> in
           if recover then r\<lparr>h_SourceIPCIDR := map prefix_String (io_Prefixes io ipSet)\<rparr> else r)) rule
      else if itemType = ruleItemIPCIDR then
        read_into (readIPSet e io) (\<lambda>ipSet r.
          (let r = r\<lparr>h_IPSet := Some ipSet\<rparr> in
           if recover then r\<lparr>h_IPCIDR := map prefix_String (io_Prefixes io ipSet)\<rparr> else r)) rule
      else if itemType = ruleItemSourcePort then
        read_into (readRuleItemUint16 io) (\<lambda>v r. r\<lparr>h_SourcePort := v\<rparr>) rule
      else if itemType = ruleItemSourcePortRange then
        read_into (readRuleItemString io) (\<lambda>v r. r\<lparr>h_SourcePortRange := v\<rparr>) rule
      else if itemType = ruleItemPort then
        read_into (readRuleItemUint16 io) (\<lambda>v r. r\<lparr>h_Port := v\<rparr>) rule
      else if itemType = ruleItemPortRange then
        read_into (readRuleItemString io) (\<lambda>v r. r\<lparr>h_PortRange := v\<rparr>) rule
      else if itemType = ruleItemProcessName then
        read_into (readRuleItemString io) (\<lambda>v r. r\<lparr>h_ProcessName := v\<rparr>) rule
      else if itemType = ruleItemProcessPath then
        read_into (readRuleItemString io) (\<lambda>v r. r\<lparr>h_ProcessPath := v\<rparr>) rule
      else if itemType = ruleItemProcessPathRegex then
        read_into (readRuleItemString io) (\<lambda>v r. r\<lparr>h_ProcessPathRegex := v\<rparr>) rule
      else if itemType = ruleItemPackageName then
        read_into (readRuleItemString io) (\<lambda>v r. r\<lparr>h_PackageName := v\<rparr>) rule
      else if itemType = ruleItemPackageNameRegex then
        read_into (readRuleItemString io) (\<lambda>v r. r\<lparr>h_PackageNameRegex := v\<rparr>) rule
      else if itemType = ruleItemWIFISSID then
        read_into (readRuleItemString io) (\<lambda>v r. r\<lparr>h_WIFISSID := v\<rparr>) rule
      else if itemType = ruleItemWIFIBSSID then
        read_into (readRuleItemString io) (\<lambda>v r. r\<lparr>h_WIFIBSSID := v\<rparr>) rule
      else if itemType = ruleItemAdGuardDomain then
        read_into (io_ReadAdGuard io) (\<lambda>matcher r.
          (let r = r\<lparr>h_AdGuardDomainMatcher := Some matcher\<rparr> in
           if recover then r\<lparr>h_AdGuardDomain := io_DumpAdGuard io matcher\<rparr> else r)) rule
      else if itemType = ruleItemNetworkType then
        read_into (readRuleItemUint8 io) (\<lambda>v r. r\<lparr>h_NetworkType := v\<rparr>) rule
      else if itemType = ruleItemNetworkIsExpensive then (\<lambda>bs. Inr (rule\<lparr>h_NetworkIsExpensive := True\<rparr>, bs))
      else if itemType = ruleItemNetworkIsConstrained then (\<lambda>bs. Inr (rule\<lparr>h_NetworkIsConstrained := True\<rparr>, bs))
      else if itemType = ruleItemNetworkInterfaceAddress then
        read_into (\<lambda>bs. bind_result (ReadUvarint bs) (\<lambda>(size, bs). read_n (read_entry e io) (unat size) bs))
          (\<lambda>entries r. r\<lparr>h_NetworkInterfaceAddress := fold put_entry entries []\<rparr>) rule
      else if itemType = ruleItemDefaultInterfaceAddress then
        read_into (read_prefixes e io) (\<lambda>v r. r\<lparr>h_DefaultInterfaceAddress := v\<rparr>) rule
      else (\<lambda>bs. Inl (E_New (''unknown rule item type: '' @ show_nat (unat itemType) @
              '', last type: '' @ show_nat (unat lastItemType)))))"

fun readDefaultRule_loop ::
  "'x env \<Rightarrow> 'x srs_io \<Rightarrow> bool \<Rightarrow> nat \<Rightarrow> byte \<Rightarrow> 'x DefaultHeadlessRule \<Rightarrow> 'x DefaultHeadlessRule reader" where
  "readDefaultRule_loop e io recover 0 lastItemType rule bs = Inl out_of_fuel"
| "readDefaultRule_loop e io recover (Suc n) lastItemType rule bs =
     bind_result (read_uint8 bs) (\<lambda>(itemType, bs).
     if itemType = ruleItemFinal then
       bind_result (read_bool bs) (\<lambda>(invert, bs). Inr (rule\<lparr>h_Invert := invert\<rparr>, bs))
     else
       bind_result (read_item e io recover lastItemType itemType rule bs) (\<lambda>(rule, bs).
         readDefaultRule_loop e io recover n itemType rule bs))"

definition readDefaultRule :: "'x env \<Rightarrow> 'x srs_io \<Rightarrow> bool \<Rightarrow> nat \<Rightarrow> 'x DefaultHeadlessRule reader" where
  "readDefaultRule e io recover n = readDefaultRule_loop e io recover n 0 headless_rule_zero"

text \<open>
  \<^verbatim>\<open>writeDefaultRule\<close>: each \<^verbatim>\<open>if\<close> of the source is a step, a condition with the bytes
  it writes or the error it returns, in the order of the source.
\<close>

datatype wstep = WStep bool "byte list result"

fun run_writes :: "wstep list \<Rightarrow> byte list result" where
  "run_writes [] = Inr []"
| "run_writes (WStep cond out # steps) =
     (if cond then bind_result out (\<lambda>bs. bind_result (run_writes steps) (\<lambda>cs. Inr (bs @ cs)))
      else run_writes steps)"

definition since_version :: "byte \<Rightarrow> byte \<Rightarrow> string \<Rightarrow> byte list \<Rightarrow> byte list result" where
  "since_version generateVersion version message out =
     (if generateVersion < version then Inl (E_New message) else Inr out)"

definition write_steps_address ::
  "'x env \<Rightarrow> 'x srs_io \<Rightarrow> byte \<Rightarrow> 'x DefaultHeadlessRule \<Rightarrow> wstep list" where
  "write_steps_address e io generateVersion rule =
     [WStep (h_QueryType rule \<noteq> []) (Inr (writeRuleItemUint16 io ruleItemQueryType (h_QueryType rule))),
      WStep (h_Network rule \<noteq> []) (Inr (writeRuleItemString io ruleItemNetwork (h_Network rule))),
      WStep (h_Domain rule \<noteq> [] \<or> h_DomainSuffix rule \<noteq> [])
        (Inr (ruleItemDomain # io_WriteMatcher io
           (x_NewMatcher e (h_Domain rule) (h_DomainSuffix rule) (generateVersion = 1)))),
      WStep (h_DomainKeyword rule \<noteq> []) (Inr (writeRuleItemString io ruleItemDomainKeyword (h_DomainKeyword rule))),
      WStep (h_DomainRegex rule \<noteq> []) (Inr (writeRuleItemString io ruleItemDomainRegex (h_DomainRegex rule))),
      WStep (h_SourceIPCIDR rule \<noteq> [])
        (cause_result ''source_ip_cidr'' (writeRuleItemCIDR e io ruleItemSourceIPCIDR (h_SourceIPCIDR rule))),
      WStep (h_IPCIDR rule \<noteq> [])
        (cause_result ''ipcidr'' (writeRuleItemCIDR e io ruleItemIPCIDR (h_IPCIDR rule)))]"

definition write_steps_process :: "'x srs_io \<Rightarrow> byte \<Rightarrow> 'x DefaultHeadlessRule \<Rightarrow> wstep list" where
  "write_steps_process io generateVersion rule =
     [WStep (h_SourcePort rule \<noteq> []) (Inr (writeRuleItemUint16 io ruleItemSourcePort (h_SourcePort rule))),
      WStep (h_SourcePortRange rule \<noteq> []) (Inr (writeRuleItemString io ruleItemSourcePortRange (h_SourcePortRange rule))),
      WStep (h_Port rule \<noteq> []) (Inr (writeRuleItemUint16 io ruleItemPort (h_Port rule))),
      WStep (h_PortRange rule \<noteq> []) (Inr (writeRuleItemString io ruleItemPortRange (h_PortRange rule))),
      WStep (h_ProcessName rule \<noteq> []) (Inr (writeRuleItemString io ruleItemProcessName (h_ProcessName rule))),
      WStep (h_ProcessPath rule \<noteq> []) (Inr (writeRuleItemString io ruleItemProcessPath (h_ProcessPath rule))),
      WStep (h_ProcessPathRegex rule \<noteq> []) (Inr (writeRuleItemString io ruleItemProcessPathRegex (h_ProcessPathRegex rule))),
      WStep (h_PackageName rule \<noteq> []) (Inr (writeRuleItemString io ruleItemPackageName (h_PackageName rule))),
      WStep (h_PackageNameRegex rule \<noteq> [])
        (since_version generateVersion 5 ''`package_name_regex` rule item is only supported in version 5 or later''
          (writeRuleItemString io ruleItemPackageNameRegex (h_PackageNameRegex rule)))]"

definition write_steps_network ::
  "'x env \<Rightarrow> 'x srs_io \<Rightarrow> byte \<Rightarrow> 'x DefaultHeadlessRule \<Rightarrow> wstep list" where
  "write_steps_network e io generateVersion rule =
     [WStep (h_NetworkType rule \<noteq> [])
        (since_version generateVersion 3 ''`network_type` rule item is only supported in version 3 or later''
          (writeRuleItemUint8 io ruleItemNetworkType (h_NetworkType rule))),
      WStep (h_NetworkIsExpensive rule)
        (since_version generateVersion 3 ''`network_is_expensive` rule item is only supported in version 3 or later''
          [ruleItemNetworkIsExpensive]),
      WStep (h_NetworkIsConstrained rule)
        (since_version generateVersion 3 ''`network_is_constrained` rule item is only supported in version 3 or later''
          [ruleItemNetworkIsConstrained]),
      WStep (h_NetworkInterfaceAddress rule \<noteq> [])
        (since_version generateVersion 4 ''`network_interface_address` rule item is only supported in version 4 or later''
          (ruleItemNetworkInterfaceAddress # io_WriteUvarint io (len (h_NetworkInterfaceAddress rule)) @
             concat (map (write_entry io) (h_NetworkInterfaceAddress rule)))),
      WStep (h_DefaultInterfaceAddress rule \<noteq> [])
        (since_version generateVersion 4 ''`default_interface_address` rule item is only supported in version 4 or later''
          (ruleItemDefaultInterfaceAddress # write_prefixes io (h_DefaultInterfaceAddress rule))),
      WStep (h_WIFISSID rule \<noteq> []) (Inr (writeRuleItemString io ruleItemWIFISSID (h_WIFISSID rule))),
      WStep (h_WIFIBSSID rule \<noteq> []) (Inr (writeRuleItemString io ruleItemWIFIBSSID (h_WIFIBSSID rule))),
      WStep (h_AdGuardDomain rule \<noteq> [])
        (since_version generateVersion 2 ''AdGuard rule items is only supported in version 2 or later''
          (ruleItemAdGuardDomain # io_WriteAdGuard io (x_NewAdGuardMatcher e (h_AdGuardDomain rule))))]"

definition write_steps :: "'x env \<Rightarrow> 'x srs_io \<Rightarrow> byte \<Rightarrow> 'x DefaultHeadlessRule \<Rightarrow> wstep list" where
  "write_steps e io generateVersion rule =
     write_steps_address e io generateVersion rule @ write_steps_process io generateVersion rule @
     write_steps_network e io generateVersion rule"

definition writeDefaultRule ::
  "'x env \<Rightarrow> 'x srs_io \<Rightarrow> 'x DefaultHeadlessRule \<Rightarrow> byte \<Rightarrow> byte list result" where
  "writeDefaultRule e io rule generateVersion =
     bind_result (run_writes (write_steps e io generateVersion rule)) (\<lambda>items.
       Inr (0 # items @ ruleItemFinal # write_bool (h_Invert rule)))"

subsection \<open>Rules\<close>

text \<open>The loop over \<open>n\<close> rules; an error names the index.\<close>

fun read_rules :: "string \<Rightarrow> 'a reader \<Rightarrow> nat \<Rightarrow> nat \<Rightarrow> 'a list reader" where
  "read_rules msg get i 0 bs = Inr ([], bs)"
| "read_rules msg get i (Suc n) bs =
     bind_result (cause (msg @ show_nat i @ '']'') (get bs)) (\<lambda>(x, bs).
     bind_result (read_rules msg get (Suc i) n bs) (\<lambda>(xs, bs). Inr (x # xs, bs)))"

text \<open>\<^verbatim>\<open>readLogicalRule\<close>, given \<^verbatim>\<open>readRule\<close> for the rules below it.\<close>

definition readLogicalRule ::
  "'x srs_io \<Rightarrow> 'x headless_options reader \<Rightarrow> 'x headless_options reader" where
  "readLogicalRule io readRule bs =
     bind_result (ReadByte bs) (\<lambda>(mode, bs).
     if mode \<noteq> 0 \<and> mode \<noteq> 1 then Inl (E_New (''unknown logical mode: '' @ show_nat (unat mode)))
     else bind_result (ReadUvarint bs) (\<lambda>(n, bs).
     bind_result (make_slice io n) (\<lambda>_.
     bind_result (read_rules ''read logical rule ['' readRule 0 (unat n) bs) (\<lambda>(rules, bs).
     bind_result (read_bool bs) (\<lambda>(invert, bs).
       Inr (LogicalHeadless (if mode = 0 then ''and'' else ''or'') rules invert, bs))))))"

primrec readRule :: "'x env \<Rightarrow> 'x srs_io \<Rightarrow> bool \<Rightarrow> nat \<Rightarrow> 'x headless_options reader" where
  "readRule e io recover 0 = (\<lambda>bs. Inl out_of_fuel)"
| "readRule e io recover (Suc n) = (\<lambda>bs.
     bind_result (read_uint8 bs) (\<lambda>(ruleType, bs).
     if ruleType = 0 then
       bind_result (readDefaultRule e io recover n bs) (\<lambda>(rule, bs). Inr (DefaultHeadless rule, bs))
     else if ruleType = 1 then readLogicalRule io (readRule e io recover n) bs
     else Inl (E_New (''unknown rule type: '' @ show_nat (unat ruleType)))))"

text \<open>\<^verbatim>\<open>writeLogicalRule\<close> panics on an unknown mode before it writes the rules below.\<close>

definition logical_mode :: "string \<Rightarrow> byte result" where
  "logical_mode mode = (if mode = ''and'' then Inr 0 else if mode = ''or'' then Inr 1 else Inl panic)"

definition writeLogicalRule :: "'x srs_io \<Rightarrow> byte \<Rightarrow> byte list list \<Rightarrow> bool \<Rightarrow> byte list" where
  "writeLogicalRule io mode rules invert =
     1 # mode # io_WriteUvarint io (len rules) @ concat rules @ write_bool invert"

fun writeRule :: "'x env \<Rightarrow> 'x srs_io \<Rightarrow> byte \<Rightarrow> 'x headless_options \<Rightarrow> byte list result" where
  "writeRule e io generateVersion (DefaultHeadless rule) = writeDefaultRule e io rule generateVersion"
| "writeRule e io generateVersion (LogicalHeadless mode rules invert) =
     bind_result (logical_mode mode) (\<lambda>m.
     bind_result (map_result (writeRule e io generateVersion) rules) (\<lambda>out.
       Inr (writeLogicalRule io m out invert)))"

subsection \<open>Rule-set files\<close>

definition MagicBytes :: "byte list" where
  "MagicBytes = [0x53, 0x52, 0x53]"

abbreviation RuleSetVersionCurrent :: byte where
  "RuleSetVersionCurrent \<equiv> 5"

text \<open>The fuel is the number of bytes: every level of nesting and every item takes one.\<close>

definition Read :: "'x env \<Rightarrow> 'x srs_io \<Rightarrow> bool \<Rightarrow> byte list \<Rightarrow> (byte \<times> 'x headless_options list) result" where
  "Read e io recover bs =
     bind_result (ReadFull 3 bs) (\<lambda>(magicBytes, bs).
     if magicBytes \<noteq> MagicBytes then Inl (E_New ''invalid sing-box rule-set file'')
     else bind_result (read_uint8 bs) (\<lambda>(version, bs).
     if RuleSetVersionCurrent < version then Inl (E_New (''unsupported version: '' @ show_nat (unat version)))
     else bind_result (io_inflate io bs) (\<lambda>bs.
     bind_result (ReadUvarint bs) (\<lambda>(n, bs).
     bind_result (make_slice io n) (\<lambda>_.
     bind_result (read_rules ''read rule['' (readRule e io recover (Suc (length bs))) 0 (unat n) bs) (\<lambda>(rules, _).
       Inr (version, rules)))))))"

definition Write :: "'x env \<Rightarrow> 'x srs_io \<Rightarrow> 'x headless_options list \<Rightarrow> byte \<Rightarrow> byte list result" where
  "Write e io rules generateVersion =
     bind_result (map_result (writeRule e io generateVersion) rules) (\<lambda>out.
       Inr (MagicBytes @ generateVersion # io_deflate io (io_WriteUvarint io (len rules) @ concat out)))"

end
