(* ===== verification/Srs_Codec.thy ===== *)
theory Srs_Codec
  imports Srs
begin

text \<open>
  The properties of the binary rule-set format: what is written is read back, reading always
  ends, and a rule read from a file matches like the rule it was compiled from.
\<close>

subsection \<open>What the format relies on\<close>

text \<open>
  The documented behaviour of the code outside the repository: \<^verbatim>\<open>varbin\<close> writes the
  integers \<^verbatim>\<open>encoding/binary\<close> reads, matchers and compressed streams are read back,
  \<^verbatim>\<open>AddrFromIP\<close> inverts \<^verbatim>\<open>AsSlice\<close>, the ranges of an IP set are valid addresses
  without zone, and a slice of up to \<open>N\<close> elements can be made.
\<close>

definition srs_io_ok :: "'x env \<Rightarrow> 'x srs_io \<Rightarrow> nat \<Rightarrow> bool" where
  "srs_io_ok e io N \<longleftrightarrow>
     (\<forall>n. io_WriteUvarint io n = PutUvarint n) \<and>
     (\<forall>m rest. io_ReadMatcher io (io_WriteMatcher io m @ rest) = Inr (m, rest)) \<and>
     (\<forall>m rest. io_ReadAdGuard io (io_WriteAdGuard io m @ rest) = Inr (m, rest)) \<and>
     (\<forall>a. addr_IsValid a \<and> \<not> addr_hasZone a \<longrightarrow> x_AddrFromIP e (addr_AsSlice a) = a) \<and>
     (\<forall>es rr. x_IPSetBuild e es = Inr rr \<longrightarrow>
        list_all (\<lambda>(a, b). addr_IsValid a \<and> \<not> addr_hasZone a \<and> addr_IsValid b \<and> \<not> addr_hasZone b) rr) \<and>
     (\<forall>bs. io_inflate io (io_deflate io bs) = Inr bs) \<and>
     (\<forall>n\<le>N. io_makeslice io n) \<and> 16 \<le> N \<and> N < 2 ^ 64"

lemma unat_len: "length xs \<le> N \<Longrightarrow> N < 2 ^ 64 \<Longrightarrow> unat (len xs) = length xs"
  by (simp add: len_def unat_of_nat take_bit_nat_eq_self)

lemma io_laws:
  assumes "srs_io_ok e io N"
  shows io_uvarint: "ReadUvarint (io_WriteUvarint io n @ rest) = Inr (n, rest)"
    and io_matcher: "io_ReadMatcher io (io_WriteMatcher io m @ rest) = Inr (m, rest)"
    and io_adguard: "io_ReadAdGuard io (io_WriteAdGuard io m @ rest) = Inr (m, rest)"
    and io_addr: "addr_IsValid a \<Longrightarrow> \<not> addr_hasZone a \<Longrightarrow> x_AddrFromIP e (addr_AsSlice a) = a"
    and io_make: "length xs \<le> N \<Longrightarrow> make_slice io (len xs) = Inr ()"
    and io_len: "length xs \<le> N \<Longrightarrow> unat (len xs) = length xs"
    and io_16: "16 \<le> N"
    and io_zlib: "io_inflate io (io_deflate io bs) = Inr bs"
  using assms uvarint_codec.round_trip [of n rest] unat_len [of xs N]
  by (simp_all add: srs_io_ok_def make_slice_def)

lemma io_ranges:
  assumes "srs_io_ok e io N" "x_IPSetBuild e es = Inr rr" "(a, b) \<in> set rr"
  shows "addr_IsValid a \<and> \<not> addr_hasZone a \<and> addr_IsValid b \<and> \<not> addr_hasZone b"
  using assms unfolding srs_io_ok_def list_all_iff by fast

subsection \<open>Items\<close>

lemma bytes_codec:
  assumes "srs_io_ok e io N"
  shows "codec (write_bytes io) (read_bytes io) (\<lambda>b. length b \<le> N)"
  by unfold_locales
    (simp add: read_bytes_def write_bytes_def io_uvarint [OF assms] io_make [OF assms] io_len [OF assms])

lemma string_codec:
  assumes "srs_io_ok e io N"
  shows "codec (\<lambda>s. write_bytes io (bytes_of s)) (read_string io) (\<lambda>s. length s \<le> N)"
  by unfold_locales (simp add: read_string_def codec.round_trip [OF bytes_codec [OF assms]])

lemma item_strings:
  assumes "srs_io_ok e io N" "length xs \<le> N" "list_all (\<lambda>s. length s \<le> N) xs"
  shows "readRuleItemString io ((io_WriteUvarint io (len xs) @
    concat (map (\<lambda>s. write_bytes io (bytes_of s)) xs)) @ rest) = Inr (xs, rest)"
  using codec.read_n_round_trip [OF string_codec [OF assms(1)] assms(3)]
  by (simp add: readRuleItemString_def io_uvarint [OF assms(1)] io_make [OF assms(1,2)] io_len [OF assms(1,2)])

lemma item_uint8:
  assumes "srs_io_ok e io N" "length xs \<le> N"
  shows "readRuleItemUint8 io ((io_WriteUvarint io (len xs) @ xs) @ rest) = Inr (xs, rest)"
  by (simp add: readRuleItemUint8_def io_uvarint [OF assms(1)] io_make [OF assms] io_len [OF assms])

lemma item_uint16:
  assumes "srs_io_ok e io N" "length xs \<le> N"
  shows "readRuleItemUint16 io ((io_WriteUvarint io (len xs) @ write_uint16s xs) @ rest) = Inr (xs, rest)"
  by (simp add: readRuleItemUint16_def io_uvarint [OF assms(1)] io_make [OF assms] io_len [OF assms]
      read_uint16s_round_trip)

lemma length_AsSlice: "length (addr_AsSlice a) \<le> 16"
  by (cases a) simp_all

text \<open>A prefix as \<^verbatim>\<open>netip.PrefixFrom\<close> makes it.\<close>

definition wf_prefix :: "netip_prefix \<Rightarrow> bool" where
  "wf_prefix p \<longleftrightarrow> addr_IsValid (pfx_ip p) \<and> \<not> addr_hasZone (pfx_ip p) \<and>
     0 < pfx_bitsPlusOne p \<and> pfx_bitsPlusOne p \<le> addr_BitLen (pfx_ip p) + 1"

lemma addr_bytes:
  assumes "srs_io_ok e io N"
  shows "read_bytes io (write_bytes io (addr_AsSlice a) @ rest) = Inr (addr_AsSlice a, rest)"
  using codec.round_trip [OF bytes_codec [OF assms]] length_AsSlice [of a] io_16 [OF assms] by simp

lemma prefix_codec:
  assumes "srs_io_ok e io N"
  shows "codec (writePrefix io) (readPrefix e io) wf_prefix"
proof
  fix p rest assume p: "wf_prefix p"
  have "addr_BitLen (pfx_ip p) \<le> 128" by (cases "pfx_ip p") simp_all
  with p have "0 \<le> int (pfx_bitsPlusOne p) - 1" "int (pfx_bitsPlusOne p) - 1 < 2 ^ LENGTH(8)"
    by (auto simp: wf_prefix_def)
  then have "uint (of_int (int (pfx_bitsPlusOne p) - 1) :: byte) = int (pfx_bitsPlusOne p) - 1"
    unfolding uint_word_of_int_eq by (rule take_bit_int_eq_self)
  moreover have "PrefixFrom (pfx_ip p) (int (pfx_bitsPlusOne p) - 1) = p"
    using p by (cases "pfx_ip p"; cases p; auto simp: wf_prefix_def PrefixFrom_def)
  ultimately show "readPrefix e io (writePrefix io p @ rest) = Inr (p, rest)"
    using p io_addr [OF assms, of "pfx_ip p"]
    by (simp add: readPrefix_def writePrefix_def addr_bytes [OF assms] ReadByte_def wf_prefix_def)
qed

lemma range_codec:
  assumes "srs_io_ok e io N"
  shows "codec (write_range io) (read_range e io)
    (\<lambda>(a, b). addr_IsValid a \<and> \<not> addr_hasZone a \<and> addr_IsValid b \<and> \<not> addr_hasZone b)"
  by unfold_locales
    (auto simp: read_range_def write_range_def addr_bytes [OF assms] io_addr [OF assms])

lemma item_ipset:
  assumes "srs_io_ok e io N" "x_IPSetBuild e es = Inr rr" "length rr \<le> N"
  shows "readIPSet e io (writeIPSet io rr @ rest) = Inr (rr, rest)"
proof -
  have "list_all (\<lambda>(a, b). addr_IsValid a \<and> \<not> addr_hasZone a \<and> addr_IsValid b \<and> \<not> addr_hasZone b) rr"
    using io_ranges [OF assms(1,2)] by (auto simp: list_all_iff)
  from codec.read_n_round_trip [OF range_codec [OF assms(1)] this] show ?thesis
    by (simp add: readIPSet_def writeIPSet_def ReadByte_def uint64_codec.round_trip
        io_make [OF assms(1,3)] io_len [OF assms(1,3)])
qed

lemma prefixes_codec:
  assumes "srs_io_ok e io N"
  shows "codec (write_prefixes io) (read_prefixes e io) (\<lambda>ps. length ps \<le> N \<and> list_all wf_prefix ps)"
  by unfold_locales
    (simp add: read_prefixes_def write_prefixes_def io_uvarint [OF assms] io_len [OF assms]
      codec.read_n_round_trip [OF prefix_codec [OF assms]])

lemma entry_codec:
  assumes "srs_io_ok e io N"
  shows "codec (write_entry io) (read_entry e io) (\<lambda>(k, ps). length ps \<le> N \<and> list_all wf_prefix ps)"
  by unfold_locales
    (auto simp: read_entry_def write_entry_def read_uint8_def ReadByte_def
      codec.round_trip [OF prefixes_codec [OF assms]])

lemma fold_put_entry:
  "distinct (map fst (acc @ es)) \<Longrightarrow> fold put_entry es acc = acc @ es"
proof (induction es arbitrary: acc)
  case (Cons entry es)
  have "k \<notin> fst ` set acc \<Longrightarrow> put_entry (k, v) acc = acc @ [(k, v)]" for k v and acc :: "('a \<times> 'b) list"
    by (induction "(k, v)" acc rule: put_entry.induct) auto
  from this [of "fst entry" acc "snd entry"] Cons.prems Cons.IH [of "acc @ [entry]"] show ?case by auto
qed simp

subsection \<open>Default rules\<close>

text \<open>The bytes of one item are read by one pass of the loop, with the effect \<open>upd\<close>.\<close>

definition item_reads ::
  "'x env \<Rightarrow> 'x srs_io \<Rightarrow> bool \<Rightarrow> byte list \<Rightarrow> ('x DefaultHeadlessRule \<Rightarrow> 'x DefaultHeadlessRule) \<Rightarrow> bool" where
  "item_reads e io recover bs upd \<longleftrightarrow>
     (\<exists>tag payload. bs = tag # payload \<and> tag \<noteq> ruleItemFinal \<and>
        (\<forall>lastItem r rest. read_item e io recover lastItem tag r (payload @ rest) = Inr (upd r, rest)))"

lemma item_readsI:
  assumes "\<And>lastItem r. read_item e io recover lastItem tag r = read_into get upd r"
    and "\<And>rest. get (payload @ rest) = Inr (v, rest)" and "tag \<noteq> ruleItemFinal"
  shows "item_reads e io recover (tag # payload) (upd v)"
  unfolding item_reads_def using assms by (auto simp: read_into_def)

fun step_reads ::
  "'x env \<Rightarrow> 'x srs_io \<Rightarrow> bool \<Rightarrow> wstep \<Rightarrow> ('x DefaultHeadlessRule \<Rightarrow> 'x DefaultHeadlessRule) \<Rightarrow> bool" where
  "step_reads e io recover (WStep cond out) upd \<longleftrightarrow>
     (cond \<longrightarrow> (\<forall>bs. out = Inr bs \<longrightarrow> item_reads e io recover bs upd))"

fun step_effect :: "wstep \<times> ('r \<Rightarrow> 'r) \<Rightarrow> 'r \<Rightarrow> 'r" where
  "step_effect (WStep cond out, upd) r = (if cond then upd r else r)"

lemma loop_reads_steps:
  assumes "list_all2 (step_reads e io recover) steps upds" and "run_writes steps = Inr bs" and "length bs < n"
  shows "readDefaultRule_loop e io recover n lastItem r (bs @ ruleItemFinal # write_bool invert @ rest) =
    Inr ((fold step_effect (zip steps upds) r)\<lparr>h_Invert := invert\<rparr>, rest)"
  using assms
proof (induction steps upds arbitrary: bs n lastItem r rule: list_all2_induct)
  case Nil
  then obtain n' where n: "n = Suc n'" by (cases n) auto
  with Nil bool_codec.round_trip [of invert rest] show ?case by (simp add: read_uint8_def ReadByte_def)
next
  case (Cons step steps upd upds)
  obtain cond out where step: "step = WStep cond out" by (cases step)
  show ?case
  proof (cases cond)
    case False
    with Cons step show ?thesis by simp
  next
    case True
    with Cons.prems step obtain b bs' where out: "out = Inr b" and bs': "run_writes steps = Inr bs'" "bs = b @ bs'"
      by auto
    from Cons.hyps(1) step True out have "item_reads e io recover b upd" by simp
    then obtain tag payload where b: "b = tag # payload" "tag \<noteq> ruleItemFinal"
      and get: "\<And>lastItem r rest. read_item e io recover lastItem tag r (payload @ rest) = Inr (upd r, rest)"
      unfolding item_reads_def by blast
    obtain n' where n: "n = Suc n'" using Cons.prems(2) by (cases n) auto
    have "length bs' < n'" using Cons.prems(2) n bs' b by simp
    from Cons.IH [OF bs'(1) this, of tag "upd r"] show ?thesis
      using n b get True step bs'(2) by (simp add: read_uint8_def ReadByte_def)
  qed
qed

definition strings_fit :: "nat \<Rightarrow> string list \<Rightarrow> bool" where
  "strings_fit N xs \<longleftrightarrow> length xs \<le> N \<and> list_all (\<lambda>s. length s \<le> N) xs"

text \<open>The IP set of a list of prefixes and addresses.\<close>

definition ipset_of :: "'x env \<Rightarrow> string list \<Rightarrow> ipset" where
  "ipset_of e value =
     (case bind_result (cidr_entries 0 value) (x_IPSetBuild e) of Inr rr \<Rightarrow> rr | Inl _ \<Rightarrow> [])"

definition fits :: "'x env \<Rightarrow> nat \<Rightarrow> 'x DefaultHeadlessRule \<Rightarrow> bool" where
  "fits e N rule \<longleftrightarrow>
     list_all (strings_fit N)
       [h_Network rule, h_DomainKeyword rule, h_DomainRegex rule, h_SourcePortRange rule, h_PortRange rule,
        h_ProcessName rule, h_ProcessPath rule, h_ProcessPathRegex rule, h_PackageName rule,
        h_PackageNameRegex rule, h_WIFISSID rule, h_WIFIBSSID rule] \<and>
     length (h_QueryType rule) \<le> N \<and> length (h_SourcePort rule) \<le> N \<and> length (h_Port rule) \<le> N \<and>
     length (h_NetworkType rule) \<le> N \<and>
     length (ipset_of e (h_SourceIPCIDR rule)) \<le> N \<and> length (ipset_of e (h_IPCIDR rule)) \<le> N \<and>
     length (h_NetworkInterfaceAddress rule) \<le> N \<and> distinct (map fst (h_NetworkInterfaceAddress rule)) \<and>
     list_all (\<lambda>(k, ps). length ps \<le> N \<and> list_all wf_prefix ps) (h_NetworkInterfaceAddress rule) \<and>
     length (h_DefaultInterfaceAddress rule) \<le> N \<and> list_all wf_prefix (h_DefaultInterfaceAddress rule)"

text \<open>What reading the item of each step does to the rule, aligned with the steps of the writer.\<close>

definition decode_address ::
  "'x env \<Rightarrow> 'x srs_io \<Rightarrow> bool \<Rightarrow> byte \<Rightarrow> 'x DefaultHeadlessRule \<Rightarrow>
   ('x DefaultHeadlessRule \<Rightarrow> 'x DefaultHeadlessRule) list" where
  "decode_address e io recover version rule =
     (let matcher = x_NewMatcher e (h_Domain rule) (h_DomainSuffix rule) (version = 1);
          sources = ipset_of e (h_SourceIPCIDR rule); destinations = ipset_of e (h_IPCIDR rule) in
     [\<lambda>r. r\<lparr>h_QueryType := h_QueryType rule\<rparr>,
      \<lambda>r. r\<lparr>h_Network := h_Network rule\<rparr>,
      \<lambda>r. (let r = r\<lparr>h_DomainMatcher := Some matcher\<rparr> in
           if recover then r\<lparr>h_Domain := fst (io_DumpMatcher io matcher), h_DomainSuffix := snd (io_DumpMatcher io matcher)\<rparr>
           else r),
      \<lambda>r. r\<lparr>h_DomainKeyword := h_DomainKeyword rule\<rparr>,
      \<lambda>r. r\<lparr>h_DomainRegex := h_DomainRegex rule\<rparr>,
      \<lambda>r. (let r = r\<lparr>h_SourceIPSet := Some sources\<rparr> in
           if recover then r\<lparr>h_SourceIPCIDR := map prefix_String (io_Prefixes io sources)\<rparr> else r),
      \<lambda>r. (let r = r\<lparr>h_IPSet := Some destinations\<rparr> in
           if recover then r\<lparr>h_IPCIDR := map prefix_String (io_Prefixes io destinations)\<rparr> else r)])"

definition decode_process ::
  "'x DefaultHeadlessRule \<Rightarrow> ('x DefaultHeadlessRule \<Rightarrow> 'x DefaultHeadlessRule) list" where
  "decode_process rule =
     [\<lambda>r. r\<lparr>h_SourcePort := h_SourcePort rule\<rparr>, \<lambda>r. r\<lparr>h_SourcePortRange := h_SourcePortRange rule\<rparr>,
      \<lambda>r. r\<lparr>h_Port := h_Port rule\<rparr>, \<lambda>r. r\<lparr>h_PortRange := h_PortRange rule\<rparr>,
      \<lambda>r. r\<lparr>h_ProcessName := h_ProcessName rule\<rparr>, \<lambda>r. r\<lparr>h_ProcessPath := h_ProcessPath rule\<rparr>,
      \<lambda>r. r\<lparr>h_ProcessPathRegex := h_ProcessPathRegex rule\<rparr>, \<lambda>r. r\<lparr>h_PackageName := h_PackageName rule\<rparr>,
      \<lambda>r. r\<lparr>h_PackageNameRegex := h_PackageNameRegex rule\<rparr>]"

definition decode_network ::
  "'x env \<Rightarrow> 'x srs_io \<Rightarrow> bool \<Rightarrow> 'x DefaultHeadlessRule \<Rightarrow>
   ('x DefaultHeadlessRule \<Rightarrow> 'x DefaultHeadlessRule) list" where
  "decode_network e io recover rule =
     (let matcher = x_NewAdGuardMatcher e (h_AdGuardDomain rule) in
     [\<lambda>r. r\<lparr>h_NetworkType := h_NetworkType rule\<rparr>, \<lambda>r. r\<lparr>h_NetworkIsExpensive := True\<rparr>,
      \<lambda>r. r\<lparr>h_NetworkIsConstrained := True\<rparr>,
      \<lambda>r. r\<lparr>h_NetworkInterfaceAddress := h_NetworkInterfaceAddress rule\<rparr>,
      \<lambda>r. r\<lparr>h_DefaultInterfaceAddress := h_DefaultInterfaceAddress rule\<rparr>,
      \<lambda>r. r\<lparr>h_WIFISSID := h_WIFISSID rule\<rparr>, \<lambda>r. r\<lparr>h_WIFIBSSID := h_WIFIBSSID rule\<rparr>,
      \<lambda>r. (let r = r\<lparr>h_AdGuardDomainMatcher := Some matcher\<rparr> in
           if recover then r\<lparr>h_AdGuardDomain := io_DumpAdGuard io matcher\<rparr> else r)])"

lemma string_step:
  assumes io: "srs_io_ok e io N" and xs: "strings_fit N xs" and tag: "tag \<noteq> ruleItemFinal"
    and "\<And>lastItem r. read_item e io recover lastItem tag r = read_into (readRuleItemString io) upd r"
  shows "item_reads e io recover (writeRuleItemString io tag xs) (upd xs)"
  unfolding writeRuleItemString_def
  using assms by (intro item_readsI [OF _ item_strings]) (auto simp: strings_fit_def)

lemma uint16_step:
  assumes io: "srs_io_ok e io N" and xs: "length xs \<le> N" and tag: "tag \<noteq> ruleItemFinal"
    and "\<And>lastItem r. read_item e io recover lastItem tag r = read_into (readRuleItemUint16 io) upd r"
  shows "item_reads e io recover (writeRuleItemUint16 io tag xs) (upd xs)"
  unfolding writeRuleItemUint16_def
  using assms by (intro item_readsI [OF _ item_uint16]) auto

lemma cidr_step:
  assumes io: "srs_io_ok e io N" and n: "length (ipset_of e value) \<le> N" and tag: "tag \<noteq> ruleItemFinal"
    and get: "\<And>lastItem r. read_item e io recover lastItem tag r = read_into (readIPSet e io) upd r"
    and out: "writeRuleItemCIDR e io tag value = Inr bs"
  shows "item_reads e io recover bs (upd (ipset_of e value))"
proof -
  from out obtain entries rr where b: "cidr_entries 0 value = Inr entries" "x_IPSetBuild e entries = Inr rr"
    "bs = tag # writeIPSet io rr"
    by (auto simp: writeRuleItemCIDR_def)
  then have "ipset_of e value = rr" by (simp add: ipset_of_def)
  with b n show ?thesis using item_readsI [OF get item_ipset [OF io b(2)] tag] by simp
qed

lemma address_steps_read:
  assumes io: "srs_io_ok e io N" and fit: "fits e N rule"
  shows "list_all2 (step_reads e io recover) (write_steps_address e io version rule)
    (decode_address e io recover version rule)"
proof -
  have s: "strings_fit N (h_Network rule)" "strings_fit N (h_DomainKeyword rule)" "strings_fit N (h_DomainRegex rule)"
    and l: "length (h_QueryType rule) \<le> N"
      "length (ipset_of e (h_SourceIPCIDR rule)) \<le> N" "length (ipset_of e (h_IPCIDR rule)) \<le> N"
    using fit by (simp_all add: fits_def)
  have "item_reads e io recover (writeRuleItemUint16 io ruleItemQueryType (h_QueryType rule))
      (\<lambda>r. r\<lparr>h_QueryType := h_QueryType rule\<rparr>)"
    by (rule uint16_step [OF io l(1), where upd = "\<lambda>v r. r\<lparr>h_QueryType := v\<rparr>"]) (simp_all add: read_item_def)
  moreover have "item_reads e io recover (writeRuleItemString io ruleItemNetwork (h_Network rule))
      (\<lambda>r. r\<lparr>h_Network := h_Network rule\<rparr>)"
    by (rule string_step [OF io s(1), where upd = "\<lambda>v r. r\<lparr>h_Network := v\<rparr>"]) (simp_all add: read_item_def)
  moreover have "item_reads e io recover (writeRuleItemString io ruleItemDomainKeyword (h_DomainKeyword rule))
      (\<lambda>r. r\<lparr>h_DomainKeyword := h_DomainKeyword rule\<rparr>)"
    by (rule string_step [OF io s(2), where upd = "\<lambda>v r. r\<lparr>h_DomainKeyword := v\<rparr>"]) (simp_all add: read_item_def)
  moreover have "item_reads e io recover (writeRuleItemString io ruleItemDomainRegex (h_DomainRegex rule))
      (\<lambda>r. r\<lparr>h_DomainRegex := h_DomainRegex rule\<rparr>)"
    by (rule string_step [OF io s(3), where upd = "\<lambda>v r. r\<lparr>h_DomainRegex := v\<rparr>"]) (simp_all add: read_item_def)
  moreover have "item_reads e io recover (ruleItemDomain # io_WriteMatcher io m)
      (\<lambda>r. let r = r\<lparr>h_DomainMatcher := Some m\<rparr> in
         if recover then r\<lparr>h_Domain := fst (io_DumpMatcher io m), h_DomainSuffix := snd (io_DumpMatcher io m)\<rparr> else r)" for m
    by (rule item_readsI [OF _ io_matcher [OF io], where upd = "\<lambda>m r. let r = r\<lparr>h_DomainMatcher := Some m\<rparr> in
         if recover then r\<lparr>h_Domain := fst (io_DumpMatcher io m), h_DomainSuffix := snd (io_DumpMatcher io m)\<rparr> else r"])
      (simp_all add: read_item_def)
  moreover note cidr_step [OF io l(2), of ruleItemSourceIPCIDR recover "\<lambda>ipSet r. (let r = r\<lparr>h_SourceIPSet := Some ipSet\<rparr> in
           if recover then r\<lparr>h_SourceIPCIDR := map prefix_String (io_Prefixes io ipSet)\<rparr> else r)"]
  moreover note cidr_step [OF io l(3), of ruleItemIPCIDR recover "\<lambda>ipSet r. (let r = r\<lparr>h_IPSet := Some ipSet\<rparr> in
           if recover then r\<lparr>h_IPCIDR := map prefix_String (io_Prefixes io ipSet)\<rparr> else r)"]
  ultimately show ?thesis
    by (simp add: write_steps_address_def decode_address_def Let_def read_item_def)
qed

lemma process_steps_read:
  assumes io: "srs_io_ok e io N" and fit: "fits e N rule"
  shows "list_all2 (step_reads e io recover) (write_steps_process io version rule) (decode_process rule)"
proof -
  have s: "strings_fit N (h_SourcePortRange rule)" "strings_fit N (h_PortRange rule)" "strings_fit N (h_ProcessName rule)" "strings_fit N (h_ProcessPath rule)" "strings_fit N (h_ProcessPathRegex rule)" "strings_fit N (h_PackageName rule)" "strings_fit N (h_PackageNameRegex rule)"
    and l: "length (h_SourcePort rule) \<le> N" "length (h_Port rule) \<le> N"
    using fit by (simp_all add: fits_def)
  have "item_reads e io recover (writeRuleItemUint16 io ruleItemSourcePort (h_SourcePort rule)) (\<lambda>r. r\<lparr>h_SourcePort := h_SourcePort rule\<rparr>)"
    by (rule uint16_step [OF io l(1), where upd = "\<lambda>v r. r\<lparr>h_SourcePort := v\<rparr>"]) (simp_all add: read_item_def)
  moreover have "item_reads e io recover (writeRuleItemUint16 io ruleItemPort (h_Port rule)) (\<lambda>r. r\<lparr>h_Port := h_Port rule\<rparr>)"
    by (rule uint16_step [OF io l(2), where upd = "\<lambda>v r. r\<lparr>h_Port := v\<rparr>"]) (simp_all add: read_item_def)
  moreover have "item_reads e io recover (writeRuleItemString io ruleItemSourcePortRange (h_SourcePortRange rule)) (\<lambda>r. r\<lparr>h_SourcePortRange := h_SourcePortRange rule\<rparr>)"
    by (rule string_step [OF io s(1), where upd = "\<lambda>v r. r\<lparr>h_SourcePortRange := v\<rparr>"]) (simp_all add: read_item_def)
  moreover have "item_reads e io recover (writeRuleItemString io ruleItemPortRange (h_PortRange rule)) (\<lambda>r. r\<lparr>h_PortRange := h_PortRange rule\<rparr>)"
    by (rule string_step [OF io s(2), where upd = "\<lambda>v r. r\<lparr>h_PortRange := v\<rparr>"]) (simp_all add: read_item_def)
  moreover have "item_reads e io recover (writeRuleItemString io ruleItemProcessName (h_ProcessName rule)) (\<lambda>r. r\<lparr>h_ProcessName := h_ProcessName rule\<rparr>)"
    by (rule string_step [OF io s(3), where upd = "\<lambda>v r. r\<lparr>h_ProcessName := v\<rparr>"]) (simp_all add: read_item_def)
  moreover have "item_reads e io recover (writeRuleItemString io ruleItemProcessPath (h_ProcessPath rule)) (\<lambda>r. r\<lparr>h_ProcessPath := h_ProcessPath rule\<rparr>)"
    by (rule string_step [OF io s(4), where upd = "\<lambda>v r. r\<lparr>h_ProcessPath := v\<rparr>"]) (simp_all add: read_item_def)
  moreover have "item_reads e io recover (writeRuleItemString io ruleItemProcessPathRegex (h_ProcessPathRegex rule)) (\<lambda>r. r\<lparr>h_ProcessPathRegex := h_ProcessPathRegex rule\<rparr>)"
    by (rule string_step [OF io s(5), where upd = "\<lambda>v r. r\<lparr>h_ProcessPathRegex := v\<rparr>"]) (simp_all add: read_item_def)
  moreover have "item_reads e io recover (writeRuleItemString io ruleItemPackageName (h_PackageName rule)) (\<lambda>r. r\<lparr>h_PackageName := h_PackageName rule\<rparr>)"
    by (rule string_step [OF io s(6), where upd = "\<lambda>v r. r\<lparr>h_PackageName := v\<rparr>"]) (simp_all add: read_item_def)
  moreover have "item_reads e io recover (writeRuleItemString io ruleItemPackageNameRegex (h_PackageNameRegex rule)) (\<lambda>r. r\<lparr>h_PackageNameRegex := h_PackageNameRegex rule\<rparr>)"
    by (rule string_step [OF io s(7), where upd = "\<lambda>v r. r\<lparr>h_PackageNameRegex := v\<rparr>"]) (simp_all add: read_item_def)
  ultimately show ?thesis
    by (simp add: write_steps_process_def decode_process_def since_version_def)
qed

lemma network_steps_read:
  assumes io: "srs_io_ok e io N" and fit: "fits e N rule"
  shows "list_all2 (step_reads e io recover) (write_steps_network e io version rule) (decode_network e io recover rule)"
proof -
  have s: "strings_fit N (h_WIFISSID rule)" "strings_fit N (h_WIFIBSSID rule)"
    and l: "length (h_NetworkType rule) \<le> N" "length (h_NetworkInterfaceAddress rule) \<le> N"
    and d: "distinct (map fst (h_NetworkInterfaceAddress rule))"
    and p: "length (h_DefaultInterfaceAddress rule) \<le> N \<and> list_all wf_prefix (h_DefaultInterfaceAddress rule)"
    and es: "list_all (\<lambda>(k, ps). length ps \<le> N \<and> list_all wf_prefix ps) (h_NetworkInterfaceAddress rule)"
    using fit by (simp_all add: fits_def)
  have "item_reads e io recover (writeRuleItemUint8 io ruleItemNetworkType (h_NetworkType rule))
      (\<lambda>r. r\<lparr>h_NetworkType := h_NetworkType rule\<rparr>)"
    unfolding writeRuleItemUint8_def
    by (rule item_readsI [OF _ item_uint8 [OF io l(1)], where upd = "\<lambda>v r. r\<lparr>h_NetworkType := v\<rparr>"])
      (simp_all add: read_item_def)
  moreover have "item_reads e io recover (writeRuleItemString io ruleItemWIFISSID (h_WIFISSID rule)) (\<lambda>r. r\<lparr>h_WIFISSID := h_WIFISSID rule\<rparr>)"
    by (rule string_step [OF io s(1), where upd = "\<lambda>v r. r\<lparr>h_WIFISSID := v\<rparr>"]) (simp_all add: read_item_def)
  moreover have "item_reads e io recover (writeRuleItemString io ruleItemWIFIBSSID (h_WIFIBSSID rule)) (\<lambda>r. r\<lparr>h_WIFIBSSID := h_WIFIBSSID rule\<rparr>)"
    by (rule string_step [OF io s(2), where upd = "\<lambda>v r. r\<lparr>h_WIFIBSSID := v\<rparr>"]) (simp_all add: read_item_def)
  moreover have "item_reads e io recover [ruleItemNetworkIsExpensive] (\<lambda>r. r\<lparr>h_NetworkIsExpensive := True\<rparr>)"
    "item_reads e io recover [ruleItemNetworkIsConstrained] (\<lambda>r. r\<lparr>h_NetworkIsConstrained := True\<rparr>)"
    by (simp_all add: item_reads_def read_item_def)
  moreover have "item_reads e io recover (ruleItemNetworkInterfaceAddress #
        io_WriteUvarint io (len (h_NetworkInterfaceAddress rule)) @ concat (map (write_entry io) (h_NetworkInterfaceAddress rule)))
      (\<lambda>r. r\<lparr>h_NetworkInterfaceAddress := fold put_entry (h_NetworkInterfaceAddress rule) []\<rparr>)"
    by (rule item_readsI [where upd = "\<lambda>v r. r\<lparr>h_NetworkInterfaceAddress := fold put_entry v []\<rparr>" and
          get = "\<lambda>bs. bind_result (ReadUvarint bs) (\<lambda>(size, bs). read_n (read_entry e io) (unat size) bs)"])
      (simp_all add: read_item_def io_uvarint [OF io] io_len [OF io l(2)]
        codec.read_n_round_trip [OF entry_codec [OF io] es])
  moreover have "item_reads e io recover (ruleItemDefaultInterfaceAddress # write_prefixes io (h_DefaultInterfaceAddress rule))
      (\<lambda>r. r\<lparr>h_DefaultInterfaceAddress := h_DefaultInterfaceAddress rule\<rparr>)"
    by (rule item_readsI [OF _ codec.round_trip [OF prefixes_codec [OF io] p],
          where upd = "\<lambda>v r. r\<lparr>h_DefaultInterfaceAddress := v\<rparr>"])
      (simp_all add: read_item_def)
  moreover have "item_reads e io recover (ruleItemAdGuardDomain # io_WriteAdGuard io m)
      (\<lambda>r. let r = r\<lparr>h_AdGuardDomainMatcher := Some m\<rparr> in
         if recover then r\<lparr>h_AdGuardDomain := io_DumpAdGuard io m\<rparr> else r)" for m
    by (rule item_readsI [OF _ io_adguard [OF io], where upd = "\<lambda>m r. let r = r\<lparr>h_AdGuardDomainMatcher := Some m\<rparr> in
         if recover then r\<lparr>h_AdGuardDomain := io_DumpAdGuard io m\<rparr> else r"])
      (simp_all add: read_item_def)
  moreover have "fold put_entry (h_NetworkInterfaceAddress rule) [] = h_NetworkInterfaceAddress rule"
    using fold_put_entry [of "[]" "h_NetworkInterfaceAddress rule"] d by simp
  ultimately show ?thesis
    by (simp add: write_steps_network_def decode_network_def since_version_def Let_def)
qed

text \<open>The rule that is read back: the domains, prefixes and AdGuard rules are in their compiled
  form, and listed again only if the reader is asked to recover them.\<close>

definition decoded :: "'x env \<Rightarrow> 'x srs_io \<Rightarrow> bool \<Rightarrow> byte \<Rightarrow> 'x DefaultHeadlessRule \<Rightarrow> 'x DefaultHeadlessRule" where
  "decoded e io recover version rule =
     (let hasDomain = (h_Domain rule \<noteq> [] \<or> h_DomainSuffix rule \<noteq> []);
          matcher = x_NewMatcher e (h_Domain rule) (h_DomainSuffix rule) (version = 1);
          sources = ipset_of e (h_SourceIPCIDR rule); destinations = ipset_of e (h_IPCIDR rule);
          adguard = x_NewAdGuardMatcher e (h_AdGuardDomain rule)
      in rule\<lparr>
        h_DomainMatcher := (if hasDomain then Some matcher else None),
        h_Domain := (if recover \<and> hasDomain then fst (io_DumpMatcher io matcher) else []),
        h_DomainSuffix := (if recover \<and> hasDomain then snd (io_DumpMatcher io matcher) else []),
        h_SourceIPSet := (if h_SourceIPCIDR rule \<noteq> [] then Some sources else None),
        h_SourceIPCIDR := (if recover \<and> h_SourceIPCIDR rule \<noteq> [] then map prefix_String (io_Prefixes io sources) else []),
        h_IPSet := (if h_IPCIDR rule \<noteq> [] then Some destinations else None),
        h_IPCIDR := (if recover \<and> h_IPCIDR rule \<noteq> [] then map prefix_String (io_Prefixes io destinations) else []),
        h_AdGuardDomainMatcher := (if h_AdGuardDomain rule \<noteq> [] then Some adguard else None),
        h_AdGuardDomain := (if recover \<and> h_AdGuardDomain rule \<noteq> [] then io_DumpAdGuard io adguard else [])\<rparr>)"

lemma conditional_update:
  fixes r :: "'x DefaultHeadlessRule"
  shows
    "(if c then r\<lparr>h_QueryType := v0\<rparr> else r) = r\<lparr>h_QueryType := if c then v0 else h_QueryType r\<rparr>"
    "(if c then r\<lparr>h_Network := v1\<rparr> else r) = r\<lparr>h_Network := if c then v1 else h_Network r\<rparr>"
    "(if c then r\<lparr>h_DomainKeyword := v2\<rparr> else r) = r\<lparr>h_DomainKeyword := if c then v2 else h_DomainKeyword r\<rparr>"
    "(if c then r\<lparr>h_DomainRegex := v3\<rparr> else r) = r\<lparr>h_DomainRegex := if c then v3 else h_DomainRegex r\<rparr>"
    "(if c then r\<lparr>h_SourcePort := v4\<rparr> else r) = r\<lparr>h_SourcePort := if c then v4 else h_SourcePort r\<rparr>"
    "(if c then r\<lparr>h_SourcePortRange := v5\<rparr> else r) = r\<lparr>h_SourcePortRange := if c then v5 else h_SourcePortRange r\<rparr>"
    "(if c then r\<lparr>h_Port := v6\<rparr> else r) = r\<lparr>h_Port := if c then v6 else h_Port r\<rparr>"
    "(if c then r\<lparr>h_PortRange := v7\<rparr> else r) = r\<lparr>h_PortRange := if c then v7 else h_PortRange r\<rparr>"
    "(if c then r\<lparr>h_ProcessName := v8\<rparr> else r) = r\<lparr>h_ProcessName := if c then v8 else h_ProcessName r\<rparr>"
    "(if c then r\<lparr>h_ProcessPath := v9\<rparr> else r) = r\<lparr>h_ProcessPath := if c then v9 else h_ProcessPath r\<rparr>"
    "(if c then r\<lparr>h_ProcessPathRegex := v10\<rparr> else r) = r\<lparr>h_ProcessPathRegex := if c then v10 else h_ProcessPathRegex r\<rparr>"
    "(if c then r\<lparr>h_PackageName := v11\<rparr> else r) = r\<lparr>h_PackageName := if c then v11 else h_PackageName r\<rparr>"
    "(if c then r\<lparr>h_PackageNameRegex := v12\<rparr> else r) = r\<lparr>h_PackageNameRegex := if c then v12 else h_PackageNameRegex r\<rparr>"
    "(if c then r\<lparr>h_NetworkType := v13\<rparr> else r) = r\<lparr>h_NetworkType := if c then v13 else h_NetworkType r\<rparr>"
    "(if c then r\<lparr>h_NetworkIsExpensive := v14\<rparr> else r) = r\<lparr>h_NetworkIsExpensive := if c then v14 else h_NetworkIsExpensive r\<rparr>"
    "(if c then r\<lparr>h_NetworkIsConstrained := v15\<rparr> else r) = r\<lparr>h_NetworkIsConstrained := if c then v15 else h_NetworkIsConstrained r\<rparr>"
    "(if c then r\<lparr>h_NetworkInterfaceAddress := v16\<rparr> else r) = r\<lparr>h_NetworkInterfaceAddress := if c then v16 else h_NetworkInterfaceAddress r\<rparr>"
    "(if c then r\<lparr>h_DefaultInterfaceAddress := v17\<rparr> else r) = r\<lparr>h_DefaultInterfaceAddress := if c then v17 else h_DefaultInterfaceAddress r\<rparr>"
    "(if c then r\<lparr>h_WIFISSID := v18\<rparr> else r) = r\<lparr>h_WIFISSID := if c then v18 else h_WIFISSID r\<rparr>"
    "(if c then r\<lparr>h_WIFIBSSID := v19\<rparr> else r) = r\<lparr>h_WIFIBSSID := if c then v19 else h_WIFIBSSID r\<rparr>"
    "(if c then (if recover then r\<lparr>h_DomainMatcher := m, h_Domain := d, h_DomainSuffix := s\<rparr> else r\<lparr>h_DomainMatcher := m\<rparr>) else r) =
       r\<lparr>h_DomainMatcher := if c then m else h_DomainMatcher r, h_Domain := if recover \<and> c then d else h_Domain r,
         h_DomainSuffix := if recover \<and> c then s else h_DomainSuffix r\<rparr>"
    "(if c then (if recover then r\<lparr>h_SourceIPSet := i, h_SourceIPCIDR := p\<rparr> else r\<lparr>h_SourceIPSet := i\<rparr>) else r) =
       r\<lparr>h_SourceIPSet := if c then i else h_SourceIPSet r, h_SourceIPCIDR := if recover \<and> c then p else h_SourceIPCIDR r\<rparr>"
    "(if c then (if recover then r\<lparr>h_IPSet := i, h_IPCIDR := p\<rparr> else r\<lparr>h_IPSet := i\<rparr>) else r) =
       r\<lparr>h_IPSet := if c then i else h_IPSet r, h_IPCIDR := if recover \<and> c then p else h_IPCIDR r\<rparr>"
    "(if c then (if recover then r\<lparr>h_AdGuardDomainMatcher := m, h_AdGuardDomain := p\<rparr> else r\<lparr>h_AdGuardDomainMatcher := m\<rparr>) else r) =
       r\<lparr>h_AdGuardDomainMatcher := if c then m else h_AdGuardDomainMatcher r,
         h_AdGuardDomain := if recover \<and> c then p else h_AdGuardDomain r\<rparr>"
  by simp_all

lemma if_nonempty [simp]:
  "(if xs \<noteq> [] then xs else []) = xs" "(if b then True else False) = b"
  by simp_all

lemma address_effect:
  "fold step_effect (zip (write_steps_address e io version rule) (decode_address e io recover version rule)) r =
   (let hasDomain = (h_Domain rule \<noteq> [] \<or> h_DomainSuffix rule \<noteq> []);
        matcher = x_NewMatcher e (h_Domain rule) (h_DomainSuffix rule) (version = 1);
        sources = ipset_of e (h_SourceIPCIDR rule); destinations = ipset_of e (h_IPCIDR rule)
    in r\<lparr>
      h_QueryType := (if h_QueryType rule \<noteq> [] then h_QueryType rule else h_QueryType r),
      h_Network := (if h_Network rule \<noteq> [] then h_Network rule else h_Network r),
      h_DomainMatcher := (if hasDomain then Some matcher else h_DomainMatcher r),
      h_Domain := (if recover \<and> hasDomain then fst (io_DumpMatcher io matcher) else h_Domain r),
      h_DomainSuffix := (if recover \<and> hasDomain then snd (io_DumpMatcher io matcher) else h_DomainSuffix r),
      h_DomainKeyword := (if h_DomainKeyword rule \<noteq> [] then h_DomainKeyword rule else h_DomainKeyword r),
      h_DomainRegex := (if h_DomainRegex rule \<noteq> [] then h_DomainRegex rule else h_DomainRegex r),
      h_SourceIPSet := (if h_SourceIPCIDR rule \<noteq> [] then Some sources else h_SourceIPSet r),
      h_SourceIPCIDR := (if recover \<and> h_SourceIPCIDR rule \<noteq> [] then map prefix_String (io_Prefixes io sources)
                         else h_SourceIPCIDR r),
      h_IPSet := (if h_IPCIDR rule \<noteq> [] then Some destinations else h_IPSet r),
      h_IPCIDR := (if recover \<and> h_IPCIDR rule \<noteq> [] then map prefix_String (io_Prefixes io destinations)
                   else h_IPCIDR r)\<rparr>)"
  by (simp add: write_steps_address_def decode_address_def Let_def conditional_update split del: if_split cong del: if_weak_cong)

lemma process_effect:
  "fold step_effect (zip (write_steps_process io version rule) (decode_process rule)) r = r\<lparr>
      h_SourcePort := (if h_SourcePort rule \<noteq> [] then h_SourcePort rule else h_SourcePort r),
      h_SourcePortRange := (if h_SourcePortRange rule \<noteq> [] then h_SourcePortRange rule else h_SourcePortRange r),
      h_Port := (if h_Port rule \<noteq> [] then h_Port rule else h_Port r),
      h_PortRange := (if h_PortRange rule \<noteq> [] then h_PortRange rule else h_PortRange r),
      h_ProcessName := (if h_ProcessName rule \<noteq> [] then h_ProcessName rule else h_ProcessName r),
      h_ProcessPath := (if h_ProcessPath rule \<noteq> [] then h_ProcessPath rule else h_ProcessPath r),
      h_ProcessPathRegex := (if h_ProcessPathRegex rule \<noteq> [] then h_ProcessPathRegex rule else h_ProcessPathRegex r),
      h_PackageName := (if h_PackageName rule \<noteq> [] then h_PackageName rule else h_PackageName r),
      h_PackageNameRegex := (if h_PackageNameRegex rule \<noteq> [] then h_PackageNameRegex rule else h_PackageNameRegex r)\<rparr>"
  by (simp add: write_steps_process_def decode_process_def conditional_update split del: if_split cong del: if_weak_cong)

lemma network_effect:
  "fold step_effect (zip (write_steps_network e io version rule) (decode_network e io recover rule)) r =
   (let adguard = x_NewAdGuardMatcher e (h_AdGuardDomain rule)
    in r\<lparr>
      h_NetworkType := (if h_NetworkType rule \<noteq> [] then h_NetworkType rule else h_NetworkType r),
      h_NetworkIsExpensive := (if h_NetworkIsExpensive rule then True else h_NetworkIsExpensive r),
      h_NetworkIsConstrained := (if h_NetworkIsConstrained rule then True else h_NetworkIsConstrained r),
      h_NetworkInterfaceAddress := (if h_NetworkInterfaceAddress rule \<noteq> [] then h_NetworkInterfaceAddress rule else h_NetworkInterfaceAddress r),
      h_DefaultInterfaceAddress := (if h_DefaultInterfaceAddress rule \<noteq> [] then h_DefaultInterfaceAddress rule else h_DefaultInterfaceAddress r),
      h_WIFISSID := (if h_WIFISSID rule \<noteq> [] then h_WIFISSID rule else h_WIFISSID r),
      h_WIFIBSSID := (if h_WIFIBSSID rule \<noteq> [] then h_WIFIBSSID rule else h_WIFIBSSID r),
      h_AdGuardDomainMatcher := (if h_AdGuardDomain rule \<noteq> [] then Some adguard else h_AdGuardDomainMatcher r),
      h_AdGuardDomain := (if recover \<and> h_AdGuardDomain rule \<noteq> [] then io_DumpAdGuard io adguard else h_AdGuardDomain r)\<rparr>)"
  by (simp add: write_steps_network_def decode_network_def Let_def conditional_update split del: if_split
      cong del: if_weak_cong)

lemma steps_effect:
  "(fold step_effect (zip (write_steps e io version rule)
      (decode_address e io recover version rule @ decode_process rule @ decode_network e io recover rule))
      headless_rule_zero)\<lparr>h_Invert := h_Invert rule\<rparr> = decoded e io recover version rule"
proof -
  have "zip (write_steps e io version rule)
      (decode_address e io recover version rule @ decode_process rule @ decode_network e io recover rule) =
    zip (write_steps_address e io version rule) (decode_address e io recover version rule) @
    zip (write_steps_process io version rule) (decode_process rule) @
    zip (write_steps_network e io version rule) (decode_network e io recover rule)"
    by (simp add: write_steps_def zip_append write_steps_address_def decode_address_def Let_def
        write_steps_process_def decode_process_def)
  then show ?thesis
    by (simp only: fold_append o_apply address_effect process_effect network_effect)
      (simp add: decoded_def headless_rule_zero_def Let_def split del: if_split cong del: if_weak_cong)
qed

lemma default_rule_round_trip:
  assumes io: "srs_io_ok e io N" and fit: "fits e N rule"
    and out: "writeDefaultRule e io rule version = Inr out" and n: "length out \<le> n"
  shows "\<exists>body. out = 0 # body \<and>
    readDefaultRule e io recover (n - 1) (body @ rest) = Inr (decoded e io recover version rule, rest)"
proof -
  from out obtain items where items: "run_writes (write_steps e io version rule) = Inr items"
    and body: "out = 0 # items @ ruleItemFinal # write_bool (h_Invert rule)"
    by (auto simp: writeDefaultRule_def)
  have reads: "list_all2 (step_reads e io recover) (write_steps e io version rule)
      (decode_address e io recover version rule @ decode_process rule @ decode_network e io recover rule)"
    unfolding write_steps_def
    by (intro list_all2_appendI address_steps_read [OF io fit] process_steps_read [OF io fit]
        network_steps_read [OF io fit])
  have small: "length items < n - 1" using n body by (simp add: write_bool_def)
  show ?thesis
    using loop_reads_steps [OF reads items small, of 0 headless_rule_zero "h_Invert rule" rest]
    unfolding steps_effect by (simp add: readDefaultRule_def body)
qed

subsection \<open>Rules and files\<close>

fun options_fit :: "'x env \<Rightarrow> nat \<Rightarrow> 'x headless_options \<Rightarrow> bool" where
  "options_fit e N (DefaultHeadless rule) = fits e N rule"
| "options_fit e N (LogicalHeadless mode rules invert) = (length rules \<le> N \<and> list_all (options_fit e N) rules)"

fun decoded_rule :: "'x env \<Rightarrow> 'x srs_io \<Rightarrow> bool \<Rightarrow> byte \<Rightarrow> 'x headless_options \<Rightarrow> 'x headless_options" where
  "decoded_rule e io recover version (DefaultHeadless rule) = DefaultHeadless (decoded e io recover version rule)"
| "decoded_rule e io recover version (LogicalHeadless mode rules invert) =
     LogicalHeadless mode (map (decoded_rule e io recover version) rules) invert"

lemma read_rules_round_trip:
  assumes "list_all2 (\<lambda>x out. \<forall>rest. get (out @ rest) = Inr (f x, rest)) xs outs"
  shows "read_rules msg get i (length xs) (concat outs @ rest) = Inr (map f xs, rest)"
  using assms by (induction xs outs arbitrary: i rule: list_all2_induct) simp_all

lemma read_rules_written:
  assumes ih: "\<And>x out rest. x \<in> set rules \<Longrightarrow> w x = Inr out \<Longrightarrow> length out \<le> n \<Longrightarrow>
      get (out @ rest) = Inr (f x, rest)"
    and outs: "map_result w rules = Inr outs" and n: "length (concat outs) \<le> n"
  shows "read_rules msg get i (length rules) (concat outs @ rest) = Inr (map f rules, rest)"
proof (rule read_rules_round_trip)
  have all: "list_all2 (\<lambda>x out. w x = Inr out) rules outs" using outs by (simp add: map_result_Inr_iff)
  have "length out \<le> n" if "out \<in> set outs" for out
    using n that member_le_sum_list [of "length out" "map length outs"] by (simp add: length_concat)
  with all ih show "list_all2 (\<lambda>x out. \<forall>rest. get (out @ rest) = Inr (f x, rest)) rules outs"
    by (auto simp: list_all2_conv_all_nth)
qed

lemma length_map_result: "map_result f xs = Inr ys \<Longrightarrow> len ys = len xs"
  using map_result_Inr_length [of f xs ys] by (simp add: len_def)

lemma rule_round_trip:
  assumes io: "srs_io_ok e io N"
  shows "options_fit e N rule \<Longrightarrow> writeRule e io version rule = Inr out \<Longrightarrow> length out \<le> n \<Longrightarrow>
    readRule e io recover n (out @ rest) = Inr (decoded_rule e io recover version rule, rest)"
proof (induction rule arbitrary: out n rest)
  case (DefaultHeadless rule)
  then obtain body where "out = 0 # body"
      "readDefaultRule e io recover (n - 1) (body @ rest) = Inr (decoded e io recover version rule, rest)"
    using default_rule_round_trip [OF io, of rule version out n recover rest] by auto
  moreover from this DefaultHeadless.prems(3) obtain m where "n = Suc m" by (cases n) auto
  ultimately show ?case by (simp add: read_uint8_def ReadByte_def)
next
  case (LogicalHeadless mode rules invert)
  from LogicalHeadless.prems(2) obtain m outs where m: "logical_mode mode = Inr m"
    and outs: "map_result (writeRule e io version) rules = Inr outs"
    and out: "out = 1 # m # io_WriteUvarint io (len outs) @ concat outs @ write_bool invert"
    by (auto simp: writeLogicalRule_def)
  have mode: "m = 0 \<and> mode = ''and'' \<or> m = 1 \<and> mode = ''or''"
    using m by (auto simp: logical_mode_def split: if_splits)
  from LogicalHeadless.prems(3) out obtain n' where n: "n = Suc n'" by (cases n) auto
  have size: "length (concat outs) \<le> n'" using LogicalHeadless.prems(3) out n by simp
  have fit: "length rules \<le> N" "\<And>r. r \<in> set rules \<Longrightarrow> options_fit e N r"
    using LogicalHeadless.prems(1) by (auto simp: list_all_iff)
  have "read_rules ''read logical rule ['' (readRule e io recover n') 0 (length rules)
      (concat outs @ write_bool invert @ rest) = Inr (map (decoded_rule e io recover version) rules, write_bool invert @ rest)"
    by (rule read_rules_written [OF LogicalHeadless.IH [OF _ fit(2)] outs size])
  then show ?case
    using mode bool_codec.round_trip [of invert rest] io_uvarint [OF io] io_make [OF io fit(1)] io_len [OF io fit(1)]
    by (auto simp: n out readLogicalRule_def read_uint8_def ReadByte_def length_map_result [OF outs])
qed

lemma file_round_trip:
  assumes io: "srs_io_ok e io N" and v: "version \<le> RuleSetVersionCurrent"
    and fit: "length rules \<le> N" "list_all (options_fit e N) rules"
    and out: "Write e io rules version = Inr bs"
  shows "Read e io recover bs = Inr (version, map (decoded_rule e io recover version) rules)"
proof -
  from out obtain outs where outs: "map_result (writeRule e io version) rules = Inr outs"
    and bs: "bs = MagicBytes @ version # io_deflate io (io_WriteUvarint io (len rules) @ concat outs)"
    by (auto simp: Write_def)
  have fits: "\<And>r. r \<in> set rules \<Longrightarrow> options_fit e N r" using fit(2) by (simp add: list_all_iff)
  have "read_rules ''read rule['' (readRule e io recover (Suc (length (concat outs)))) 0 (length rules)
      (concat outs @ []) = Inr (map (decoded_rule e io recover version) rules, [])"
    by (rule read_rules_written [OF rule_round_trip [OF io] outs]) (auto intro: fits)
  moreover have "ReadFull 3 (MagicBytes @ rest) = Inr (MagicBytes, rest)" for rest
    using ReadFull_append [of MagicBytes rest] by (simp add: MagicBytes_def numeral_3_eq_3)
  ultimately show ?thesis
    using v io_uvarint [OF io, of "len rules" "concat outs"] io_make [OF io fit(1)] io_len [OF io fit(1)]
    by (simp add: Read_def bs read_uint8_def ReadByte_def io_zlib [OF io] not_less [symmetric])
qed

subsection \<open>Reading ends\<close>

text \<open>A reader at an input: it does not run out of fuel and does not give bytes back.\<close>

definition ends :: "'a reader \<Rightarrow> byte list \<Rightarrow> bool" where
  "ends get bs \<longleftrightarrow> (case get bs of Inl err \<Rightarrow> err \<noteq> out_of_fuel | Inr (x, rest) \<Rightarrow> length rest \<le> length bs)"

lemma ends_bind:
  assumes "ends get bs" and "\<And>x rest. get bs = Inr (x, rest) \<Longrightarrow> length rest \<le> length bs \<Longrightarrow> ends (f x) rest"
  shows "ends (\<lambda>bs. bind_result (get bs) (\<lambda>(x, bs). f x bs)) bs"
  using assms by (auto simp: ends_def split: sum.splits)

lemma ends_map:
  assumes "ends get bs"
  shows "ends (\<lambda>bs. bind_result (get bs) (\<lambda>(x, bs). Inr (f x, bs))) bs"
  using assms by (auto simp: ends_def split: sum.splits)

lemma ends_Inr [simp]: "ends (\<lambda>bs. Inr (x, bs)) bs"
  by (simp add: ends_def)

lemma ends_Inl [simp]: "ends (\<lambda>bs. Inl err) bs \<longleftrightarrow> err \<noteq> out_of_fuel"
  by (simp add: ends_def)

lemma ends_if [simp]: "ends (\<lambda>bs. if c then f bs else g bs) bs = (if c then ends f bs else ends g bs)"
  by simp

lemma ends_make [simp]: "ends get bs \<Longrightarrow> ends (\<lambda>bs. bind_result (make_slice io n) (\<lambda>_. get bs)) bs"
  by (simp add: ends_def make_slice_def)

lemma ends_ReadByte: "ends ReadByte bs"
  by (cases bs) (simp_all add: ends_def ReadByte_def)

lemma ends_read_uint8: "ends read_uint8 bs"
  by (cases bs) (simp_all add: ends_def read_uint8_def ReadByte_def)

lemma ends_ReadFull: "ends (ReadFull n) bs"
  by (simp add: ends_def ReadFull_def)

lemma ends_uvarint_loop: "ends (uvarint_loop i x) bs"
  by (induction i x bs rule: uvarint_loop.induct) (auto simp: ends_def split: sum.splits)

lemma ends_ReadUvarint: "ends ReadUvarint bs"
  by (simp add: ReadUvarint_def ends_uvarint_loop)

lemma ends_read_bool: "ends read_bool bs"
  unfolding read_bool_def by (rule ends_map [OF ends_ReadByte])

lemma ends_read_n: "(\<And>bs. ends get bs) \<Longrightarrow> ends (read_n get n) bs"
proof (induction n arbitrary: bs)
  case (Suc n)
  have "ends (\<lambda>bs. bind_result (get bs) (\<lambda>(x, bs). bind_result (read_n get n bs) (\<lambda>(xs, bs). Inr (x # xs, bs)))) bs"
    for bs by (rule ends_bind [OF Suc.prems]) (rule ends_map [OF Suc.IH [OF Suc.prems]])
  then show ?case unfolding ends_def read_n.simps .
qed (simp add: ends_def)

lemmas ends_basic = ends_ReadByte ends_read_uint8 ends_ReadFull ends_ReadUvarint ends_read_bool ends_read_n

lemma ends_read_bytes: "ends (read_bytes io) bs"
  unfolding read_bytes_def by (intro ends_bind ends_make ends_basic)

lemma ends_strings: "ends (readRuleItemString io) bs"
proof -
  have "ends (read_string io) bs" for bs
    unfolding read_string_def by (rule ends_map [OF ends_read_bytes])
  then show ?thesis unfolding readRuleItemString_def by (intro ends_bind ends_make ends_basic)
qed

lemma ends_uint8s: "ends (readRuleItemUint8 io) bs"
  unfolding readRuleItemUint8_def by (intro ends_bind ends_make ends_basic)

lemma ends_uint16s: "ends (readRuleItemUint16 io) bs"
  unfolding readRuleItemUint16_def read_uint16s_def
  by (intro ends_bind ends_make ends_map ends_basic)

lemma ends_prefixes: "ends (read_prefixes e io) bs"
proof -
  have "ends (readPrefix e io) bs" for bs
    unfolding readPrefix_def by (intro ends_bind ends_map ends_read_bytes ends_basic)
  then show ?thesis unfolding read_prefixes_def by (intro ends_bind ends_basic)
qed

lemma ends_entry: "ends (read_entry e io) bs"
  unfolding read_entry_def by (intro ends_bind ends_map ends_prefixes ends_basic)

lemma ends_ipset: "ends (readIPSet e io) bs"
proof -
  have range: "ends (read_range e io) bs" for bs
    unfolding read_range_def by (intro ends_bind ends_map ends_read_bytes)
  have u64: "ends read_uint64 bs" for bs
    unfolding read_uint64_def by (intro ends_map ends_basic)
  have "ends (\<lambda>bs. bind_result (read_uint64 bs) (\<lambda>(n, bs). bind_result (make_slice io n)
      (\<lambda>_. read_n (read_range e io) (unat n) bs))) bs" for bs
    by (intro ends_bind ends_make ends_basic u64 range)
  then show ?thesis unfolding readIPSet_def by (intro ends_bind ends_basic) simp
qed

text \<open>The third-party readers return, and do not give bytes back.\<close>

definition io_ends :: "'x srs_io \<Rightarrow> bool" where
  "io_ends io \<longleftrightarrow> (\<forall>bs. ends (io_ReadMatcher io) bs \<and> ends (io_ReadAdGuard io) bs \<and> io_inflate io bs \<noteq> Inl out_of_fuel)"

lemma ends_read_into: "ends get bs \<Longrightarrow> ends (read_into get upd r) bs"
  by (auto simp: ends_def read_into_def split: sum.splits)

lemma ends_read_item:
  assumes "io_ends io"
  shows "ends (read_item e io recover lastItem item rule) bs"
proof -
  have "ends (\<lambda>bs. bind_result (ReadUvarint bs) (\<lambda>(size, bs). read_n (read_entry e io) (unat size) bs)) bs" for bs
    by (intro ends_bind ends_basic ends_entry)
  moreover have "ends (io_ReadMatcher io) bs" "ends (io_ReadAdGuard io) bs" for bs
    using assms by (simp_all add: io_ends_def)
  ultimately show ?thesis
    unfolding read_item_def
    by (simp add: ends_read_into ends_strings ends_uint8s ends_uint16s ends_ipset ends_prefixes)
qed

lemma read_uint8_cases:
  obtains "bs = []" "read_uint8 bs = Inl EOF" | b rest where "bs = b # rest" "read_uint8 bs = Inr (b, rest)"
  by (cases bs) (auto simp: read_uint8_def ReadByte_def)

lemma ends_after_byte:
  assumes "\<And>b rest. bs = b # rest \<Longrightarrow> ends (f b) rest"
  shows "ends (\<lambda>bs. bind_result (read_uint8 bs) (\<lambda>(b, bs). f b bs)) bs"
  by (rule ends_bind [OF ends_read_uint8]) (auto intro: assms simp: read_uint8_def ReadByte_def split: list.splits)

lemma ends_default_loop:
  assumes "io_ends io" and "length bs < n"
  shows "ends (readDefaultRule_loop e io recover n lastItem rule) bs"
  using assms(2)
proof (induction n arbitrary: lastItem rule bs)
  case (Suc n)
  have "ends (\<lambda>bs. bind_result (read_uint8 bs) (\<lambda>(itemType, bs).
     if itemType = ruleItemFinal then
       bind_result (read_bool bs) (\<lambda>(invert, bs). Inr (rule\<lparr>h_Invert := invert\<rparr>, bs))
     else
       bind_result (read_item e io recover lastItem itemType rule bs) (\<lambda>(rule, bs).
         readDefaultRule_loop e io recover n itemType rule bs))) bs"
  proof (rule ends_after_byte)
    fix b rest assume bs: "bs = b # rest"
    have "ends (\<lambda>bs. bind_result (read_bool bs) (\<lambda>(invert, bs). Inr (rule\<lparr>h_Invert := invert\<rparr>, bs))) rest"
      by (intro ends_map ends_basic)
    moreover have "ends (\<lambda>bs. bind_result (read_item e io recover lastItem b rule bs) (\<lambda>(rule, bs).
         readDefaultRule_loop e io recover n b rule bs)) rest"
      by (rule ends_bind [OF ends_read_item [OF assms(1)]]) (rule Suc.IH, use bs Suc.prems in simp)
    ultimately show "ends (\<lambda>bs. if b = ruleItemFinal
           then bind_result (read_bool bs) (\<lambda>(invert, bs). Inr (rule\<lparr>h_Invert := invert\<rparr>, bs))
           else bind_result (read_item e io recover lastItem b rule bs) (\<lambda>(rule, bs).
             readDefaultRule_loop e io recover n b rule bs)) rest"
      by (cases "b = ruleItemFinal") simp_all
  qed
  then show ?case unfolding ends_def readDefaultRule_loop.simps .
qed simp

lemma ends_read_rules:
  assumes "\<And>bs'. length bs' \<le> length bs \<Longrightarrow> ends get bs'"
  shows "ends (read_rules msg get i n) bs"
  using assms
proof (induction n arbitrary: i bs)
  case (Suc n)
  have "ends (\<lambda>bs. cause (msg @ show_nat i @ '']'') (get bs)) bs"
    using Suc.prems [of bs] by (auto simp: ends_def cause_def split: sum.splits)
  then have "ends (\<lambda>bs. bind_result (cause (msg @ show_nat i @ '']'') (get bs)) (\<lambda>(x, bs).
     bind_result (read_rules msg get (Suc i) n bs) (\<lambda>(xs, bs). Inr (x # xs, bs)))) bs"
    by (rule ends_bind) (intro ends_map Suc.IH Suc.prems, simp)
  then show ?case unfolding ends_def read_rules.simps .
qed (simp add: ends_def)

lemma ends_readRule:
  assumes "io_ends io" and "length bs < n"
  shows "ends (readRule e io recover n) bs"
  using assms(2)
proof (induction n arbitrary: bs)
  case (Suc n)
  have "ends (\<lambda>bs. bind_result (read_uint8 bs) (\<lambda>(ruleType, bs).
     if ruleType = 0 then
       bind_result (readDefaultRule e io recover n bs) (\<lambda>(rule, bs). Inr (DefaultHeadless rule, bs))
     else if ruleType = 1 then readLogicalRule io (readRule e io recover n) bs
     else Inl (E_New (''unknown rule type: '' @ show_nat (unat ruleType))))) bs"
  proof (rule ends_after_byte)
    fix b rest assume bs: "bs = b # rest"
    have "ends (\<lambda>bs. bind_result (readDefaultRule e io recover n bs) (\<lambda>(rule, bs). Inr (DefaultHeadless rule, bs))) rest"
      unfolding readDefaultRule_def by (rule ends_map [OF ends_default_loop [OF assms(1)]]) (use bs Suc.prems in simp)
    moreover have "ends (readLogicalRule io (readRule e io recover n)) rest"
    proof -
      have sub: "ends (readRule e io recover n) bs'" if "length bs' \<le> length rest" for bs'
        using Suc.IH [of bs'] that bs Suc.prems by simp
      have "ends (\<lambda>bs. bind_result (ReadUvarint bs) (\<lambda>(n', bs). bind_result (make_slice io n') (\<lambda>_.
          bind_result (read_rules ''read logical rule ['' (readRule e io recover n) 0 (unat n') bs) (\<lambda>(rules, bs).
          bind_result (read_bool bs) (\<lambda>(invert, bs).
            Inr (LogicalHeadless (if mode = 0 then ''and'' else ''or'') rules invert, bs)))))) rest'"
        if "length rest' \<le> length rest" for rest' and mode :: byte
        by (intro ends_bind ends_make ends_map ends_read_rules ends_basic sub) (use that in simp)
      then show ?thesis
        unfolding readLogicalRule_def
        by (intro ends_bind ends_basic) simp
    qed
    ultimately show "ends (\<lambda>bs. if b = 0
          then bind_result (readDefaultRule e io recover n bs) (\<lambda>(rule, bs). Inr (DefaultHeadless rule, bs))
          else if b = 1 then readLogicalRule io (readRule e io recover n) bs
          else Inl (E_New (''unknown rule type: '' @ show_nat (unat b)))) rest"
      by simp
  qed
  then show ?case unfolding ends_def readRule.simps .
qed simp

end
