(* ===== verification/Rule_Equiv.thy ===== *)
theory Rule_Equiv
  imports Rule_Build
begin

text \<open>
  Rules that differ in the form of their items only. Two items are the same if they match the
  same connections; rules whose groups hold the same items, one by one, match the same
  connections and leave the same marks.
\<close>

definition same_item :: "'x env \<Rightarrow> 'x rule_item \<Rightarrow> 'x rule_item \<Rightarrow> bool" where
  "same_item e it it' \<longleftrightarrow> item_Match e it = item_Match e it'"

abbreviation same_items :: "'x env \<Rightarrow> 'x rule_item list \<Rightarrow> 'x rule_item list \<Rightarrow> bool" where
  "same_items e \<equiv> list_all2 (same_item e)"

definition same_rule :: "'x env \<Rightarrow> 'x abstractDefaultRule \<Rightarrow> 'x abstractDefaultRule \<Rightarrow> bool" where
  "same_rule e r r' \<longleftrightarrow>
     (\<forall>g. same_items e (group_items g r) (group_items g r')) \<and> same_items e (r_allItems r) (r_allItems r') \<and>
     r_ruleSetItem r = r_ruleSetItem r' \<and> r_invert r = r_invert r'"

lemma same_items_refl [simp]: "same_items e xs xs"
  by (simp add: list.rel_refl same_item_def)

lemma same_items_Nil: "same_items e xs ys \<Longrightarrow> (xs = []) = (ys = [])"
  by (auto simp: list_all2_Nil list_all2_Nil2)

lemma same_items_any: "same_items e xs ys \<Longrightarrow> matchAnyItem e xs = matchAnyItem e ys"
  by (induction xs ys rule: list_all2_induct) (auto simp: matchAnyItem_def same_item_def fun_eq_iff)

lemma same_items_all: "same_items e xs ys \<Longrightarrow> match_items e xs = match_items e ys"
  by (induction xs ys rule: list_all2_induct) (auto simp: same_item_def fun_eq_iff Let_def)

lemma same_rule_groups:
  assumes "same_rule e r r'"
  shows "same_items e (r_items r) (r_items r')"
    and "same_items e (r_sourceAddressItems r) (r_sourceAddressItems r')"
    and "same_items e (r_sourcePortItems r) (r_sourcePortItems r')"
    and "same_items e (r_destinationAddressItems r) (r_destinationAddressItems r')"
    and "same_items e (r_destinationIPCIDRItems r) (r_destinationIPCIDRItems r')"
    and "same_items e (r_destinationPortItems r) (r_destinationPortItems r')"
  using assms unfolding same_rule_def by (metis group_items.simps)+

lemma same_rule_evaluateGroups:
  assumes "same_rule e r r'"
  shows "evaluateGroups e r = evaluateGroups e r'"
proof
  fix c
  note g = same_rule_groups [OF assms]
  note empties = g [THEN same_items_Nil]
  note anys = g [THEN same_items_any]
  have cidr: "destinationIPCIDRMatchesSource r = destinationIPCIDRMatchesSource r'"
    "destinationIPCIDRMatchesDestination r = destinationIPCIDRMatchesDestination r'"
    by (simp_all add: fun_eq_iff destinationIPCIDRMatchesSource_def destinationIPCIDRMatchesDestination_def empties)
  show "evaluateGroups e r c = evaluateGroups e r' c"
    unfolding evaluateGroups_def empties anys cidr ..
qed

lemma same_rule_Match:
  assumes "same_rule e r r'"
  shows "abstractDefaultRule_Match e sets r c = abstractDefaultRule_Match e sets r' c"
proof -
  note g = same_rule_groups [OF assms]
  have eqs: "r_ruleSetItem r = r_ruleSetItem r'" "r_invert r = r_invert r'"
    and all: "(r_allItems r = []) = (r_allItems r' = [])"
    using assms same_items_Nil by (auto simp: same_rule_def)
  have inner: "matchInner e sets r c = matchInner e sets r' c"
    unfolding matchInner_def same_rule_evaluateGroups [OF assms] same_items_all [OF g(1)] eqs ..
  show ?thesis
    unfolding abstractDefaultRule_Match_def no_items_def inner eqs all same_items_Nil [OF g(5)] ..
qed

lemma same_rule_append:
  assumes "same_rule e r r'" and "same_item e it it'"
  shows "same_rule e (append_item g it r) (append_item g it' r')"
  using assms by (simp add: same_rule_def list_all2_appendI)

subsection \<open>Building the same rule\<close>

text \<open>Two lists of construction steps that build the same rule from the same start.\<close>

definition same_build :: "'x env \<Rightarrow> 'x step list \<Rightarrow> 'x step list \<Rightarrow> bool" where
  "same_build e steps steps' \<longleftrightarrow>
     (\<forall>r r' s. same_rule e r r' \<longrightarrow> run_steps steps r = Inr s \<longrightarrow>
        (\<exists>s'. run_steps steps' r' = Inr s' \<and> same_rule e s s'))"

lemma run_steps_append: "run_steps (xs @ ys) r = bind_result (run_steps xs r) (run_steps ys)"
proof (induction xs r rule: run_steps.induct)
  case (2 c g item steps r)
  then show ?case by (cases item) auto
qed auto

lemma same_build_append:
  assumes "same_build e xs xs'" and "same_build e ys ys'"
  shows "same_build e (xs @ ys) (xs' @ ys')"
  unfolding same_build_def
proof (intro allI impI)
  fix r r' s assume r: "same_rule e r r'" and run: "run_steps (xs @ ys) r = Inr s"
  then obtain t where t: "run_steps xs r = Inr t" "run_steps ys t = Inr s" by (auto simp: run_steps_append)
  from assms(1) r t(1) obtain t' where t': "run_steps xs' r' = Inr t'" "same_rule e t t'"
    unfolding same_build_def by blast
  from assms(2) t'(2) t(2) obtain s' where "run_steps ys' t' = Inr s'" "same_rule e s s'"
    unfolding same_build_def by blast
  with t'(1) show "\<exists>s'. run_steps (xs' @ ys') r' = Inr s' \<and> same_rule e s s'" by (simp add: run_steps_append)
qed

lemma same_build_refl: "same_build e steps steps"
proof (induction steps)
  case Nil
  then show ?case by (simp add: same_build_def)
next
  case (Cons step steps)
  have "same_build e [step] [step]"
    by (cases step) (auto simp: same_build_def intro!: same_rule_append simp: same_item_def split: if_splits)
  from same_build_append [OF this Cons.IH] show ?case by simp
qed

text \<open>A condition in two forms: the source has the first, the other has the second.\<close>

lemma same_build_pair:
  assumes "\<And>it. c \<Longrightarrow> item = Inr it \<Longrightarrow> \<exists>it'. item' = Inr it' \<and> same_item e it it'"
  shows "same_build e [Add c g item, Add False g other] [Add False g other', Add c g item']"
  unfolding same_build_def
proof (intro allI impI)
  fix r r' s assume r: "same_rule e r r'" and run: "run_steps [Add c g item, Add False g other] r = Inr s"
  show "\<exists>s'. run_steps [Add False g other', Add c g item'] r' = Inr s' \<and> same_rule e s s'"
  proof (cases c)
    case True
    with run obtain it where it: "item = Inr it" "s = append_item g it r" by auto
    with assms True obtain it' where "item' = Inr it'" "same_item e it it'" by blast
    with True it r show ?thesis by (auto intro: same_rule_append)
  next
    case False
    with run r show ?thesis by simp
  qed
qed

end
