(* ===== verification/Srs_Spec.thy ===== *)
theory Srs_Spec
  imports Srs_Codec Rule_Equiv Rule_Set Sample_Env
begin

text \<open>
  The properties of the binary rule-set format: what is written is read back, reading always
  ends, which rules a format version admits, and that a rule read from a file matches like
  the rule it was compiled from.
\<close>

unbundle bit_operations_syntax

subsection \<open>A compiled rule matches like its source\<close>

text \<open>A rule as the JSON source gives it: nothing is compiled yet.\<close>

definition from_source :: "'x DefaultHeadlessRule \<Rightarrow> bool" where
  "from_source rule \<longleftrightarrow> h_DomainMatcher rule = None \<and> h_SourceIPSet rule = None \<and> h_IPSet rule = None \<and>
     h_AdGuardDomainMatcher rule = None"

fun source_options :: "'x headless_options \<Rightarrow> bool" where
  "source_options (DefaultHeadless rule) = from_source rule"
| "source_options (LogicalHeadless mode rules invert) = list_all source_options rules"

lemma decoded_address_build:
  assumes "from_source rule" and "version \<noteq> 1"
  shows "same_build e (headless_steps_address e rule) (headless_steps_address e (decoded e io False version rule))"
proof -
  let ?d = "decoded e io False version rule"
  let ?has = "h_Domain rule \<noteq> [] \<or> h_DomainSuffix rule \<noteq> []"
  let ?matcher = "x_NewMatcher e (h_Domain rule) (h_DomainSuffix rule) False"
  have 1: "same_build e
      [Add ?has GDestinationAddress (NewDomainItem e (h_Domain rule) (h_DomainSuffix rule)), Add False GDestinationAddress x]
      [Add False GDestinationAddress y, Add ?has GDestinationAddress (Inr (NewRawDomainItem m))]"
    if "?has \<longrightarrow> m = ?matcher" for x y m
    using that by (intro same_build_pair)
      (auto simp: NewDomainItem_def NewRawDomainItem_def same_item_def fun_eq_iff Let_def split: if_splits)
  have 2: "same_build e
      [Add (ss \<noteq> []) g (cause_result msg (NewIPCIDRItem e b ss)), Add False g x]
      [Add False g y, Add (ss \<noteq> []) g (Inr (NewRawIPCIDRItem b m))]"
    if "ss \<noteq> [] \<longrightarrow> m = ipset_of e ss" for ss g b msg x y m
    using that by (intro same_build_pair)
      (auto simp: NewIPCIDRItem_def NewRawIPCIDRItem_def same_item_def fun_eq_iff ipset_of_def)
  have s: "headless_steps_address e rule =
      [Add (h_QueryType rule \<noteq> []) GItems (Inr (NewQueryTypeItem (h_QueryType rule))),
       Add (h_Network rule \<noteq> []) GItems (Inr (NewNetworkItem (h_Network rule)))] @
      [Add ?has GDestinationAddress (NewDomainItem e (h_Domain rule) (h_DomainSuffix rule)),
       Add False GDestinationAddress (Inr (NewRawDomainItem (the None)))] @
      [Add (h_DomainKeyword rule \<noteq> []) GDestinationAddress (Inr (NewDomainKeywordItem (h_DomainKeyword rule))),
       Add (h_DomainRegex rule \<noteq> []) GDestinationAddress
         (cause_result ''domain_regex'' (NewDomainRegexItem e (h_DomainRegex rule)))] @
      [Add (h_SourceIPCIDR rule \<noteq> []) GSourceAddress
         (cause_result ''source_ip_cidr'' (NewIPCIDRItem e True (h_SourceIPCIDR rule))),
       Add False GSourceAddress (Inr (NewRawIPCIDRItem True (the None)))] @
      [Add (h_IPCIDR rule \<noteq> []) GDestinationIPCIDR (cause_result ''ipcidr'' (NewIPCIDRItem e False (h_IPCIDR rule))),
       Add False GDestinationIPCIDR (Inr (NewRawIPCIDRItem False (the None)))]"
    using assms(1) by (simp add: headless_steps_address_def Let_def from_source_def)
  have "\<exists>x1 x2 x3 m2 m3 m4. headless_steps_address e ?d =
      [Add (h_QueryType rule \<noteq> []) GItems (Inr (NewQueryTypeItem (h_QueryType rule))),
       Add (h_Network rule \<noteq> []) GItems (Inr (NewNetworkItem (h_Network rule)))] @
      [Add False GDestinationAddress x1, Add ?has GDestinationAddress (Inr (NewRawDomainItem m2))] @
      [Add (h_DomainKeyword rule \<noteq> []) GDestinationAddress (Inr (NewDomainKeywordItem (h_DomainKeyword rule))),
       Add (h_DomainRegex rule \<noteq> []) GDestinationAddress
         (cause_result ''domain_regex'' (NewDomainRegexItem e (h_DomainRegex rule)))] @
      [Add False GSourceAddress x2, Add (h_SourceIPCIDR rule \<noteq> []) GSourceAddress (Inr (NewRawIPCIDRItem True m3))] @
      [Add False GDestinationIPCIDR x3,
       Add (h_IPCIDR rule \<noteq> []) GDestinationIPCIDR (Inr (NewRawIPCIDRItem False m4))] \<and>
      (?has \<longrightarrow> m2 = ?matcher) \<and> (h_SourceIPCIDR rule \<noteq> [] \<longrightarrow> m3 = ipset_of e (h_SourceIPCIDR rule)) \<and>
      (h_IPCIDR rule \<noteq> [] \<longrightarrow> m4 = ipset_of e (h_IPCIDR rule))"
    using assms(2) by (simp add: headless_steps_address_def Let_def decoded_def) blast
  then obtain x1 x2 x3 m2 m3 m4 where d: "headless_steps_address e ?d =
      [Add (h_QueryType rule \<noteq> []) GItems (Inr (NewQueryTypeItem (h_QueryType rule))),
       Add (h_Network rule \<noteq> []) GItems (Inr (NewNetworkItem (h_Network rule)))] @
      [Add False GDestinationAddress x1, Add ?has GDestinationAddress (Inr (NewRawDomainItem m2))] @
      [Add (h_DomainKeyword rule \<noteq> []) GDestinationAddress (Inr (NewDomainKeywordItem (h_DomainKeyword rule))),
       Add (h_DomainRegex rule \<noteq> []) GDestinationAddress
         (cause_result ''domain_regex'' (NewDomainRegexItem e (h_DomainRegex rule)))] @
      [Add False GSourceAddress x2, Add (h_SourceIPCIDR rule \<noteq> []) GSourceAddress (Inr (NewRawIPCIDRItem True m3))] @
      [Add False GDestinationIPCIDR x3,
       Add (h_IPCIDR rule \<noteq> []) GDestinationIPCIDR (Inr (NewRawIPCIDRItem False m4))]"
    and m: "?has \<longrightarrow> m2 = ?matcher" "h_SourceIPCIDR rule \<noteq> [] \<longrightarrow> m3 = ipset_of e (h_SourceIPCIDR rule)"
      "h_IPCIDR rule \<noteq> [] \<longrightarrow> m4 = ipset_of e (h_IPCIDR rule)"
    by blast
  show ?thesis
    unfolding s d by (intro same_build_append same_build_refl 1 [OF m(1)] 2 [OF m(2)] 2 [OF m(3)])
qed

lemma decoded_build:
  assumes "from_source rule" and "version \<noteq> 1"
  shows "same_build e (headless_steps e nm rule) (headless_steps e nm (decoded e io False version rule))"
proof -
  let ?d = "decoded e io False version rule"
  have process: "headless_steps_port_process e ?d = headless_steps_port_process e rule"
    by (simp add: headless_steps_port_process_def decoded_def Let_def)
  obtain common where c: "headless_steps_network e nm rule = common @
      [Add (h_AdGuardDomain rule \<noteq> []) GDestinationAddress (Inr (NewAdGuardDomainItem e (h_AdGuardDomain rule))),
       Add False GDestinationAddress (Inr (NewRawAdGuardDomainItem (the None)))]"
    "\<exists>x m. headless_steps_network e nm ?d = common @ [Add False GDestinationAddress x,
       Add (h_AdGuardDomain rule \<noteq> []) GDestinationAddress (Inr (NewRawAdGuardDomainItem m))] \<and>
       (h_AdGuardDomain rule \<noteq> [] \<longrightarrow> m = x_NewAdGuardMatcher e (h_AdGuardDomain rule))"
  proof
    show "headless_steps_network e nm rule = take 7 (headless_steps_network e nm rule) @
      [Add (h_AdGuardDomain rule \<noteq> []) GDestinationAddress (Inr (NewAdGuardDomainItem e (h_AdGuardDomain rule))),
       Add False GDestinationAddress (Inr (NewRawAdGuardDomainItem (the None)))]"
      using assms(1) by (simp add: headless_steps_network_def from_source_def)
    show "\<exists>x m. headless_steps_network e nm ?d = take 7 (headless_steps_network e nm rule) @ [Add False GDestinationAddress x,
       Add (h_AdGuardDomain rule \<noteq> []) GDestinationAddress (Inr (NewRawAdGuardDomainItem m))] \<and>
       (h_AdGuardDomain rule \<noteq> [] \<longrightarrow> m = x_NewAdGuardMatcher e (h_AdGuardDomain rule))"
      by (simp add: headless_steps_network_def decoded_def Let_def) blast
  qed
  then obtain x m where d: "headless_steps_network e nm ?d = common @ [Add False GDestinationAddress x,
       Add (h_AdGuardDomain rule \<noteq> []) GDestinationAddress (Inr (NewRawAdGuardDomainItem m))]"
    "h_AdGuardDomain rule \<noteq> [] \<longrightarrow> m = x_NewAdGuardMatcher e (h_AdGuardDomain rule)"
    by blast
  have "same_build e (headless_steps_network e nm rule) (headless_steps_network e nm ?d)"
    unfolding c(1) d(1) using d(2)
    by (intro same_build_append same_build_refl same_build_pair)
      (auto simp: NewAdGuardDomainItem_def NewRawAdGuardDomainItem_def same_item_def)
  then show ?thesis
    unfolding headless_steps_def process
    by (intro same_build_append same_build_refl decoded_address_build [OF assms])
qed

lemma decoded_valid:
  assumes "from_source rule" and "DefaultHeadlessRule_IsValid rule"
  shows "DefaultHeadlessRule_IsValid (decoded e io False version rule)"
  using assms
  by (cases rule)
    (auto simp: DefaultHeadlessRule_IsValid_def decoded_def Let_def from_source_def headless_rule_zero_def split: if_splits)

lemma decoded_rule_valid:
  "source_options rule \<Longrightarrow> HeadlessRule_IsValid rule \<Longrightarrow> HeadlessRule_IsValid (decoded_rule e io False version rule)"
  by (induction rule) (auto simp: decoded_valid list_all_iff)

text \<open>Two rules that give the same verdict and leave the same context, always.\<close>

definition same_Match :: "'x env \<Rightarrow> 'x rule \<Rightarrow> 'x rule \<Rightarrow> bool" where
  "same_Match e r r' \<longleftrightarrow> (\<forall>sets c. rule_Match e sets r c = rule_Match e sets r' c)"

lemma same_Match_logical:
  assumes "list_all2 (same_Match e) rs rs'"
  shows "same_Match e (LogicalRule mode rs invert) (LogicalRule mode rs' invert)"
proof -
  have "list_all (\<lambda>r. fst (rule_Match e sets r c)) rs = list_all (\<lambda>r. fst (rule_Match e sets r c)) rs'"
    "list_ex (\<lambda>r. fst (rule_Match e sets r c)) rs = list_ex (\<lambda>r. fst (rule_Match e sets r c)) rs'" for sets c
    using assms by (induction rs rs' rule: list_all2_induct) (auto simp: same_Match_def)
  then show ?thesis by (simp add: same_Match_def Let_def)
qed

lemma sub_rules_same:
  assumes "\<And>x r. x \<in> set rules \<Longrightarrow> NewHeadlessRule e nm x = Inr r \<Longrightarrow>
      \<exists>r'. NewHeadlessRule e nm (f x) = Inr r' \<and> same_Match e r r'"
    and "NewHeadlessSubRules e nm i rules = Inr rs"
  shows "\<exists>rs'. NewHeadlessSubRules e nm i (map f rules) = Inr rs' \<and> list_all2 (same_Match e) rs rs'"
  using assms
proof (induction rules arbitrary: i rs)
  case (Cons x rules)
  from Cons.prems(2) obtain r rest where r: "NewHeadlessRule e nm x = Inr r"
    "NewHeadlessSubRules e nm (Suc i) rules = Inr rest" "rs = r # rest" by auto
  from Cons.prems(1) [of x r] r(1) obtain r' where "NewHeadlessRule e nm (f x) = Inr r'" "same_Match e r r'" by auto
  moreover from Cons.IH [OF Cons.prems(1) r(2)] obtain rest' where
    "NewHeadlessSubRules e nm (Suc i) (map f rules) = Inr rest'" "list_all2 (same_Match e) rest rest'" by auto
  ultimately show ?case using r(3) by simp
qed simp

lemma compiled_rule_same:
  assumes "version \<noteq> 1"
  shows "source_options rule \<Longrightarrow> NewHeadlessRule e nm rule = Inr r \<Longrightarrow>
    \<exists>r'. NewHeadlessRule e nm (decoded_rule e io False version rule) = Inr r' \<and> same_Match e r r'"
proof (induction rule arbitrary: r)
  case (DefaultHeadless rule)
  then obtain s where s: "run_steps (headless_steps e nm rule) (rule_zero (h_Invert rule)) = Inr s" "r = DefaultRule s"
    and valid: "DefaultHeadlessRule_IsValid rule" and src: "from_source rule"
    by (auto simp: NewDefaultHeadlessRule_def split: if_splits)
  have "same_rule e (rule_zero b) (rule_zero b)" for b by (simp add: same_rule_def)
  then obtain s' where
    "run_steps (headless_steps e nm (decoded e io False version rule)) (rule_zero (h_Invert rule)) = Inr s'"
    "same_rule e s s'"
    using decoded_build [OF src assms, of e nm io] s(1) unfolding same_build_def by blast
  moreover have "h_Invert (decoded e io False version rule) = h_Invert rule" by (simp add: decoded_def Let_def)
  ultimately show ?case
    using decoded_valid [OF src valid, of e io version] s(2)
    by (auto simp: NewDefaultHeadlessRule_def same_Match_def same_rule_Match)
next
  case (LogicalHeadless mode rules invert)
  then obtain rs where rs: "NewHeadlessSubRules e nm 0 rules = Inr rs" "r = LogicalRule mode rs invert"
    and ok: "rules \<noteq> []" "list_all HeadlessRule_IsValid rules" "mode = ''and'' \<or> mode = ''or''"
    by (auto split: if_splits)
  have "\<exists>r'. NewHeadlessRule e nm (decoded_rule e io False version x) = Inr r' \<and> same_Match e r r'"
    if "x \<in> set rules" "NewHeadlessRule e nm x = Inr r" for x r
    using LogicalHeadless.IH [OF that(1) _ that(2)] LogicalHeadless.prems(1) that(1) by (simp add: list_all_iff)
  from sub_rules_same [where f = "decoded_rule e io False version", OF this rs(1)] obtain rs' where
    "NewHeadlessSubRules e nm 0 (map (decoded_rule e io False version) rules) = Inr rs'" "list_all2 (same_Match e) rs rs'"
    by blast
  moreover have "list_all HeadlessRule_IsValid (map (decoded_rule e io False version) rules)"
    using ok(2) LogicalHeadless.prems(1) by (auto simp: list_all_iff decoded_rule_valid)
  ultimately show ?case using ok same_Match_logical [of e rs rs' mode invert] rs(2) by auto
qed

lemma build_rules_same:
  assumes "version \<noteq> 1" and "list_all source_options rules" and "build_rules e nm i rules = Inr rs"
  shows "\<exists>rs'. build_rules e nm i (map (decoded_rule e io False version) rules) = Inr rs' \<and>
    list_all2 (same_Match e) rs rs'"
  using assms(2,3)
proof (induction rules arbitrary: i rs)
  case (Cons x rules)
  from Cons.prems(2) obtain r rest where r: "NewHeadlessRule e nm x = Inr r"
    "build_rules e nm (Suc i) rules = Inr rest" "rs = r # rest" by auto
  from compiled_rule_same [OF assms(1) _ r(1)] Cons.prems(1) obtain r' where
    "NewHeadlessRule e nm (decoded_rule e io False version x) = Inr r'" "same_Match e r r'" by auto
  moreover from Cons.IH [OF _ r(2)] Cons.prems(1) obtain rest' where
    "build_rules e nm (Suc i) (map (decoded_rule e io False version) rules) = Inr rest'"
    "list_all2 (same_Match e) rest rest'" by auto
  ultimately show ?case using r(3) by simp
qed simp

lemma same_matchAny: "list_all2 (same_Match e) rs rs' \<Longrightarrow> matchAnyHeadlessRule e rs c = matchAnyHeadlessRule e rs' c"
  by (induction rs rs' rule: list_all2_induct) (auto simp: matchAnyHeadlessRule_def same_Match_def)

lemma HasHeadlessRule_decoded:
  assumes "\<And>rule. from_source rule \<Longrightarrow> cond (decoded e io False version rule) = cond rule"
    and "list_all source_options rules"
  shows "HasHeadlessRule cond (map (decoded_rule e io False version) rules) = HasHeadlessRule cond rules"
  using assms by (induction cond rules rule: HasHeadlessRule.induct) simp_all

lemma metadata_decoded:
  assumes "list_all source_options rules"
  shows "buildRuleSetMetadata (map (decoded_rule e io False version) rules) = buildRuleSetMetadata rules"
proof -
  have "isNonIPCIDRHeadlessRule (decoded e io False version rule) = isNonIPCIDRHeadlessRule rule"
    if "from_source rule" for rule
    using that
    by (cases rule) (auto simp: isNonIPCIDRHeadlessRule_def decoded_def Let_def from_source_def headless_rule_zero_def
        split: if_splits)
  moreover have "isIPCIDRHeadlessRule (decoded e io False version rule) = isIPCIDRHeadlessRule rule"
    if "from_source rule" for rule
    using that by (simp add: isIPCIDRHeadlessRule_def decoded_def Let_def from_source_def)
  moreover have "isProcessHeadlessRule (decoded e io False version rule) = isProcessHeadlessRule rule"
    "isWIFIHeadlessRule (decoded e io False version rule) = isWIFIHeadlessRule rule"
    "isDNSQueryTypeHeadlessRule (decoded e io False version rule) = isDNSQueryTypeHeadlessRule rule" for rule
    by (simp_all add: isProcessHeadlessRule_def isWIFIHeadlessRule_def isDNSQueryTypeHeadlessRule_def decoded_def Let_def)
  ultimately show ?thesis
    unfolding buildRuleSetMetadata_def by (simp add: HasHeadlessRule_decoded [OF _ assms])
qed

subsection \<open>A concrete environment\<close>

text \<open>The encoding of a matcher as a list of tokens: 1 and a byte for a character, 2 for the end
  of a string, 0 for the end of a list.\<close>

fun put_strs :: "string list \<Rightarrow> byte list" where
  "put_strs [] = [0]"
| "put_strs (s # ss) = concat (map (\<lambda>b. [1, b]) (bytes_of s)) @ 2 # put_strs ss"

fun get_strs :: "byte list \<Rightarrow> string list \<Rightarrow> string list reader" where
  "get_strs cur acc [] = Inl EOF"
| "get_strs cur acc (t # bs) =
     (if t = 0 then Inr (acc, bs)
      else if t = 2 then get_strs [] (acc @ [string_of cur]) bs
      else case bs of [] \<Rightarrow> Inl EOF | b # bs \<Rightarrow> get_strs (cur @ [b]) acc bs)"

lemma get_put_strs: "get_strs [] acc (put_strs ss @ rest) = Inr (acc @ ss, rest)"
proof (induction ss arbitrary: acc)
  case (Cons s ss)
  have "get_strs cur acc (concat (map (\<lambda>b. [1, b]) bs) @ 2 # more) = get_strs [] (acc @ [string_of (cur @ bs)]) more"
    for cur bs more by (induction bs arbitrary: cur) simp_all
  with Cons show ?case by simp
qed simp

lemma ends_get_strs: "ends (get_strs cur acc) bs"
proof (induction cur acc bs rule: get_strs.induct)
  case (2 cur acc t bs)
  then show ?case by (cases bs) (auto simp: ends_def split: sum.splits)
qed (simp add: ends_def)

definition srs_sample_env :: "(string list \<times> string list) env" where
  "srs_sample_env = sample_env\<lparr>
     x_AddrFromIP := (\<lambda>bs. if length bs = 4 then A4 (be_word bs) else if length bs = 16 then A6 (be_word bs) []
        else addr_zero),
     x_IPSetBuild := (\<lambda>es. Inr (filter (\<lambda>(a, b). addr_IsValid a \<and> \<not> addr_hasZone a \<and> addr_IsValid b \<and> \<not> addr_hasZone b)
        (map (\<lambda>en. case en of BuilderPrefix p \<Rightarrow> prefix_range p | BuilderAddr a \<Rightarrow> (a, a)) es)))\<rparr>"

definition srs_sample_io :: "(string list \<times> string list) srs_io" where
  "srs_sample_io = \<lparr>
     io_WriteUvarint = PutUvarint,
     io_WriteMatcher = (\<lambda>(ds, ss). put_strs ds @ put_strs ss),
     io_ReadMatcher = (\<lambda>bs. bind_result (get_strs [] [] bs) (\<lambda>(ds, bs).
        bind_result (get_strs [] [] bs) (\<lambda>(ss, bs). Inr ((ds, ss), bs)))),
     io_DumpMatcher = (\<lambda>m. m),
     io_WriteAdGuard = (\<lambda>(ds, ss). put_strs ds @ put_strs ss),
     io_ReadAdGuard = (\<lambda>bs. bind_result (get_strs [] [] bs) (\<lambda>(ds, bs).
        bind_result (get_strs [] [] bs) (\<lambda>(ss, bs). Inr ((ds, ss), bs)))),
     io_DumpAdGuard = fst,
     io_Prefixes = (\<lambda>_. []),
     io_makeslice = (\<lambda>n. n \<le> 1000),
     io_deflate = (\<lambda>bs. bs),
     io_inflate = Inr\<rparr>"

lemma be_word_AsSlice: "be_word (write_be 4 (w :: 32 word)) = w" "be_word (write_be 16 (v :: 128 word)) = v"
  by (simp_all add: be_word_write_be take_bit_word_eq_self)

lemma srs_sample_ok: "srs_io_ok srs_sample_env srs_sample_io 1000"
proof -
  have "x_AddrFromIP srs_sample_env (addr_AsSlice a) = a" if "addr_IsValid a" "\<not> addr_hasZone a" for a
    using that by (cases a) (simp_all add: srs_sample_env_def be_word_AsSlice)
  moreover have "list_all (\<lambda>(a, b). addr_IsValid a \<and> \<not> addr_hasZone a \<and> addr_IsValid b \<and> \<not> addr_hasZone b) rr"
    if "x_IPSetBuild srs_sample_env es = Inr rr" for es rr
    using that by (auto simp: srs_sample_env_def list_all_iff)
  ultimately show ?thesis
    unfolding srs_io_ok_def by (auto simp: srs_sample_io_def get_put_strs split: prod.splits)
qed

lemma srs_sample_ends: "io_ends srs_sample_io"
  unfolding io_ends_def srs_sample_io_def by (auto intro!: ends_bind ends_map ends_get_strs)

definition srs_sample_set :: "(string list \<times> string list) headless_options list" where
  "srs_sample_set =
     [DefaultHeadless (headless_rule_zero\<lparr>h_DomainSuffix := [''example.com''], h_IPCIDR := [''10.0.0.0/8''], h_Port := [443]\<rparr>),
      LogicalHeadless ''or''
        [DefaultHeadless (headless_rule_zero\<lparr>h_ProcessName := [''curl''], h_Invert := True\<rparr>)] False]"

definition is_ok :: "'a result \<Rightarrow> bool" where
  "is_ok r = (case r of Inr _ \<Rightarrow> True | Inl _ \<Rightarrow> False)"

lemma is_ok_iff: "is_ok r \<longleftrightarrow> (\<exists>x. r = Inr x)"
  by (cases r) (simp_all add: is_ok_def)

lemma srs_sample_written: "\<exists>bs. Write srs_sample_env srs_sample_io srs_sample_set 4 = Inr bs"
proof -
  have "is_ok (Write srs_sample_env srs_sample_io srs_sample_set 4)" by code_simp
  then show ?thesis by (simp add: is_ok_iff)
qed

lemma srs_sample_built: "\<exists>rs. build_rules srs_sample_env False 0 srs_sample_set = Inr rs"
proof -
  have "is_ok (build_rules srs_sample_env False 0 srs_sample_set)" by code_simp
  then show ?thesis by (simp add: is_ok_iff)
qed

lemma srs_sample_fits: "length srs_sample_set \<le> 1000" "list_all (options_fit srs_sample_env 1000) srs_sample_set"
  by (simp add: srs_sample_set_def) code_simp

lemma srs_sample_source: "list_all source_options srs_sample_set"
  by (simp add: srs_sample_set_def from_source_def headless_rule_zero_def)

subsection \<open>Properties\<close>

text \<open>
  C12: A rule-set written in any version is read back: \<^verbatim>\<open>Read\<close> returns the version and the rules,
  each with its domains, prefixes and AdGuard rules in compiled form; with \<^verbatim>\<open>recover\<close> these
  are listed again from the compiled form. Hypotheses: the third-party encodings are read
  back, and the lengths in the rules are within what \<^verbatim>\<open>make\<close> can allocate.
\<close>

theorem srs_round_trip:
  assumes "srs_io_ok e io N" and "version \<le> RuleSetVersionCurrent"
    and "length rules \<le> N" and "list_all (options_fit e N) rules"
    and "Write e io rules version = Inr bs"
  shows "Read e io recover bs = Inr (version, map (decoded_rule e io recover version) rules)"
  using assms by (rule file_round_trip)

theorem srs_round_trip_witness:
  "\<exists>bs. Write srs_sample_env srs_sample_io srs_sample_set 4 = Inr bs \<and>
     Read srs_sample_env srs_sample_io True bs =
       Inr (4, map (decoded_rule srs_sample_env srs_sample_io True 4) srs_sample_set)"
proof -
  obtain bs where bs: "Write srs_sample_env srs_sample_io srs_sample_set 4 = Inr bs" using srs_sample_written by blast
  have "(4::byte) \<le> RuleSetVersionCurrent" by simp
  from srs_round_trip [OF srs_sample_ok this srs_sample_fits bs] bs show ?thesis by blast
qed

text \<open>
  C13: Compiling a rule-set does not change what it matches. If a rule-set given as JSON is
  written in a version later than 1 and loaded from the file, then the rules can be built
  whenever those of the source can, the set matches exactly the connections the source
  matches, and its metadata is the same.
\<close>

theorem srs_compiled_set_equivalent:
  assumes "srs_io_ok e io N" and "version \<le> RuleSetVersionCurrent" and "version \<noteq> 1"
    and "length rules \<le> N" and "list_all (options_fit e N) rules" and "list_all source_options rules"
    and "Write e io rules version = Inr bs" and "build_rules e nm 0 rules = Inr rs"
  shows "\<exists>read rs'. Read e io False bs = Inr (version, read) \<and> build_rules e nm 0 read = Inr rs' \<and>
     buildRuleSetMetadata read = buildRuleSetMetadata rules \<and>
     (\<forall>c. matchAnyHeadlessRule e rs' c = matchAnyHeadlessRule e rs c)"
proof -
  obtain rs' where rs': "build_rules e nm 0 (map (decoded_rule e io False version) rules) = Inr rs'"
      "list_all2 (same_Match e) rs rs'"
    using build_rules_same [OF assms(3,6,8)] by blast
  then show ?thesis
    using file_round_trip [OF assms(1,2,4,5,7), of False] metadata_decoded [OF assms(6)] same_matchAny [OF rs'(2)]
    by auto
qed

theorem srs_compiled_set_equivalent_witness:
  "\<exists>bs read rs rs'. Write srs_sample_env srs_sample_io srs_sample_set 4 = Inr bs \<and>
     build_rules srs_sample_env False 0 srs_sample_set = Inr rs \<and>
     Read srs_sample_env srs_sample_io False bs = Inr (4, read) \<and>
     build_rules srs_sample_env False 0 read = Inr rs' \<and>
     matchAnyHeadlessRule srs_sample_env rs' (sample_conn ''www.example.com'' 443) =
       matchAnyHeadlessRule srs_sample_env rs (sample_conn ''www.example.com'' 443)"
proof -
  obtain bs rs where bs: "Write srs_sample_env srs_sample_io srs_sample_set 4 = Inr bs"
    and rs: "build_rules srs_sample_env False 0 srs_sample_set = Inr rs"
    using srs_sample_written srs_sample_built by blast
  have v: "(4::byte) \<le> RuleSetVersionCurrent" "(4::byte) \<noteq> 1" by simp_all
  from srs_compiled_set_equivalent [OF srs_sample_ok v srs_sample_fits srs_sample_source bs rs] bs rs
  show ?thesis by blast
qed

text \<open>
  C14: Reading ends on every input: the loops over items and the nesting of logical rules never
  need more steps than the stream has bytes, whatever the bytes are, provided that the
  third-party readers return and do not give bytes back.
\<close>

theorem srs_read_ends:
  assumes "io_ends io"
  shows "Read e io recover bs \<noteq> Inl out_of_fuel"
proof -
  have inflate: "io_inflate io rest \<noteq> Inl out_of_fuel" for rest using assms by (simp add: io_ends_def)
  have rules: "read_rules msg (readRule e io recover (Suc (length rest))) i n rest \<noteq> Inl out_of_fuel" for msg i n rest
  proof -
    have "ends (read_rules msg (readRule e io recover (Suc (length rest))) i n) rest"
      by (rule ends_read_rules) (rule ends_readRule [OF assms], simp)
    then show ?thesis by (auto simp: ends_def)
  qed
  have basic: "ReadFull 3 bs \<noteq> Inl out_of_fuel" "read_uint8 rest \<noteq> Inl out_of_fuel" "ReadUvarint rest \<noteq> Inl out_of_fuel"
    for rest
    using ends_ReadFull [of 3 bs] ends_read_uint8 [of rest] ends_ReadUvarint [of rest] by (auto simp: ends_def)
  show ?thesis
    unfolding Read_def using inflate rules basic
    by (auto simp: bind_result_eq_Inl make_slice_def split: if_splits)
qed

theorem srs_read_ends_witness:
  "Read srs_sample_env srs_sample_io False [0x53, 0x52, 0x53, 4, 1, 1, 0, 1, 1, 0, 1] \<noteq> Inl out_of_fuel"
  by (rule srs_read_ends [OF srs_sample_ends])

fun wstep_ok :: "wstep \<Rightarrow> bool" where
  "wstep_ok (WStep cond out) = (cond \<longrightarrow> is_ok out)"

lemma run_writes_ok: "is_ok (run_writes steps) \<longleftrightarrow> list_all wstep_ok steps"
proof (induction steps rule: run_writes.induct)
  case (2 cond out steps)
  then show ?case by (cases cond; cases out; cases "run_writes steps") (auto simp: is_ok_def)
qed (simp add: is_ok_def)

definition cidr_ok :: "'x env \<Rightarrow> string list \<Rightarrow> bool" where
  "cidr_ok e value \<longleftrightarrow> value = [] \<or> is_ok (bind_result (cidr_entries 0 value) (x_IPSetBuild e))"

text \<open>
  C15: A default rule can be written in a version exactly if its prefixes are valid and the
  version has the items it uses: AdGuard rules from version 2 on, network type and state from
  3, interface addresses from 4, package name expressions from 5.
\<close>

theorem srs_version_gate:
  "is_ok (writeDefaultRule e io rule version) \<longleftrightarrow>
     cidr_ok e (h_SourceIPCIDR rule) \<and> cidr_ok e (h_IPCIDR rule) \<and>
     (h_AdGuardDomain rule = [] \<or> 2 \<le> version) \<and>
     (h_NetworkType rule = [] \<and> \<not> h_NetworkIsExpensive rule \<and> \<not> h_NetworkIsConstrained rule \<or> 3 \<le> version) \<and>
     (h_NetworkInterfaceAddress rule = [] \<and> h_DefaultInterfaceAddress rule = [] \<or> 4 \<le> version) \<and>
     (h_PackageNameRegex rule = [] \<or> 5 \<le> version)"
proof -
  have cidr: "is_ok (cause_result msg (writeRuleItemCIDR e io tag ss)) \<longleftrightarrow>
      is_ok (bind_result (cidr_entries 0 ss) (x_IPSetBuild e))" for msg tag ss
    by (auto simp: is_ok_iff writeRuleItemCIDR_def)
  have since: "is_ok (since_version version v msg out) \<longleftrightarrow> v \<le> version" for v msg out
    by (simp add: is_ok_def since_version_def not_less [symmetric])
  have "is_ok (writeDefaultRule e io rule version) \<longleftrightarrow> is_ok (run_writes (write_steps e io version rule))"
    by (auto simp: is_ok_iff writeDefaultRule_def)
  also have "\<dots> \<longleftrightarrow> list_all wstep_ok (write_steps e io version rule)" by (rule run_writes_ok)
  finally show ?thesis
    unfolding write_steps_def write_steps_address_def write_steps_process_def write_steps_network_def
      list_all_append list.pred_inject wstep_ok.simps since cidr cidr_ok_def is_ok_def [of "Inr _"] sum.case
    by (simp add: disj_imp) blast
qed

theorem srs_version_gate_witness:
  "\<not> is_ok (writeDefaultRule srs_sample_env srs_sample_io (headless_rule_zero\<lparr>h_NetworkType := [0]\<rparr>) 2) \<and>
   is_ok (writeDefaultRule srs_sample_env srs_sample_io (headless_rule_zero\<lparr>h_NetworkType := [0]\<rparr>) 3)"
  unfolding srs_version_gate by (simp add: headless_rule_zero_def cidr_ok_def)

end
