(* ===== verification/Lifecycle.thy ===== *)
theory Lifecycle
  imports Sidera_Prelude "HOL-Library.AList"
begin

text \<open>
  Start stages and lifecycle calls (\<^verbatim>\<open>adapter/lifecycle.go\<close>,
  \<^verbatim>\<open>adapter/lifecycle_legacy.go\<close>). The inbounds, outbounds, endpoints, certificate
  providers and services that the managers own are implemented elsewhere; what a manager sees of
  one is an \<^verbatim>\<open>object\<close>: its identity, type, tag, dependencies, and which lifecycle methods
  it has. A call of such a method is an entry of a trace, and what it returns is a parameter, the
  \<^verbatim>\<open>behaviour\<close>, which may depend on the whole trace of calls made before.
\<close>

subsection \<open>Stages\<close>

datatype StartStage = StartStateInitialize | StartStateStart | StartStatePostStart | StartStateStarted

fun stage_index :: "StartStage \<Rightarrow> nat" where
  "stage_index StartStateInitialize = 0"
| "stage_index StartStateStart = 1"
| "stage_index StartStatePostStart = 2"
| "stage_index StartStateStarted = 3"

instantiation StartStage :: linorder
begin

definition less_eq_StartStage :: "StartStage \<Rightarrow> StartStage \<Rightarrow> bool" where
  "less_eq_StartStage s t = (stage_index s \<le> stage_index t)"

definition less_StartStage :: "StartStage \<Rightarrow> StartStage \<Rightarrow> bool" where
  "less_StartStage s t = (stage_index s < stage_index t)"

instance
proof
  fix s t :: StartStage
  show "s \<le> t \<Longrightarrow> t \<le> s \<Longrightarrow> s = t"
    by (cases s; cases t) (simp_all add: less_eq_StartStage_def)
qed (auto simp: less_eq_StartStage_def less_StartStage_def)

end

lemmas stage_le = less_eq_StartStage_def less_StartStage_def

definition ListStartStages :: "StartStage list" where
  "ListStartStages = [StartStateInitialize, StartStateStart, StartStatePostStart, StartStateStarted]"

fun StartStage_String :: "StartStage \<Rightarrow> string" where
  "StartStage_String StartStateInitialize = ''initialize''"
| "StartStage_String StartStateStart = ''start''"
| "StartStage_String StartStatePostStart = ''post-start''"
| "StartStage_String StartStateStarted = ''finish-start''"

lemma ListStartStages_all: "set ListStartStages = UNIV" "sorted_wrt (<) ListStartStages"
proof -
  show "set ListStartStages = UNIV"
    using StartStage.exhaust by (auto simp: ListStartStages_def)
  show "sorted_wrt (<) ListStartStages"
    by (simp add: ListStartStages_def less_StartStage_def)
qed

subsection \<open>Objects and calls\<close>

text \<open>
  \<^verbatim>\<open>Lifecycle\<close> is the interface with \<^verbatim>\<open>Start(stage)\<close>; the legacy
  interfaces are three optional methods. \<^verbatim>\<open>ob_id\<close> stands for the pointer: the sources
  compare interface values with \<^verbatim>\<open>==\<close>.
\<close>

datatype starter =
    Has_Lifecycle
  | Has_Legacy (has_PreStart: bool) (has_Start: bool) (has_PostStart: bool)

record object =
  ob_id :: nat
  ob_Type :: string
  ob_Tag :: string
  ob_Dependencies :: "string list"
  ob_starter :: starter
  ob_closer :: bool
  ob_committer :: bool
  ob_activator :: bool

datatype call =
    Call_Stage StartStage
  | Call_PreStart
  | Call_Start
  | Call_PostStart
  | Call_Close
  | Call_Validate
  | Call_Commit
  | Call_Rollback
  | Call_Activate

type_synonym trace = "(nat \<times> call) list"

type_synonym behaviour = "trace \<Rightarrow> nat \<Rightarrow> call \<Rightarrow> error option"

definition do_call :: "behaviour \<Rightarrow> object \<Rightarrow> call \<Rightarrow> trace \<Rightarrow> error option \<times> trace" where
  "do_call beh ob c tr = (beh tr (ob_id ob) c, tr @ [(ob_id ob, c)])"

text \<open>The outcome of an operation: an error may be several, joined.\<close>

datatype outcome = Done | Fail "error list" | Panic string

fun is_panic :: "outcome \<Rightarrow> bool" where
  "is_panic (Panic _) = True"
| "is_panic _ = False"

subsection \<open>Starting and closing\<close>

text \<open>The method a stage calls, if the object has one.\<close>

fun stage_call :: "starter \<Rightarrow> StartStage \<Rightarrow> call option" where
  "stage_call Has_Lifecycle stage = Some (Call_Stage stage)"
| "stage_call (Has_Legacy pre st post) StartStateInitialize = (if pre then Some Call_PreStart else None)"
| "stage_call (Has_Legacy pre st post) StartStateStart = (if st then Some Call_Start else None)"
| "stage_call (Has_Legacy pre st post) StartStateStarted = (if post then Some Call_PostStart else None)"
| "stage_call (Has_Legacy pre st post) StartStatePostStart = None"

definition LegacyStart :: "behaviour \<Rightarrow> object \<Rightarrow> StartStage \<Rightarrow> trace \<Rightarrow> error option \<times> trace" where
  "LegacyStart beh ob stage tr =
     (case stage_call (ob_starter ob) stage of
        None \<Rightarrow> (None, tr)
      | Some c \<Rightarrow> do_call beh ob c tr)"

text \<open>The calls a stage makes on an object.\<close>

definition stage_calls :: "StartStage \<Rightarrow> object \<Rightarrow> trace" where
  "stage_calls stage ob =
     (case stage_call (ob_starter ob) stage of None \<Rightarrow> [] | Some c \<Rightarrow> [(ob_id ob, c)])"

lemma LegacyStart_trace: "snd (LegacyStart beh ob stage tr) = tr @ stage_calls stage ob"
  by (simp add: LegacyStart_def stage_calls_def do_call_def split: option.split)

text \<open>The name of an object in messages: kind, type and tag.\<close>

definition object_name :: "string \<Rightarrow> object \<Rightarrow> string" where
  "object_name kind ob = kind @ ''/'' @ ob_Type ob @ ''['' @ ob_Tag ob @ '']''"

text \<open>The loop of a manager's \<^verbatim>\<open>Start\<close>: the first error ends it.\<close>

fun start_each :: "string \<Rightarrow> behaviour \<Rightarrow> StartStage \<Rightarrow> object list \<Rightarrow> trace \<Rightarrow> outcome \<times> trace" where
  "start_each kind beh stage [] tr = (Done, tr)"
| "start_each kind beh stage (ob # obs) tr =
     (case LegacyStart beh ob stage tr of
        (Some err, tr') \<Rightarrow> (Fail [E_Cause err (StartStage_String stage @ '' '' @ object_name kind ob)], tr')
      | (None, tr') \<Rightarrow> start_each kind beh stage obs tr')"

text \<open>The loop over the stages for an object that is created when the manager already runs.\<close>

fun start_stages :: "string \<Rightarrow> behaviour \<Rightarrow> object \<Rightarrow> StartStage list \<Rightarrow> trace \<Rightarrow> outcome \<times> trace" where
  "start_stages kind beh ob [] tr = (Done, tr)"
| "start_stages kind beh ob (stage # stages) tr =
     (case LegacyStart beh ob stage tr of
        (Some err, tr') \<Rightarrow> (Fail [E_Cause err (StartStage_String stage @ '' '' @ object_name kind ob)], tr')
      | (None, tr') \<Rightarrow> start_stages kind beh ob stages tr')"

text \<open>
  \<^verbatim>\<open>common.Close\<close> on one object, which closes it if it has a \<^verbatim>\<open>Close\<close> method,
  the direct call of that method where the interface requires it, and the closing loops, which go on
  after an error and append the errors.
\<close>

definition close_object :: "behaviour \<Rightarrow> object \<Rightarrow> trace \<Rightarrow> error option \<times> trace" where
  "close_object beh ob tr = (if ob_closer ob then do_call beh ob Call_Close tr else (None, tr))"

definition close_method :: "behaviour \<Rightarrow> object \<Rightarrow> trace \<Rightarrow> error option \<times> trace" where
  "close_method beh ob tr = do_call beh ob Call_Close tr"

fun close_each ::
  "string \<Rightarrow> (object \<Rightarrow> trace \<Rightarrow> error option \<times> trace) \<Rightarrow> object list \<Rightarrow> trace \<Rightarrow> error list \<times> trace" where
  "close_each kind close [] tr = ([], tr)"
| "close_each kind close (ob # obs) tr =
     (case close ob tr of
        (r, tr') \<Rightarrow>
          (case close_each kind close obs tr' of
             (errs, tr'') \<Rightarrow>
               ((case r of None \<Rightarrow> [] | Some err \<Rightarrow> [E_Cause err (''close '' @ object_name kind ob)]) @ errs,
                tr'')))"

definition joined :: "error list \<Rightarrow> outcome" where
  "joined errs = (if errs = [] then Done else Fail errs)"

lemma start_each_no_panic: "start_each kind beh stage obs tr = (r, tr') \<Longrightarrow> \<not> is_panic r"
  by (induction obs arbitrary: tr) (auto split: prod.splits option.splits)

lemma start_stages_no_panic: "start_stages kind beh ob stages tr = (r, tr') \<Longrightarrow> \<not> is_panic r"
  by (induction stages arbitrary: tr) (auto split: prod.splits option.splits)

lemma joined_no_panic [simp]: "\<not> is_panic (joined errs)"
  by (simp add: joined_def)

lemma start_each_Done:
  "start_each kind beh stage obs tr = (Done, tr') \<Longrightarrow> tr' = tr @ concat (map (stage_calls stage) obs)"
proof (induction obs arbitrary: tr)
  case (Cons ob obs)
  obtain r tr1 where r: "LegacyStart beh ob stage tr = (r, tr1)"
    by fastforce
  moreover have "tr1 = tr @ stage_calls stage ob"
    using LegacyStart_trace [of beh ob stage tr] by (simp add: r)
  ultimately show ?case
    using Cons.prems Cons.IH [of tr1] by (cases r) simp_all
qed simp

lemma close_each_trace:
  assumes "\<And>ob tr. snd (close ob tr) = tr @ calls ob"
  shows "snd (close_each kind close obs tr) = tr @ concat (map calls obs)"
proof (induction obs arbitrary: tr)
  case (Cons ob obs)
  show ?case
    using assms [of ob tr] Cons [of "tr @ calls ob"] by (auto split: prod.splits)
qed simp

lemma close_method_trace: "snd (close_method beh ob tr) = tr @ [(ob_id ob, Call_Close)]"
  by (simp add: close_method_def do_call_def)

text \<open>\<^verbatim>\<open>common.Index\<close> with pointer equality, and the removal of that entry from a slice.\<close>

fun remove_object :: "object \<Rightarrow> object list \<Rightarrow> object list option" where
  "remove_object ob [] = None"
| "remove_object ob (x # xs) = (if ob_id x = ob_id ob then Some xs else map_option ((#) x) (remove_object ob xs))"

lemma remove_object_None: "remove_object ob xs = None \<longleftrightarrow> ob_id ob \<notin> ob_id ` set xs"
  by (induction xs) auto

lemma remove_object_Some:
  assumes "remove_object ob xs = Some ys" "distinct (map ob_id xs)"
  shows "ys = filter (\<lambda>x. ob_id x \<noteq> ob_id ob) xs"
  using assms
proof (induction xs arbitrary: ys)
  case (Cons x xs)
  show ?case
  proof (cases "ob_id x = ob_id ob")
    case True
    then have "ob_id y \<noteq> ob_id ob" if "y \<in> set xs" for y
      using Cons.prems(2) that by (metis distinct.simps(2) image_eqI list.set_map list.simps(9))
    then show ?thesis
      using Cons.prems(1) True by (simp add: filter_id_conv)
  next
    case False
    then show ?thesis
      using Cons by auto
  qed
qed simp

end
