(* ===== verification/Managers.thy ===== *)
theory Managers
  imports Lifecycle
begin

text \<open>
  The managers of inbounds, endpoints and certificate providers
  (\<^verbatim>\<open>adapter/inbound/manager.go\<close>, \<^verbatim>\<open>adapter/endpoint/manager.go\<close>,
  \<^verbatim>\<open>adapter/certificate/manager.go\<close>): a slice of objects in creation order and a map from
  tags to them. The three files have the same operations up to the words in messages, a stage the
  endpoint manager leaves to the outbound manager, and what \<^verbatim>\<open>Close\<close> returns; the shared
  bodies are the \<^verbatim>\<open>manager_\<close> operations. Each operation holds the manager's mutex where it
  reads or writes this state, and is one transition here.

  The locale \<^verbatim>\<open>registry_manager\<close> is the contract of such a manager: from a new manager on,
  the slice and the map hold the same objects, and no operation panics.
\<close>

subsection \<open>State\<close>

record manager =
  mgr_started :: bool
  mgr_stage :: StartStage
  mgr_items :: "object list"
  mgr_byTag :: "(string \<times> object) list"

definition NewManager :: manager where
  "NewManager = \<lparr>mgr_started = False, mgr_stage = StartStateInitialize, mgr_items = [], mgr_byTag = []\<rparr>"

text \<open>A registry constructs an object from a tag, a type and options.\<close>

type_synonym 'opt registry = "trace \<Rightarrow> string \<Rightarrow> string \<Rightarrow> 'opt \<Rightarrow> object result"

subsection \<open>Shared operations\<close>

definition already_started :: "'z manager_scheme \<Rightarrow> StartStage \<Rightarrow> bool" where
  "already_started m stage = (mgr_started m \<and> stage \<le> mgr_stage m)"

definition manager_Start ::
  "string \<Rightarrow> behaviour \<Rightarrow> StartStage \<Rightarrow> manager \<Rightarrow> trace \<Rightarrow> outcome \<times> manager \<times> trace" where
  "manager_Start kind beh stage m tr =
     (if already_started m stage then (Panic ''already started'', m, tr)
      else case start_each kind beh stage (mgr_items m) tr of
             (r, tr') \<Rightarrow> (r, m\<lparr>mgr_started := True, mgr_stage := stage\<rparr>, tr'))"

definition manager_Close ::
  "string \<Rightarrow> behaviour \<Rightarrow> manager \<Rightarrow> trace \<Rightarrow> error list \<times> manager \<times> trace" where
  "manager_Close kind beh m tr =
     (if \<not> mgr_started m then ([], m, tr)
      else case close_each kind (close_method beh) (mgr_items m) tr of
             (errs, tr') \<Rightarrow> (errs, m\<lparr>mgr_started := False, mgr_items := []\<rparr>, tr'))"

definition manager_Remove ::
  "string \<Rightarrow> behaviour \<Rightarrow> string \<Rightarrow> manager \<Rightarrow> trace \<Rightarrow> outcome \<times> manager \<times> trace" where
  "manager_Remove what beh tag m tr =
     (case map_of (mgr_byTag m) tag of
        None \<Rightarrow> (Fail [ErrInvalid], m, tr)
      | Some ob \<Rightarrow>
          (let byTag = AList.delete tag (mgr_byTag m) in
           case remove_object ob (mgr_items m) of
             None \<Rightarrow> (Panic (''invalid '' @ what @ '' index''), m\<lparr>mgr_byTag := byTag\<rparr>, tr)
           | Some rest \<Rightarrow>
               (let m' = m\<lparr>mgr_byTag := byTag, mgr_items := rest\<rparr> in
                if mgr_started m
                then case close_method beh ob tr of
                       (r, tr') \<Rightarrow> (case r of None \<Rightarrow> Done | Some err \<Rightarrow> Fail [err], m', tr')
                else (Done, m', tr))))"

text \<open>The second half of \<^verbatim>\<open>Create\<close>: the object replaces the one that has the tag.\<close>

definition manager_put ::
  "string \<Rightarrow> string \<Rightarrow> behaviour \<Rightarrow> string \<Rightarrow> object \<Rightarrow> manager \<Rightarrow> trace \<Rightarrow> outcome \<times> manager \<times> trace" where
  "manager_put kind what beh tag ob m tr =
     (case map_of (mgr_byTag m) tag of
        None \<Rightarrow>
          (Done, m\<lparr>mgr_items := mgr_items m @ [ob], mgr_byTag := AList.update tag ob (mgr_byTag m)\<rparr>, tr)
      | Some old \<Rightarrow>
          (case (if mgr_started m then close_method beh old tr else (None, tr)) of
             (Some err, tr') \<Rightarrow> (Fail [E_Cause err (''close '' @ object_name kind old)], m, tr')
           | (None, tr') \<Rightarrow>
               (case remove_object old (mgr_items m) of
                  None \<Rightarrow> (Panic (''invalid '' @ what @ '' index''), m, tr')
                | Some rest \<Rightarrow>
                    (Done,
                     m\<lparr>mgr_items := rest @ [ob], mgr_byTag := AList.update tag ob (mgr_byTag m)\<rparr>,
                     tr'))))"

definition manager_Create ::
  "string \<Rightarrow> string \<Rightarrow> behaviour \<Rightarrow> 'opt registry \<Rightarrow> string \<Rightarrow> string \<Rightarrow> 'opt \<Rightarrow> manager \<Rightarrow> trace
   \<Rightarrow> outcome \<times> manager \<times> trace" where
  "manager_Create kind what beh reg tag ty opts m tr =
     (case reg tr tag ty opts of
        Inl err \<Rightarrow> (Fail [err], m, tr)
      | Inr ob \<Rightarrow>
          (case (if mgr_started m then start_stages kind beh ob ListStartStages tr else (Done, tr)) of
             (Done, tr') \<Rightarrow> manager_put kind what beh tag ob m tr'
           | (r, tr') \<Rightarrow> (r, m, tr')))"

subsection \<open>Inbounds\<close>

definition inbound_Start where
  "inbound_Start = manager_Start ''inbound''"

text \<open>The errors of the inbounds are collected and dropped.\<close>

definition inbound_Close :: "behaviour \<Rightarrow> manager \<Rightarrow> trace \<Rightarrow> outcome \<times> manager \<times> trace" where
  "inbound_Close beh m tr = (case manager_Close ''inbound'' beh m tr of (errs, m', tr') \<Rightarrow> (Done, m', tr'))"

text \<open>The lookup falls back to the endpoint manager.\<close>

definition inbound_Get :: "manager \<Rightarrow> manager \<Rightarrow> string \<Rightarrow> object option" where
  "inbound_Get endpoint m tag =
     (case map_of (mgr_byTag m) tag of Some ob \<Rightarrow> Some ob | None \<Rightarrow> map_of (mgr_byTag endpoint) tag)"

definition inbound_Remove where
  "inbound_Remove = manager_Remove ''inbound''"

definition inbound_Create ::
  "behaviour \<Rightarrow> 'opt registry \<Rightarrow> string \<Rightarrow> string \<Rightarrow> 'opt \<Rightarrow> manager \<Rightarrow> trace \<Rightarrow> outcome \<times> manager \<times> trace" where
  "inbound_Create = manager_Create ''inbound'' ''inbound''"

subsection \<open>Endpoints\<close>

text \<open>The stage \<^verbatim>\<open>StartStateStart\<close> of the endpoints runs in the outbound manager.\<close>

definition endpoint_Start ::
  "behaviour \<Rightarrow> StartStage \<Rightarrow> manager \<Rightarrow> trace \<Rightarrow> outcome \<times> manager \<times> trace" where
  "endpoint_Start beh stage m tr =
     (if already_started m stage then (Panic ''already started'', m, tr)
      else let m' = m\<lparr>mgr_started := True, mgr_stage := stage\<rparr> in
           if stage = StartStateStart then (Done, m', tr)
           else case start_each ''endpoint'' beh stage (mgr_items m) tr of (r, tr') \<Rightarrow> (r, m', tr'))"

definition endpoint_Close :: "behaviour \<Rightarrow> manager \<Rightarrow> trace \<Rightarrow> outcome \<times> manager \<times> trace" where
  "endpoint_Close beh m tr = (case manager_Close ''endpoint'' beh m tr of (errs, m', tr') \<Rightarrow> (Done, m', tr'))"

definition endpoint_Get :: "manager \<Rightarrow> string \<Rightarrow> object option" where
  "endpoint_Get m tag = map_of (mgr_byTag m) tag"

definition endpoint_Remove where
  "endpoint_Remove = manager_Remove ''endpoint''"

definition endpoint_Create ::
  "behaviour \<Rightarrow> 'opt registry \<Rightarrow> string \<Rightarrow> string \<Rightarrow> 'opt \<Rightarrow> manager \<Rightarrow> trace \<Rightarrow> outcome \<times> manager \<times> trace" where
  "endpoint_Create = manager_Create ''endpoint'' ''endpoint''"

subsection \<open>Certificate providers\<close>

definition certificate_Start where
  "certificate_Start = manager_Start ''certificate-provider''"

definition certificate_Close :: "behaviour \<Rightarrow> manager \<Rightarrow> trace \<Rightarrow> outcome \<times> manager \<times> trace" where
  "certificate_Close beh m tr =
     (case manager_Close ''certificate-provider'' beh m tr of (errs, m', tr') \<Rightarrow> (joined errs, m', tr'))"

definition certificate_Get :: "manager \<Rightarrow> string \<Rightarrow> object option" where
  "certificate_Get m tag = map_of (mgr_byTag m) tag"

definition certificate_Remove where
  "certificate_Remove = manager_Remove ''certificate provider''"

definition certificate_Create ::
  "behaviour \<Rightarrow> 'opt registry \<Rightarrow> string \<Rightarrow> string \<Rightarrow> 'opt \<Rightarrow> manager \<Rightarrow> trace \<Rightarrow> outcome \<times> manager \<times> trace" where
  "certificate_Create = manager_Create ''certificate-provider'' ''certificate provider''"

lemmas manager_ops [go_defs] =
  inbound_Start_def inbound_Remove_def inbound_Create_def endpoint_Remove_def endpoint_Create_def
  certificate_Start_def certificate_Remove_def certificate_Create_def

subsection \<open>The slice and the map\<close>

definition registered :: "object list \<Rightarrow> (string \<times> object) list \<Rightarrow> bool" where
  "registered items byTag \<longleftrightarrow>
     distinct (map ob_id items) \<and>
     (\<forall>tag ob. map_of byTag tag = Some ob \<longrightarrow> ob \<in> set items \<and> ob_Tag ob = tag) \<and>
     (\<forall>ob\<in>set items. map_of byTag (ob_Tag ob) = Some ob)"

lemma registered_Nil: "registered [] []"
  by (simp add: registered_def)

lemma registered_id_inj:
  "registered items byTag \<Longrightarrow> a \<in> set items \<Longrightarrow> b \<in> set items \<Longrightarrow> ob_id a = ob_id b \<Longrightarrow> a = b"
  unfolding registered_def by (auto simp: distinct_map inj_on_def)

lemma registered_remove:
  assumes "registered items byTag" "map_of byTag tag = Some ob"
  shows "\<exists>rest. remove_object ob items = Some rest \<and> rest = filter (\<lambda>x. ob_id x \<noteq> ob_id ob) items
    \<and> registered rest (AList.delete tag byTag)"
proof -
  have ob: "ob \<in> set items" "ob_Tag ob = tag"
    using assms unfolding registered_def by blast+
  then obtain rest where rest: "remove_object ob items = Some rest"
    using remove_object_None [of ob items] by (cases "remove_object ob items") auto
  moreover have "rest = filter (\<lambda>x. ob_id x \<noteq> ob_id ob) items"
    using remove_object_Some [OF rest] assms(1) by (simp add: registered_def)
  moreover have "registered (filter (\<lambda>x. ob_id x \<noteq> ob_id ob) items) (AList.delete tag byTag)"
    unfolding registered_def
  proof (intro conjI allI ballI impI)
    show "distinct (map ob_id (filter (\<lambda>x. ob_id x \<noteq> ob_id ob) items))"
      using assms(1) by (simp add: registered_def distinct_map_filter)
  next
    fix t x assume "map_of (AList.delete tag byTag) t = Some x"
    then have x: "t \<noteq> tag" "map_of byTag t = Some x"
      by (auto simp: delete_conv' split: if_splits)
    then have "x \<in> set items" "ob_Tag x = t"
      using assms(1) unfolding registered_def by blast+
    then show "x \<in> set (filter (\<lambda>x. ob_id x \<noteq> ob_id ob) items)" "ob_Tag x = t"
      using registered_id_inj [OF assms(1), of x ob] ob x(1) by auto
  next
    fix x assume x: "x \<in> set (filter (\<lambda>x. ob_id x \<noteq> ob_id ob) items)"
    then have *: "map_of byTag (ob_Tag x) = Some x"
      using assms(1) unfolding registered_def by auto
    then have "ob_Tag x \<noteq> tag"
      using x assms(2) by auto
    then show "map_of (AList.delete tag byTag) (ob_Tag x) = Some x"
      using * by (simp add: delete_conv')
  qed
  ultimately show ?thesis
    by blast
qed

lemma registered_put:
  assumes "registered items byTag" "map_of byTag (ob_Tag ob) = None" "ob_id ob \<notin> ob_id ` set items"
  shows "registered (items @ [ob]) (AList.update (ob_Tag ob) ob byTag)"
  unfolding registered_def
proof (intro conjI allI ballI impI)
  show "distinct (map ob_id (items @ [ob]))"
    using assms(1,3) by (simp add: registered_def)
next
  fix t x assume "map_of (AList.update (ob_Tag ob) ob byTag) t = Some x"
  then have "t = ob_Tag ob \<and> x = ob \<or> map_of byTag t = Some x"
    by (simp add: update_conv' split: if_splits)
  then show "x \<in> set (items @ [ob])" "ob_Tag x = t"
    using assms(1) unfolding registered_def by auto
next
  fix x assume "x \<in> set (items @ [ob])"
  then consider "x = ob" | "x \<in> set items"
    by auto
  then show "map_of (AList.update (ob_Tag ob) ob byTag) (ob_Tag x) = Some x"
  proof cases
    case 1
    then show ?thesis by (simp add: update_conv')
  next
    case 2
    then have "map_of byTag (ob_Tag x) = Some x"
      using assms(1) unfolding registered_def by blast
    then show ?thesis
      using assms(2) by (auto simp: update_conv')
  qed
qed

lemma update_delete: "map_of (AList.update k v (AList.delete k xs)) = map_of (AList.update k v xs)"
  by (simp add: update_conv' delete_conv')

lemma registered_cong:
  "map_of byTag = map_of byTag' \<Longrightarrow> registered items byTag = registered items byTag'"
  by (simp add: registered_def)

lemma registered_replace:
  assumes "registered items byTag" "map_of byTag (ob_Tag ob) = Some old" "ob_id ob \<notin> ob_id ` set items"
  shows "\<exists>rest. remove_object old items = Some rest
    \<and> registered (rest @ [ob]) (AList.update (ob_Tag ob) ob byTag)"
proof -
  obtain rest where rest: "remove_object old items = Some rest"
    "rest = filter (\<lambda>x. ob_id x \<noteq> ob_id old) items" "registered rest (AList.delete (ob_Tag ob) byTag)"
    using registered_remove [OF assms(1,2)] by blast
  have "registered (rest @ [ob]) (AList.update (ob_Tag ob) ob (AList.delete (ob_Tag ob) byTag))"
    by (rule registered_put) (use rest assms(3) in \<open>auto simp: delete_conv'\<close>)
  then show ?thesis
    using rest(1) registered_cong [OF update_delete] by blast
qed

subsection \<open>The contract of a manager\<close>

datatype 'opt op = Op_Start StartStage | Op_Remove string | Op_Create string string 'opt

locale registry_manager =
  fixes exec :: "'opt op \<Rightarrow> 'm \<Rightarrow> trace \<Rightarrow> outcome \<times> 'm \<times> trace"
    and allowed :: "'opt op \<Rightarrow> 'm \<Rightarrow> trace \<Rightarrow> bool"
    and invariant :: "'m \<Rightarrow> bool"
    and items :: "'m \<Rightarrow> object list"
    and byTag :: "'m \<Rightarrow> (string \<times> object) list"
    and initial :: 'm
  assumes initial: "invariant initial"
    and keeps: "invariant m \<Longrightarrow> allowed oper m tr \<Longrightarrow> exec oper m tr = (r, m', tr') \<Longrightarrow> invariant m'"
    and safe: "invariant m \<Longrightarrow> allowed oper m tr \<Longrightarrow> exec oper m tr = (r, m', tr') \<Longrightarrow> \<not> is_panic r"
    and view: "invariant m \<Longrightarrow> registered (items m) (byTag m)"
begin

inductive reach :: "'m \<Rightarrow> trace \<Rightarrow> bool" where
  new: "reach initial []"
| step: "reach m tr \<Longrightarrow> allowed oper m tr \<Longrightarrow> exec oper m tr = (r, m', tr') \<Longrightarrow> reach m' (tr' @ others)"

lemma reach_invariant: "reach m tr \<Longrightarrow> invariant m"
  by (induction rule: reach.induct) (auto intro: initial keeps)

lemma reach_registered: "reach m tr \<Longrightarrow> registered (items m) (byTag m)"
  using reach_invariant view by blast

lemma reach_safe: "reach m tr \<Longrightarrow> allowed oper m tr \<Longrightarrow> \<not> is_panic (fst (exec oper m tr))"
  using reach_invariant safe by (metis prod.collapse)

lemma reach_lookup: "reach m tr \<Longrightarrow> map_of (byTag m) tag = Some ob \<longleftrightarrow> ob \<in> set (items m) \<and> ob_Tag ob = tag"
  using reach_registered unfolding registered_def by blast

end

text \<open>
  What an operation may rely on: a registry constructs a new object with the tag it was given, and
  a stage is started once.
\<close>

fun manager_allowed :: "'opt registry \<Rightarrow> 'opt op \<Rightarrow> manager \<Rightarrow> trace \<Rightarrow> bool" where
  "manager_allowed reg (Op_Start stage) m tr = (\<not> already_started m stage)"
| "manager_allowed reg (Op_Remove tag) m tr = True"
| "manager_allowed reg (Op_Create tag ty opts) m tr =
     (case reg tr tag ty opts of
        Inl err \<Rightarrow> True
      | Inr ob \<Rightarrow> ob_Tag ob = tag \<and> ob_id ob \<notin> ob_id ` set (mgr_items m))"

abbreviation mgr_registered :: "manager \<Rightarrow> bool" where
  "mgr_registered m \<equiv> registered (mgr_items m) (mgr_byTag m)"

lemma manager_Remove_registered:
  assumes "mgr_registered m" "manager_Remove what beh tag m tr = (r, m', tr')"
  shows "mgr_registered m' \<and> \<not> is_panic r"
proof (cases "map_of (mgr_byTag m) tag")
  case None
  then show ?thesis
    using assms by (auto simp: manager_Remove_def)
next
  case (Some ob)
  then obtain rest where "remove_object ob (mgr_items m) = Some rest"
    "registered rest (AList.delete tag (mgr_byTag m))"
    using registered_remove [OF assms(1)] by blast
  then show ?thesis
    using assms(2) Some
    by (auto simp: manager_Remove_def Let_def split: if_splits prod.splits option.splits)
qed

lemma manager_put_registered:
  assumes "mgr_registered m" "ob_Tag ob = tag" "ob_id ob \<notin> ob_id ` set (mgr_items m)"
    and "manager_put kind what beh tag ob m tr = (r, m', tr')"
  shows "mgr_registered m' \<and> \<not> is_panic r"
proof (cases "map_of (mgr_byTag m) tag")
  case None
  then show ?thesis
    using assms registered_put [of "mgr_items m" "mgr_byTag m" ob] by (auto simp: manager_put_def)
next
  case (Some old)
  then obtain rest where "remove_object old (mgr_items m) = Some rest"
    "registered (rest @ [ob]) (AList.update tag ob (mgr_byTag m))"
    using registered_replace [OF assms(1) _ assms(3)] assms(2) by blast
  then show ?thesis
    using assms(1,4) Some by (auto simp: manager_put_def split: if_splits prod.splits option.splits)
qed

lemma manager_Create_registered:
  assumes "mgr_registered m" "manager_allowed reg (Op_Create tag ty opts) m tr"
    and "manager_Create kind what beh reg tag ty opts m tr = (r, m', tr')"
  shows "mgr_registered m' \<and> \<not> is_panic r"
proof (cases "reg tr tag ty opts")
  case (Inl err)
  then show ?thesis
    using assms by (auto simp: manager_Create_def)
next
  case (Inr ob)
  obtain r1 tr1 where r1: "(if mgr_started m then start_stages kind beh ob ListStartStages tr else (Done, tr)) = (r1, tr1)"
    by fastforce
  then have "\<not> is_panic r1"
    by (auto split: if_splits dest: start_stages_no_panic)
  then show ?thesis
    using assms Inr r1 manager_put_registered [OF assms(1), of ob tag kind what beh tr1 r m' tr']
    by (cases r1) (auto simp: manager_Create_def)
qed

lemma manager_Start_registered:
  assumes "mgr_registered m" "manager_Start kind beh stage m tr = (r, m', tr')" "\<not> already_started m stage"
  shows "mgr_registered m' \<and> \<not> is_panic r"
  using assms by (auto simp: manager_Start_def split: prod.splits dest: start_each_no_panic)

lemma endpoint_Start_registered:
  assumes "mgr_registered m" "endpoint_Start beh stage m tr = (r, m', tr')" "\<not> already_started m stage"
  shows "mgr_registered m' \<and> \<not> is_panic r"
  using assms
  by (auto simp: endpoint_Start_def Let_def split: prod.splits if_splits dest: start_each_no_panic)

fun inbound_exec :: "behaviour \<Rightarrow> 'opt registry \<Rightarrow> 'opt op \<Rightarrow> manager \<Rightarrow> trace \<Rightarrow> outcome \<times> manager \<times> trace" where
  "inbound_exec beh reg (Op_Start stage) m tr = inbound_Start beh stage m tr"
| "inbound_exec beh reg (Op_Remove tag) m tr = inbound_Remove beh tag m tr"
| "inbound_exec beh reg (Op_Create tag ty opts) m tr = inbound_Create beh reg tag ty opts m tr"

fun endpoint_exec :: "behaviour \<Rightarrow> 'opt registry \<Rightarrow> 'opt op \<Rightarrow> manager \<Rightarrow> trace \<Rightarrow> outcome \<times> manager \<times> trace" where
  "endpoint_exec beh reg (Op_Start stage) m tr = endpoint_Start beh stage m tr"
| "endpoint_exec beh reg (Op_Remove tag) m tr = endpoint_Remove beh tag m tr"
| "endpoint_exec beh reg (Op_Create tag ty opts) m tr = endpoint_Create beh reg tag ty opts m tr"

fun certificate_exec :: "behaviour \<Rightarrow> 'opt registry \<Rightarrow> 'opt op \<Rightarrow> manager \<Rightarrow> trace \<Rightarrow> outcome \<times> manager \<times> trace" where
  "certificate_exec beh reg (Op_Start stage) m tr = certificate_Start beh stage m tr"
| "certificate_exec beh reg (Op_Remove tag) m tr = certificate_Remove beh tag m tr"
| "certificate_exec beh reg (Op_Create tag ty opts) m tr = certificate_Create beh reg tag ty opts m tr"

lemma inbound_exec_registered:
  assumes "mgr_registered m" "manager_allowed reg oper m tr" "inbound_exec beh reg oper m tr = (r, m', tr')"
  shows "mgr_registered m' \<and> \<not> is_panic r"
  using assms manager_Start_registered [of m "''inbound''" beh _ tr r m' tr']
    manager_Remove_registered [of m "''inbound''" beh _ tr r m' tr']
    manager_Create_registered [of m reg _ _ _ tr "''inbound''" "''inbound''" beh r m' tr']
  by (cases oper) (simp_all only: inbound_exec.simps manager_allowed.simps(1) manager_ops simp_thms)

lemma endpoint_exec_registered:
  assumes "mgr_registered m" "manager_allowed reg oper m tr" "endpoint_exec beh reg oper m tr = (r, m', tr')"
  shows "mgr_registered m' \<and> \<not> is_panic r"
  using assms endpoint_Start_registered [of m beh _ tr r m' tr']
    manager_Remove_registered [of m "''endpoint''" beh _ tr r m' tr']
    manager_Create_registered [of m reg _ _ _ tr "''endpoint''" "''endpoint''" beh r m' tr']
  by (cases oper) (simp_all only: endpoint_exec.simps manager_allowed.simps(1) manager_ops simp_thms)

lemma certificate_exec_registered:
  assumes "mgr_registered m" "manager_allowed reg oper m tr" "certificate_exec beh reg oper m tr = (r, m', tr')"
  shows "mgr_registered m' \<and> \<not> is_panic r"
  using assms manager_Start_registered [of m "''certificate-provider''" beh _ tr r m' tr']
    manager_Remove_registered [of m "''certificate provider''" beh _ tr r m' tr']
    manager_Create_registered [of m reg _ _ _ tr "''certificate-provider''" "''certificate provider''" beh r m' tr']
  by (cases oper) (simp_all only: certificate_exec.simps manager_allowed.simps(1) manager_ops simp_thms)

lemma NewManager_registered: "mgr_registered NewManager"
  by (simp add: NewManager_def registered_Nil)

interpretation inbounds: registry_manager
  "inbound_exec beh reg" "manager_allowed reg" mgr_registered mgr_items mgr_byTag NewManager
  for beh reg
  by unfold_locales (use inbound_exec_registered NewManager_registered in blast)+

interpretation endpoints: registry_manager
  "endpoint_exec beh reg" "manager_allowed reg" mgr_registered mgr_items mgr_byTag NewManager
  for beh reg
  by unfold_locales (use endpoint_exec_registered NewManager_registered in blast)+

interpretation certificates: registry_manager
  "certificate_exec beh reg" "manager_allowed reg" mgr_registered mgr_items mgr_byTag NewManager
  for beh reg
  by unfold_locales (use certificate_exec_registered NewManager_registered in blast)+

end
