(* ===== verification/Outbound_Manager.thy ===== *)
theory Outbound_Manager
  imports Managers
begin

text \<open>
  The outbound manager (\<^verbatim>\<open>adapter/outbound/manager.go\<close>): the registry of outbounds with
  the default outbound and the record of which outbound depends on which, and the start of outbounds
  and endpoints in the order of their dependencies. A Go map is an association list, read by
  \<^const>\<open>map_of\<close>.
\<close>

subsection \<open>State\<close>

record outbound_manager = manager +
  om_defaultTag :: string
  om_dependByTag :: "(string \<times> string list) list"
  om_default :: "object option"
  om_fallback :: "(trace \<Rightarrow> object result) option"

definition outbound_NewManager :: "string \<Rightarrow> outbound_manager" where
  "outbound_NewManager defaultTag =
     \<lparr>mgr_started = False, mgr_stage = StartStateInitialize, mgr_items = [], mgr_byTag = [],
      om_defaultTag = defaultTag, om_dependByTag = [], om_default = None, om_fallback = None\<rparr>"

definition outbound_Initialize :: "(trace \<Rightarrow> object result) \<Rightarrow> outbound_manager \<Rightarrow> outbound_manager" where
  "outbound_Initialize fallback m = m\<lparr>om_fallback := Some fallback\<rparr>"

subsection \<open>Starting in the order of dependencies\<close>

text \<open>
  One round over the outbounds: an outbound starts when all its dependencies have. The set
  \<^verbatim>\<open>started\<close> is kept as the list of its tags in the order in which they were added.
\<close>

fun start_pass ::
  "behaviour \<Rightarrow> object list \<Rightarrow> string list \<Rightarrow> bool \<Rightarrow> trace \<Rightarrow> outcome \<times> string list \<times> bool \<times> trace" where
  "start_pass beh [] started canContinue tr = (Done, started, canContinue, tr)"
| "start_pass beh (ob # obs) started canContinue tr =
     (if ob_Tag ob \<in> set started \<or> \<not> set (ob_Dependencies ob) \<subseteq> set started
      then start_pass beh obs started canContinue tr
      else case LegacyStart beh ob StartStateStart tr of
             (Some err, tr') \<Rightarrow>
               (Fail [E_Cause err (''start '' @ object_name ''outbound'' ob)], started @ [ob_Tag ob], True, tr')
           | (None, tr') \<Rightarrow> start_pass beh obs (started @ [ob_Tag ob]) True tr')"

text \<open>
  \<^verbatim>\<open>common.Find\<close> gives the zero value when nothing is found: the empty tag for a
  dependency, nil for an outbound.
\<close>

definition find_problem :: "string list \<Rightarrow> object \<Rightarrow> string" where
  "find_problem started ob =
     (case find (\<lambda>d. d \<notin> set started) (ob_Dependencies ob) of None \<Rightarrow> '''' | Some d \<Rightarrow> d)"

definition circular_error :: "string list \<Rightarrow> string \<Rightarrow> error" where
  "circular_error oTree tag =
     E_New (''circular outbound dependency: '' @ str_join '' -> '' oTree @ '' -> '' @ tag)"

definition missing_error :: "string \<Rightarrow> object \<Rightarrow> error" where
  "missing_error tag ob = E_New (''dependency['' @ tag @ ''] not found for outbound['' @ ob_Tag ob @ '']'')"

function lintOutbound :: "(string \<times> object) list \<Rightarrow> string list \<Rightarrow> string list \<Rightarrow> object \<Rightarrow> error" where
  "lintOutbound byTag started oTree oCurrent =
     (if find_problem started oCurrent \<in> set oTree
      then circular_error oTree (find_problem started oCurrent)
      else case map_of byTag (find_problem started oCurrent) of
             None \<Rightarrow> missing_error (find_problem started oCurrent) oCurrent
           | Some ob \<Rightarrow> lintOutbound byTag started (oTree @ [find_problem started oCurrent]) ob)"
  by pat_completeness auto

termination
proof (relation "measure (\<lambda>(byTag, started, oTree, ob). card (dom (map_of byTag) - set oTree))")
  fix byTag :: "(string \<times> object) list" and started oTree oCurrent ob
  assume *: "find_problem started oCurrent \<notin> set oTree" "map_of byTag (find_problem started oCurrent) = Some ob"
  have "card (dom (map_of byTag) - set (oTree @ [find_problem started oCurrent]))
    < card (dom (map_of byTag) - set oTree)"
    by (rule psubset_card_mono) (use * finite_dom_map_of in \<open>auto simp: domIff\<close>)
  then show "((byTag, started, oTree @ [find_problem started oCurrent], ob), byTag, started, oTree, oCurrent)
      \<in> measure (\<lambda>(byTag, started, oTree, ob). card (dom (map_of byTag) - set oTree))"
    by simp
qed simp

declare lintOutbound.simps [simp del]

text \<open>The outbounds of a list that a round or all rounds start, and what they may rely on.\<close>

fun deps_before :: "string list \<Rightarrow> object list \<Rightarrow> bool" where
  "deps_before started [] = True"
| "deps_before started (ob # obs) =
     (set (ob_Dependencies ob) \<subseteq> set started \<and> ob_Tag ob \<notin> set started \<and> deps_before (started @ [ob_Tag ob]) obs)"

definition started_calls :: "object list \<Rightarrow> trace" where
  "started_calls obs = concat (map (stage_calls StartStateStart) obs)"

lemma started_calls_simps [simp]:
  "started_calls [] = []" "started_calls (ob # obs) = stage_calls StartStateStart ob @ started_calls obs"
  "started_calls (xs @ ys) = started_calls xs @ started_calls ys"
  by (simp_all add: started_calls_def)

lemma deps_before_append:
  "deps_before started (xs @ ys) \<longleftrightarrow> deps_before started xs \<and> deps_before (started @ map ob_Tag xs) ys"
  by (induction xs arbitrary: started) auto

lemma LegacyStart_cases:
  obtains r where "LegacyStart beh ob stage tr = (r, tr @ stage_calls stage ob)"
  using LegacyStart_trace by (metis prod.collapse)

lemma start_pass_ends:
  assumes "start_pass beh obs started canContinue tr = (r, started', canContinue', tr')"
  obtains new where "set new \<subseteq> set obs" "deps_before started new" "started' = started @ map ob_Tag new"
    "tr' = tr @ started_calls new" "canContinue' \<longleftrightarrow> canContinue \<or> new \<noteq> []"
    "r = Done \<or> (\<exists>err. r = Fail [err])"
    "new = [] \<Longrightarrow> \<forall>ob\<in>set obs. ob_Tag ob \<in> set started \<or> \<not> set (ob_Dependencies ob) \<subseteq> set started"
  using assms
proof (induction obs arbitrary: started canContinue tr thesis)
  case Nil
  from Nil.prems(1) [of "[]"] Nil.prems(2) show ?case by auto
next
  case (Cons ob obs)
  show ?case
  proof (cases "ob_Tag ob \<in> set started \<or> \<not> set (ob_Dependencies ob) \<subseteq> set started")
    case True
    with Cons.prems(2) have *: "start_pass beh obs started canContinue tr = (r, started', canContinue', tr')"
      by simp
    show ?thesis
      by (rule Cons.IH [OF _ *], rule Cons.prems(1)) (use True in auto)
  next
    case False
    obtain r1 where r1: "LegacyStart beh ob StartStateStart tr = (r1, tr @ stage_calls StartStateStart ob)"
      by (rule LegacyStart_cases)
    show ?thesis
    proof (cases r1)
      case (Some err)
      with r1 False Cons.prems(2) show ?thesis
        by (intro Cons.prems(1) [of "[ob]"]) auto
    next
      case None
      with r1 False Cons.prems(2)
      have *: "start_pass beh obs (started @ [ob_Tag ob]) True (tr @ stage_calls StartStateStart ob)
          = (r, started', canContinue', tr')"
        by simp
      show ?thesis
      proof (rule Cons.IH [OF _ *])
        fix new assume "set new \<subseteq> set obs" "deps_before (started @ [ob_Tag ob]) new"
          "started' = (started @ [ob_Tag ob]) @ map ob_Tag new"
          "tr' = (tr @ stage_calls StartStateStart ob) @ started_calls new"
          "canContinue' = (True \<or> new \<noteq> [])" "r = Done \<or> (\<exists>err. r = Fail [err])"
        with False show ?thesis
          by (intro Cons.prems(1) [of "ob # new"]) auto
      qed
    qed
  qed
qed

lemma start_pass_progress:
  assumes "start_pass beh obs started False tr = (r, started', True, tr')"
  shows "card (ob_Tag ` set obs - set started') < card (ob_Tag ` set obs - set started)"
proof -
  obtain new where new: "set new \<subseteq> set obs" "deps_before started new" "started' = started @ map ob_Tag new"
    "True \<longleftrightarrow> False \<or> new \<noteq> []"
    using assms by (rule start_pass_ends)
  then obtain ob obs' where "new = ob # obs'"
    by (cases new) auto
  with new have "ob \<in> set obs" "ob_Tag ob \<notin> set started" "ob_Tag ob \<in> set started'" "set started \<subseteq> set started'"
    by auto
  then show ?thesis
    by (intro psubset_card_mono) auto
qed

text \<open>The loop of rounds. A round that can continue has started at least one more outbound.\<close>

function start_rounds ::
  "behaviour \<Rightarrow> (string \<times> object) list \<Rightarrow> object list \<Rightarrow> string list \<Rightarrow> trace \<Rightarrow> outcome \<times> trace" where
  "start_rounds beh byTag obs started tr =
     (case start_pass beh obs started False tr of
        (r, started', canContinue, tr') \<Rightarrow>
          if r \<noteq> Done then (r, tr')
          else if length started' = length obs then (Done, tr')
          else if canContinue then start_rounds beh byTag obs started' tr'
          else case find (\<lambda>ob. ob_Tag ob \<notin> set started') obs of
                 None \<Rightarrow> (Panic ''invalid memory address or nil pointer dereference'', tr')
               | Some ob \<Rightarrow> (Fail [lintOutbound byTag started' [ob_Tag ob] ob], tr'))"
  by pat_completeness auto

termination
  by (relation "measure (\<lambda>(beh, byTag, obs, started, tr). card (ob_Tag ` set obs - set started))")
    (auto dest!: start_pass_progress start_pass_progress [OF sym])

declare start_rounds.simps [simp del]

definition startOutbounds ::
  "behaviour \<Rightarrow> (string \<times> object) list \<Rightarrow> object list \<Rightarrow> trace \<Rightarrow> outcome \<times> trace" where
  "startOutbounds beh byTag outbounds tr = start_rounds beh byTag outbounds [] tr"

subsection \<open>Operations\<close>

text \<open>The default outbound, chosen when the stage \<^verbatim>\<open>StartStateStart\<close> begins.\<close>

definition choose_default ::
  "manager \<Rightarrow> outbound_manager \<Rightarrow> trace \<Rightarrow> outcome \<times> outbound_manager" where
  "choose_default endpoint m tr =
     (case (if om_defaultTag m \<noteq> '''' \<and> om_default m = None
            then case endpoint_Get endpoint (om_defaultTag m) of
                   None \<Rightarrow> Inl (E_New (''default outbound not found: '' @ om_defaultTag m))
                 | Some defaultEndpoint \<Rightarrow> Inr (m\<lparr>om_default := Some defaultEndpoint\<rparr>)
            else Inr m) of
        Inl err \<Rightarrow> (Fail [err], m)
      | Inr m1 \<Rightarrow>
          (if om_default m1 = None
           then case om_fallback m1 of
                  None \<Rightarrow> (Panic ''invalid memory address or nil pointer dereference'', m1)
                | Some fallback \<Rightarrow>
                    (case fallback tr of
                       Inl err \<Rightarrow> (Fail [E_Cause err ''create direct outbound for fallback''], m1)
                     | Inr directOutbound \<Rightarrow>
                         (Done,
                          m1\<lparr>mgr_items := mgr_items m1 @ [directOutbound],
                             mgr_byTag := AList.update (ob_Tag directOutbound) directOutbound (mgr_byTag m1),
                             om_default := Some directOutbound\<rparr>))
           else (Done, m1)))"

definition outbound_Start ::
  "behaviour \<Rightarrow> manager \<Rightarrow> StartStage \<Rightarrow> outbound_manager \<Rightarrow> trace \<Rightarrow> outcome \<times> outbound_manager \<times> trace" where
  "outbound_Start beh endpoint stage m tr =
     (if already_started m stage then (Panic ''already started'', m, tr)
      else
        let m1 = m\<lparr>mgr_started := True, mgr_stage := stage\<rparr> in
        if stage = StartStateStart
        then case choose_default endpoint m1 tr of
               (Done, m2) \<Rightarrow>
                 (case startOutbounds beh (mgr_byTag m2) (mgr_items m2 @ mgr_items endpoint) tr of
                    (r, tr') \<Rightarrow> (r, m2, tr'))
             | (r, m2) \<Rightarrow> (r, m2, tr)
        else case start_each ''outbound'' beh stage (mgr_items m1) tr of (r, tr') \<Rightarrow> (r, m1, tr'))"

definition outbound_Close ::
  "behaviour \<Rightarrow> outbound_manager \<Rightarrow> trace \<Rightarrow> outcome \<times> outbound_manager \<times> trace" where
  "outbound_Close beh m tr =
     (if \<not> mgr_started m then (Done, m, tr)
      else case close_each ''outbound'' (close_object beh) (mgr_items m) tr of
             (errs, tr') \<Rightarrow> (Done, m\<lparr>mgr_started := False, mgr_items := []\<rparr>, tr'))"

definition outbound_Outbound :: "manager \<Rightarrow> outbound_manager \<Rightarrow> string \<Rightarrow> object option" where
  "outbound_Outbound endpoint m tag =
     (case map_of (mgr_byTag m) tag of Some ob \<Rightarrow> Some ob | None \<Rightarrow> endpoint_Get endpoint tag)"

definition outbound_Default :: "outbound_manager \<Rightarrow> object option" where
  "outbound_Default m = om_default m"

definition dependBy :: "(string \<times> string list) list \<Rightarrow> string \<Rightarrow> string list" where
  "dependBy dependByTag tag = (case map_of dependByTag tag of None \<Rightarrow> [] | Some tags \<Rightarrow> tags)"

definition undepend :: "string \<Rightarrow> string \<Rightarrow> (string \<times> string list) list \<Rightarrow> (string \<times> string list) list" where
  "undepend tag dependency dependByTag =
     (if length (dependBy dependByTag dependency) = 1 then AList.delete dependency dependByTag
      else AList.update dependency (filter (\<lambda>it. it \<noteq> tag) (dependBy dependByTag dependency)) dependByTag)"

definition outbound_Remove ::
  "behaviour \<Rightarrow> string \<Rightarrow> outbound_manager \<Rightarrow> trace \<Rightarrow> outcome \<times> outbound_manager \<times> trace" where
  "outbound_Remove beh tag m tr =
     (case map_of (mgr_byTag m) tag of
        None \<Rightarrow> (Fail [ErrInvalid], m, tr)
      | Some outbound \<Rightarrow>
          (let m1 = m\<lparr>mgr_byTag := AList.delete tag (mgr_byTag m)\<rparr> in
           case remove_object outbound (mgr_items m) of
             None \<Rightarrow> (Panic ''invalid inbound index'', m1, tr)
           | Some rest \<Rightarrow>
               (let m2 = m1\<lparr>mgr_items := rest,
                            om_default :=
                              (if map_option ob_id (om_default m) = Some (ob_id outbound)
                               then (case rest of [] \<Rightarrow> None | ob # _ \<Rightarrow> Some ob)
                               else om_default m)\<rparr>;
                    by = dependBy (om_dependByTag m) tag in
                if by \<noteq> []
                then (Fail [E_New (''outbound['' @ tag @ ''] is depended by '' @ str_join '', '' by)], m2, tr)
                else
                  let m3 = m2\<lparr>om_dependByTag := fold (undepend tag) (ob_Dependencies outbound) (om_dependByTag m)\<rparr> in
                  if mgr_started m
                  then case close_object beh outbound tr of
                         (r, tr') \<Rightarrow> (case r of None \<Rightarrow> Done | Some err \<Rightarrow> Fail [err], m3, tr')
                  else (Done, m3, tr))))"

text \<open>The part of \<^verbatim>\<open>Create\<close> that appends the new outbound and updates the maps and the default.\<close>

definition outbound_put :: "string \<Rightarrow> object \<Rightarrow> object list \<Rightarrow> outbound_manager \<Rightarrow> outbound_manager" where
  "outbound_put tag outbound rest m =
     m\<lparr>mgr_items := rest @ [outbound],
       mgr_byTag := AList.update tag outbound (mgr_byTag m),
       om_dependByTag :=
         fold (\<lambda>dependency d. AList.update dependency (dependBy d dependency @ [tag]) d)
           (ob_Dependencies outbound) (om_dependByTag m),
       om_default :=
         (if tag = om_defaultTag m \<or> om_defaultTag m = '''' \<and> om_default m = None then Some outbound
          else om_default m)\<rparr>"

definition outbound_Create ::
  "behaviour \<Rightarrow> 'opt registry \<Rightarrow> string \<Rightarrow> string \<Rightarrow> 'opt \<Rightarrow> outbound_manager \<Rightarrow> trace
   \<Rightarrow> outcome \<times> outbound_manager \<times> trace" where
  "outbound_Create beh reg tag ty opts m tr =
     (if tag = '''' then (Fail [ErrInvalid], m, tr)
      else case reg tr tag ty opts of
        Inl err \<Rightarrow> (Fail [err], m, tr)
      | Inr outbound \<Rightarrow>
          (case (if mgr_started m then start_stages ''outbound'' beh outbound ListStartStages tr else (Done, tr)) of
             (Done, tr1) \<Rightarrow>
               (case map_of (mgr_byTag m) tag of
                  None \<Rightarrow> (Done, outbound_put tag outbound (mgr_items m) m, tr1)
                | Some old \<Rightarrow>
                    (case (if mgr_started m then close_object beh old tr1 else (None, tr1)) of
                       (Some err, tr2) \<Rightarrow> (Fail [E_Cause err (''close '' @ object_name ''outbound'' old)], m, tr2)
                     | (None, tr2) \<Rightarrow>
                         (case remove_object old (mgr_items m) of
                            None \<Rightarrow> (Panic ''invalid inbound index'', m, tr2)
                          | Some rest \<Rightarrow> (Done, outbound_put tag outbound rest m, tr2))))
           | (r, tr1) \<Rightarrow> (r, m, tr1)))"

subsection \<open>The order of starting\<close>

lemma deps_before_distinct:
  "deps_before started new \<Longrightarrow> distinct started \<Longrightarrow> distinct (started @ map ob_Tag new)"
proof (induction new arbitrary: started)
  case (Cons ob new)
  then have "distinct ((started @ [ob_Tag ob]) @ map ob_Tag new)"
    by (intro Cons.IH) auto
  then show ?case by simp
qed simp

lemma start_rounds_ends:
  assumes "start_rounds beh byTag obs started tr = (r, tr')"
  obtains new where "set new \<subseteq> set obs" "deps_before started new" "tr' = tr @ started_calls new"
    "r = Done \<Longrightarrow> length started + length new = length obs"
    "r = Done \<or> (\<exists>err. r = Fail [err]) \<or>
     is_panic r \<and> length started + length new \<noteq> length obs \<and> ob_Tag ` set obs \<subseteq> set (started @ map ob_Tag new)"
  using assms
proof (induction beh byTag obs started tr arbitrary: thesis rule: start_rounds.induct)
  case (1 beh byTag obs started tr)
  obtain r1 started1 cont tr1 where pass: "start_pass beh obs started False tr = (r1, started1, cont, tr1)"
    using prod_cases4 by blast
  then obtain new where new: "set new \<subseteq> set obs" "deps_before started new" "started1 = started @ map ob_Tag new"
    "tr1 = tr @ started_calls new" "cont \<longleftrightarrow> False \<or> new \<noteq> []" "r1 = Done \<or> (\<exists>err. r1 = Fail [err])"
    by (rule start_pass_ends)
  note step = "1.prems"(2) [unfolded start_rounds.simps [of beh byTag obs started tr] pass prod.case]
  consider "r1 \<noteq> Done" | "r1 = Done" "length started1 = length obs"
    | "r1 = Done" "length started1 \<noteq> length obs" "cont" | "r1 = Done" "length started1 \<noteq> length obs" "\<not> cont"
    by blast
  then show ?case
  proof cases
    case 1
    with step new show ?thesis by (intro "1.prems"(1) [of new]) auto
  next
    case 2
    with step new show ?thesis by (intro "1.prems"(1) [of new]) auto
  next
    case 3
    then have rounds: "start_rounds beh byTag obs started1 tr1 = (r, tr')"
      using step by simp
    have r1: "\<not> r1 \<noteq> Done" using 3 by simp
    show ?thesis
    proof (rule "1.IH" [OF pass [symmetric] refl refl r1 3(2,3) _ rounds])
      fix more assume more: "set more \<subseteq> set obs" "deps_before started1 more" "tr' = tr1 @ started_calls more"
        "r = Done \<Longrightarrow> length started1 + length more = length obs"
        "r = Done \<or> (\<exists>err. r = Fail [err]) \<or>
         is_panic r \<and> length started1 + length more \<noteq> length obs \<and> ob_Tag ` set obs \<subseteq> set (started1 @ map ob_Tag more)"
      show ?thesis
        by (rule "1.prems"(1) [of "new @ more"]) (use new more in \<open>auto simp: deps_before_append\<close>)
    qed
  next
    case 4
    then have none: "new = []" "started1 = started" using new by simp_all
    show ?thesis
    proof (cases "find (\<lambda>ob. ob_Tag ob \<notin> set started1) obs")
      case None
      then show ?thesis
        using step new none 4 find_None_iff [of "\<lambda>ob. ob_Tag ob \<notin> set started1" obs]
        by (intro "1.prems"(1) [of "[]"]) auto
    next
      case (Some ob)
      then show ?thesis
        using step new none 4 by (intro "1.prems"(1) [of "[]"]) auto
    qed
  qed
qed

text \<open>Whatever the outbounds are, a start that succeeds has started each of them once, after the ones it depends on.\<close>

lemma startOutbounds_order:
  assumes "startOutbounds beh byTag obs tr = (Done, tr')"
  shows "\<exists>order. set order = set obs \<and> length order = length obs \<and> deps_before [] order
    \<and> tr' = tr @ started_calls order"
proof -
  obtain order where order: "set order \<subseteq> set obs" "deps_before [] order" "tr' = tr @ started_calls order"
    "length [] + length order = length obs"
    using assms unfolding startOutbounds_def by (rule start_rounds_ends) auto
  then have "distinct order"
    using deps_before_distinct [of "[]" order] by (auto simp: distinct_map)
  then have "card (set obs) \<le> card (set order)"
    using order(4) card_length [of obs] by (simp add: distinct_card)
  then have "set order = set obs"
    using order(1) by (simp add: card_seteq)
  then show ?thesis
    using order by auto
qed

text \<open>With distinct tags the rounds never run into a missing outbound.\<close>

lemma startOutbounds_no_panic:
  assumes "distinct (map ob_Tag obs)" "startOutbounds beh byTag obs tr = (r, tr')"
  shows "\<not> is_panic r"
proof
  assume "is_panic r"
  obtain new where new: "set new \<subseteq> set obs" "deps_before [] new" "length [] + length new \<noteq> length obs"
    "ob_Tag ` set obs \<subseteq> set ([] @ map ob_Tag new)"
    using assms(2) unfolding startOutbounds_def
    by (rule start_rounds_ends) (use \<open>is_panic r\<close> in auto)
  then have "ob_Tag ` set obs = ob_Tag ` set new"
    by auto
  moreover have "distinct (map ob_Tag new)"
    using deps_before_distinct [OF new(2)] by simp
  ultimately show False
    using new(3) assms(1) by (metis add_0 distinct_card length_map list.set_map list.size(3))
qed

text \<open>A round without progress, and what the search for the cause finds then.\<close>

definition stuck :: "object set \<Rightarrow> string list \<Rightarrow> bool" where
  "stuck obs started \<longleftrightarrow> (\<forall>ob\<in>obs. ob_Tag ob \<in> set started \<or> \<not> set (ob_Dependencies ob) \<subseteq> set started)"

fun dep_path :: "object set \<Rightarrow> string list \<Rightarrow> bool" where
  "dep_path obs (t # u # ts) = ((\<exists>ob\<in>obs. ob_Tag ob = t \<and> u \<in> set (ob_Dependencies ob)) \<and> dep_path obs (u # ts))"
| "dep_path obs ts = True"

lemma dep_path_snoc:
  "dep_path obs ts \<Longrightarrow> ob \<in> obs \<Longrightarrow> ts \<noteq> [] \<Longrightarrow> ob_Tag ob = List.last ts \<Longrightarrow> u \<in> set (ob_Dependencies ob)
   \<Longrightarrow> dep_path obs (ts @ [u])"
  by (induction obs ts rule: dep_path.induct) auto

lemma find_problem_stuck:
  assumes "stuck obs started" "ob \<in> obs" "ob_Tag ob \<notin> set started"
  shows "find_problem started ob \<in> set (ob_Dependencies ob)" "find_problem started ob \<notin> set started"
proof -
  obtain d where "find (\<lambda>d. d \<notin> set started) (ob_Dependencies ob) = Some d"
    using assms unfolding stuck_def by (metis find_None_iff not_None_eq subsetI)
  then have "find_problem started ob = d" "d \<in> set (ob_Dependencies ob)" "d \<notin> set started"
    using find_Some_iff [of "\<lambda>d. d \<notin> set started" "ob_Dependencies ob" d] by (auto simp: find_problem_def)
  then show "find_problem started ob \<in> set (ob_Dependencies ob)" "find_problem started ob \<notin> set started"
    by simp_all
qed

definition names_cycle :: "object set \<Rightarrow> error \<Rightarrow> bool" where
  "names_cycle obs err \<longleftrightarrow>
     (\<exists>tree d. err = circular_error tree d \<and> d \<in> set tree \<and> dep_path obs (tree @ [d]))"

definition names_missing :: "object set \<Rightarrow> (string \<times> object) list \<Rightarrow> error \<Rightarrow> bool" where
  "names_missing obs byTag err \<longleftrightarrow>
     (\<exists>ob\<in>obs. \<exists>d\<in>set (ob_Dependencies ob). err = missing_error d ob \<and> map_of byTag d = None)"

definition tags_known :: "object set \<Rightarrow> (string \<times> object) list \<Rightarrow> bool" where
  "tags_known obs byTag \<longleftrightarrow> (\<forall>tag ob. map_of byTag tag = Some ob \<longrightarrow> ob \<in> obs \<and> ob_Tag ob = tag)"

lemma lintOutbound_names:
  assumes "stuck obs started" "tags_known obs byTag"
    and "ob \<in> obs" "ob_Tag ob \<notin> set started" "oTree \<noteq> []" "ob_Tag ob = List.last oTree" "dep_path obs oTree"
  shows "names_cycle obs (lintOutbound byTag started oTree ob) \<or>
    names_missing obs byTag (lintOutbound byTag started oTree ob)"
  using assms
proof (induction byTag started oTree ob rule: lintOutbound.induct)
  case (1 byTag started oTree ob)
  let ?d = "find_problem started ob"
  have d: "?d \<in> set (ob_Dependencies ob)" "?d \<notin> set started"
    using find_problem_stuck [OF "1.prems"(1,3,4)] by simp_all
  have path: "dep_path obs (oTree @ [?d])"
    by (rule dep_path_snoc) (use "1.prems" d in auto)
  show ?case
  proof (cases "?d \<in> set oTree")
    case True
    then show ?thesis
      using path by (auto simp: lintOutbound.simps [of byTag started oTree ob] names_cycle_def)
  next
    case False
    show ?thesis
    proof (cases "map_of byTag ?d")
      case None
      then show ?thesis
        using False d "1.prems"(3)
        by (auto simp: lintOutbound.simps [of byTag started oTree ob] names_missing_def)
    next
      case (Some ob')
      then have "ob' \<in> obs" "ob_Tag ob' = ?d"
        using "1.prems"(2) unfolding tags_known_def by blast+
      then show ?thesis
        using "1.IH" [OF False Some] "1.prems"(1,2) False Some d path
        by (simp add: lintOutbound.simps [of byTag started oTree ob])
    qed
  qed
qed

text \<open>An order exists exactly when no set of outbounds is stuck.\<close>

lemma order_not_stuck:
  assumes "deps_before [] order" "set order = obs" "stuck obs started"
  shows "ob_Tag ` obs \<subseteq> set started"
proof -
  have "deps_before before rest \<Longrightarrow> set rest \<subseteq> obs \<Longrightarrow> set before \<subseteq> set started \<Longrightarrow> ob_Tag ` set rest \<subseteq> set started"
    for before rest
  proof (induction rest arbitrary: before)
    case (Cons ob rest)
    then have "ob_Tag ob \<in> set started"
      using assms(3) unfolding stuck_def by (auto dest!: bspec [of _ _ ob])
    moreover have "ob_Tag ` set rest \<subseteq> set started"
      by (rule Cons.IH [of "before @ [ob_Tag ob]"]) (use Cons.prems calculation in auto)
    ultimately show ?case
      by simp
  qed simp
  from this [of "[]" order] show ?thesis
    using assms by simp
qed

definition starts_well :: "behaviour \<Rightarrow> object list \<Rightarrow> bool" where
  "starts_well beh obs \<longleftrightarrow> (\<forall>tr. \<forall>ob\<in>set obs. fst (LegacyStart beh ob StartStateStart tr) = None)"

lemma start_pass_well:
  "starts_well beh obs \<Longrightarrow> start_pass beh obs started c tr = (r, started', c', tr') \<Longrightarrow> r = Done"
proof (induction obs arbitrary: started c tr)
  case (Cons ob obs)
  have "fst (LegacyStart beh ob StartStateStart tr) = None"
    using Cons.prems(1) by (simp add: starts_well_def)
  then obtain tr1 where "LegacyStart beh ob StartStateStart tr = (None, tr1)"
    by (metis prod.collapse)
  then show ?case
    using Cons by (auto simp: starts_well_def split: if_splits)
qed simp

lemma start_rounds_well:
  assumes "starts_well beh obs" "tags_known (set obs) byTag" "start_rounds beh byTag obs started tr = (r, tr')"
    "distinct started" "set started \<subseteq> ob_Tag ` set obs" "distinct (map ob_Tag obs)"
  shows "r = Done \<or>
    (\<exists>err st. r = Fail [err] \<and> stuck (set obs) st \<and> \<not> ob_Tag ` set obs \<subseteq> set st
       \<and> (names_cycle (set obs) err \<or> names_missing (set obs) byTag err))"
  using assms
proof (induction beh byTag obs started tr rule: start_rounds.induct)
  case (1 beh byTag obs started tr)
  obtain r1 started1 cont tr1 where pass: "start_pass beh obs started False tr = (r1, started1, cont, tr1)"
    using prod_cases4 by blast
  then obtain new where new: "set new \<subseteq> set obs" "deps_before started new" "started1 = started @ map ob_Tag new"
    "tr1 = tr @ started_calls new" "cont \<longleftrightarrow> False \<or> new \<noteq> []" "r1 = Done \<or> (\<exists>err. r1 = Fail [err])"
    "new = [] \<longrightarrow> (\<forall>ob\<in>set obs. ob_Tag ob \<in> set started \<or> \<not> set (ob_Dependencies ob) \<subseteq> set started)"
    by (rule start_pass_ends) simp
  have r1: "r1 = Done" using start_pass_well [OF "1.prems"(1) pass] .
  then have r1': "\<not> r1 \<noteq> Done" by simp
  note step = "1.prems"(3) [unfolded start_rounds.simps [of beh byTag obs started tr] pass prod.case]
  have inv: "distinct started1" "set started1 \<subseteq> ob_Tag ` set obs"
    using deps_before_distinct [OF new(2) "1.prems"(4)] new(1,3) "1.prems"(5) by auto
  show ?case
  proof (cases "length started1 = length obs")
    case True
    then show ?thesis using step r1 by simp
  next
    case False
    show ?thesis
    proof (cases cont)
      case True
      show ?thesis
        by (rule "1.IH" [OF pass [symmetric] refl refl r1' False True "1.prems"(1,2) _ inv "1.prems"(6)])
          (use step r1 False True in simp)
    next
      case nocont: False
      then have st: "stuck (set obs) started1"
        using new by (simp add: stuck_def)
      have "\<not> ob_Tag ` set obs \<subseteq> set started1"
        using False inv "1.prems"(6)
        by (metis distinct_card length_map list.set_map subset_antisym)
      then obtain ob where ob: "find (\<lambda>ob. ob_Tag ob \<notin> set started1) obs = Some ob"
        by (cases "find (\<lambda>ob. ob_Tag ob \<notin> set started1) obs") (auto simp: find_None_iff)
      then have "ob \<in> set obs" "ob_Tag ob \<notin> set started1"
        by (auto simp: find_Some_iff)
      then show ?thesis
        using lintOutbound_names [OF st "1.prems"(2), of ob "[ob_Tag ob]"] step r1 False nocont ob st by auto
    qed
  qed
qed

lemma startOutbounds_complete:
  assumes "starts_well beh obs" "tags_known (set obs) byTag" "distinct (map ob_Tag obs)"
  shows "(\<exists>order. set order = set obs \<and> deps_before [] order) \<longleftrightarrow> fst (startOutbounds beh byTag obs tr) = Done"
    and "fst (startOutbounds beh byTag obs tr) = Done \<or>
      (\<exists>err. fst (startOutbounds beh byTag obs tr) = Fail [err]
        \<and> (names_cycle (set obs) err \<or> names_missing (set obs) byTag err))"
proof -
  obtain r tr' where r: "startOutbounds beh byTag obs tr = (r, tr')"
    by fastforce
  then have *: "r = Done \<or>
    (\<exists>err st. r = Fail [err] \<and> stuck (set obs) st \<and> \<not> ob_Tag ` set obs \<subseteq> set st
       \<and> (names_cycle (set obs) err \<or> names_missing (set obs) byTag err))"
    unfolding startOutbounds_def by (rule start_rounds_well [OF assms(1,2)]) (use assms(3) in auto)
  show "(\<exists>order. set order = set obs \<and> deps_before [] order) \<longleftrightarrow> fst (startOutbounds beh byTag obs tr) = Done"
    using * startOutbounds_order [of beh byTag obs tr tr'] order_not_stuck [OF _ refl] r
    by (metis fst_conv outcome.distinct(1))
  show "fst (startOutbounds beh byTag obs tr) = Done \<or>
      (\<exists>err. fst (startOutbounds beh byTag obs tr) = Fail [err]
        \<and> (names_cycle (set obs) err \<or> names_missing (set obs) byTag err))"
    using * r by auto
qed

subsection \<open>The registry of outbounds\<close>

definition outbound_inv :: "outbound_manager \<Rightarrow> bool" where
  "outbound_inv m \<longleftrightarrow>
     registered (mgr_items m) (mgr_byTag m) \<and>
     (om_default m = None \<and> om_defaultTag m = '''' \<longrightarrow> mgr_items m = []) \<and> om_fallback m \<noteq> None"

text \<open>
  What an operation relies on: a stage is started once, the registry constructs a new object with
  the given tag, and when the stage \<^verbatim>\<open>StartStateStart\<close> begins, outbounds and endpoints have
  different tags, the fallback included.
\<close>

definition tags_apart :: "manager \<Rightarrow> outbound_manager \<Rightarrow> trace \<Rightarrow> bool" where
  "tags_apart endpoint m tr \<longleftrightarrow>
     distinct (map ob_Tag (mgr_items (snd (choose_default endpoint m tr)) @ mgr_items endpoint))"

fun outbound_allowed :: "'opt registry \<Rightarrow> manager \<Rightarrow> 'opt op \<Rightarrow> outbound_manager \<Rightarrow> trace \<Rightarrow> bool" where
  "outbound_allowed reg endpoint (Op_Start stage) m tr =
     (\<not> already_started m stage \<and> (stage = StartStateStart \<longrightarrow> tags_apart endpoint m tr))"
| "outbound_allowed reg endpoint (Op_Remove tag) m tr = True"
| "outbound_allowed reg endpoint (Op_Create tag ty opts) m tr =
     (case reg tr tag ty opts of
        Inl err \<Rightarrow> True
      | Inr ob \<Rightarrow> ob_Tag ob = tag \<and> ob_id ob \<notin> ob_id ` set (mgr_items m))"

fun outbound_exec ::
  "behaviour \<Rightarrow> 'opt registry \<Rightarrow> manager \<Rightarrow> 'opt op \<Rightarrow> outbound_manager \<Rightarrow> trace \<Rightarrow> outcome \<times> outbound_manager \<times> trace" where
  "outbound_exec beh reg endpoint (Op_Start stage) m tr = outbound_Start beh endpoint stage m tr"
| "outbound_exec beh reg endpoint (Op_Remove tag) m tr = outbound_Remove beh tag m tr"
| "outbound_exec beh reg endpoint (Op_Create tag ty opts) m tr = outbound_Create beh reg tag ty opts m tr"

lemma choose_default_inv:
  assumes "outbound_inv m" "choose_default endpoint m tr = (r, m')"
  shows "outbound_inv m' \<and> \<not> is_panic r \<and> (r = Done \<longrightarrow> om_default m' \<noteq> None)"
proof -
  obtain fallback where fb: "om_fallback m = Some fallback"
    using assms(1) by (auto simp: outbound_inv_def)
  consider "om_defaultTag m \<noteq> ''''" "om_default m = None" | ob where "om_default m = Some ob"
    | "om_defaultTag m = ''''" "om_default m = None"
    by (cases "om_default m") auto
  then show ?thesis
  proof cases
    case 1
    then show ?thesis
      using assms by (auto simp: choose_default_def outbound_inv_def split: option.splits)
  next
    case 2
    then show ?thesis
      using assms by (auto simp: choose_default_def)
  next
    case 3
    then have empty: "mgr_items m = []" "\<And>tag. map_of (mgr_byTag m) tag = None"
      using assms(1) by (auto simp: outbound_inv_def registered_def)
    have "registered ([] @ [ob]) (AList.update (ob_Tag ob) ob (mgr_byTag m))" for ob
      by (rule registered_put) (use assms(1) empty in \<open>auto simp: outbound_inv_def\<close>)
    then show ?thesis
      using assms 3 fb empty(1) by (auto simp: choose_default_def outbound_inv_def split: sum.splits)
  qed
qed

lemma outbound_Start_inv:
  assumes "outbound_inv m" "outbound_allowed reg endpoint (Op_Start stage) m tr"
    and "outbound_Start beh endpoint stage m tr = (r, m', tr')"
  shows "outbound_inv m' \<and> \<not> is_panic r"
proof -
  let ?m1 = "m\<lparr>mgr_started := True, mgr_stage := stage\<rparr>"
  have m1: "outbound_inv ?m1"
    using assms(1) by (simp add: outbound_inv_def)
  show ?thesis
  proof (cases "stage = StartStateStart")
    case False
    then show ?thesis
      using assms(2,3) m1 by (auto simp: outbound_Start_def Let_def split: prod.splits dest: start_each_no_panic)
  next
    case True
    obtain r1 m2 where cd: "choose_default endpoint ?m1 tr = (r1, m2)"
      by fastforce
    note inv = choose_default_inv [OF m1 cd]
    have "mgr_items (snd (choose_default endpoint m tr)) = mgr_items m2"
      using cd by (auto simp: choose_default_def split: if_splits option.splits sum.splits)
    then have "distinct (map ob_Tag (mgr_items m2 @ mgr_items endpoint))"
      using assms(2) True by (simp add: tags_apart_def)
    then have "\<not> is_panic r2" if "startOutbounds beh (mgr_byTag m2) (mgr_items m2 @ mgr_items endpoint) tr = (r2, tr2)" for r2 tr2
      using startOutbounds_no_panic that by blast
    then show ?thesis
      using assms(2,3) inv cd True by (cases r1) (auto simp: outbound_Start_def Let_def split: prod.splits)
  qed
qed

lemma outbound_Remove_inv:
  assumes "outbound_inv m" "outbound_Remove beh tag m tr = (r, m', tr')"
  shows "outbound_inv m' \<and> \<not> is_panic r"
proof (cases "map_of (mgr_byTag m) tag")
  case None
  then show ?thesis
    using assms by (auto simp: outbound_Remove_def)
next
  case (Some ob)
  have reg: "registered (mgr_items m) (mgr_byTag m)"
    using assms(1) by (simp add: outbound_inv_def)
  obtain rest where rest: "remove_object ob (mgr_items m) = Some rest"
    "rest = filter (\<lambda>x. ob_id x \<noteq> ob_id ob) (mgr_items m)" "registered rest (AList.delete tag (mgr_byTag m))"
    using registered_remove [OF reg Some] by blast
  have r: "\<not> is_panic r"
    using assms(2) Some rest(1)
    by (auto simp: outbound_Remove_def Let_def split: if_splits prod.splits option.splits)
  have m': "mgr_items m' = rest" "mgr_byTag m' = AList.delete tag (mgr_byTag m)"
    "om_defaultTag m' = om_defaultTag m" "om_fallback m' = om_fallback m"
    "om_default m' = (if map_option ob_id (om_default m) = Some (ob_id ob)
       then (case rest of [] \<Rightarrow> None | ob # _ \<Rightarrow> Some ob) else om_default m)"
    using assms(2) Some rest(1)
    by (auto simp: outbound_Remove_def Let_def split: if_splits prod.splits option.splits list.splits)
  show ?thesis
    using assms(1) r rest m' by (auto simp: outbound_inv_def split: list.splits)
qed

lemma outbound_put_inv:
  assumes "outbound_inv m" "registered (rest @ [ob]) (AList.update tag ob (mgr_byTag m))"
  shows "outbound_inv (outbound_put tag ob rest m)"
  using assms by (auto simp: outbound_inv_def outbound_put_def)

lemma outbound_Create_inv:
  assumes "outbound_inv m" "outbound_allowed reg endpoint (Op_Create tag ty opts) m tr"
    and "outbound_Create beh reg tag ty opts m tr = (r, m', tr')"
  shows "outbound_inv m' \<and> \<not> is_panic r"
proof (cases "tag = '''' \<or> (\<exists>err. reg tr tag ty opts = Inl err)")
  case True
  then show ?thesis
    using assms(1,3) by (cases "tag = ''''") (auto simp: outbound_Create_def)
next
  case False
  then obtain ob where ob: "reg tr tag ty opts = Inr ob"
    by (cases "reg tr tag ty opts") auto
  have reg: "registered (mgr_items m) (mgr_byTag m)"
    using assms(1) by (simp add: outbound_inv_def)
  have new: "ob_Tag ob = tag" "ob_id ob \<notin> ob_id ` set (mgr_items m)"
    using assms(2) ob by auto
  obtain r1 tr1 where r1: "(if mgr_started m then start_stages ''outbound'' beh ob ListStartStages tr else (Done, tr)) = (r1, tr1)"
    by fastforce
  then have np: "\<not> is_panic r1"
    by (auto split: if_splits dest: start_stages_no_panic)
  show ?thesis
  proof (cases "map_of (mgr_byTag m) tag")
    case None
    then have "outbound_inv (outbound_put tag ob (mgr_items m) m)"
      using outbound_put_inv [OF assms(1)] registered_put [OF reg _ new(2)] new(1) by simp
    then show ?thesis
      using assms(1,3) False ob r1 np None by (cases r1) (auto simp: outbound_Create_def)
  next
    case (Some old)
    then obtain rest where rest: "remove_object old (mgr_items m) = Some rest"
      "registered (rest @ [ob]) (AList.update tag ob (mgr_byTag m))"
      using registered_replace [OF reg _ new(2)] new(1) by blast
    obtain r2 tr2 where r2: "(if mgr_started m then close_object beh old tr1 else (None, tr1)) = (r2, tr2)"
      by fastforce
    show ?thesis
      using assms(1,3) False ob r1 np Some r2 rest outbound_put_inv [OF assms(1) rest(2)]
      by (cases r1; cases r2) (auto simp: outbound_Create_def)
  qed
qed

lemma outbound_exec_inv:
  assumes "outbound_inv m" "outbound_allowed reg endpoint oper m tr"
    and "outbound_exec beh reg endpoint oper m tr = (r, m', tr')"
  shows "outbound_inv m' \<and> \<not> is_panic r"
  using assms outbound_Start_inv [of m reg endpoint _ tr beh r m' tr']
    outbound_Remove_inv [of m beh _ tr r m' tr'] outbound_Create_inv [of m reg endpoint _ _ _ tr beh r m' tr']
  by (cases oper) (simp_all only: outbound_exec.simps simp_thms)

lemma outbound_initial_inv: "outbound_inv (outbound_Initialize fallback (outbound_NewManager defaultTag))"
  by (simp add: outbound_inv_def outbound_Initialize_def outbound_NewManager_def registered_Nil)

interpretation outbounds: registry_manager
  "outbound_exec beh reg endpoint" "outbound_allowed reg endpoint" outbound_inv mgr_items mgr_byTag
  "outbound_Initialize fallback (outbound_NewManager defaultTag)"
  for beh reg endpoint fallback defaultTag
proof unfold_locales
  fix m :: outbound_manager
  show "outbound_inv m \<Longrightarrow> registered (mgr_items m) (mgr_byTag m)"
    by (simp add: outbound_inv_def)
qed (use outbound_initial_inv outbound_exec_inv in blast)+

end
