(* ===== verification/Service_Manager.thy ===== *)
theory Service_Manager
  imports Managers
begin

text \<open>
  The service manager (\<^verbatim>\<open>adapter/service/manager.go\<close>), which several goroutines use at
  once. Every operation consists of critical sections, in which it holds the manager's mutex, and of
  calls into services between them. The critical sections are functions on the manager's state;
  an operation that is under way is a \<^verbatim>\<open>frame\<close>, the point it has reached with its local
  variables, and a step takes one frame over its next section or call. The system interleaves the
  steps of any number of frames. A wait on the condition variable is a step that is not yet enabled.

  Three stretches in which the program holds no lock are single steps here: all the calls of
  \<^verbatim>\<open>PrepareRuntime\<close>, with the rollback if one of its commits fails; the error returns of
  \<^verbatim>\<open>Create\<close> (\<^verbatim>\<open>abandon\<close>), which roll back, close the new service and finish the
  update; and the rollback of a commit that finds the manager closing. Steps of other frames between
  the calls of one stretch are not considered. Everywhere else the frames interleave freely: those of
  one goroutine (a service may call the manager from a callback) are not even ordered among each other.
\<close>

subsection \<open>Committing a set of services\<close>

text \<open>
  A \<^verbatim>\<open>beforeCommit\<close> function is an object too: the call is its \<^verbatim>\<open>Call_Commit\<close>, and
  \<^verbatim>\<open>ob_committer\<close> tells whether it returns a rollback function.
\<close>

fun validate_each :: "behaviour \<Rightarrow> object list \<Rightarrow> trace \<Rightarrow> error option \<times> trace" where
  "validate_each beh [] tr = (None, tr)"
| "validate_each beh (ob # obs) tr =
     (if ob_activator ob
      then case do_call beh ob Call_Validate tr of
             (Some err, tr') \<Rightarrow>
               (Some (E_Cause err (''validate runtime activation for '' @ object_name ''service'' ob)), tr')
           | (None, tr') \<Rightarrow> validate_each beh obs tr'
      else validate_each beh obs tr)"

text \<open>The rollbacks run from the last to the first; their errors are joined.\<close>

fun rollback_all :: "behaviour \<Rightarrow> object list \<Rightarrow> trace \<Rightarrow> error list \<times> trace" where
  "rollback_all beh [] tr = ([], tr)"
| "rollback_all beh (ob # obs) tr =
     (case do_call beh ob Call_Rollback tr of
        (r, tr') \<Rightarrow>
          (case rollback_all beh obs tr' of
             (errs, tr'') \<Rightarrow> ((case r of None \<Rightarrow> [] | Some err \<Rightarrow> [err]) @ errs, tr'')))"

definition rollbackRuntimeCommits :: "behaviour \<Rightarrow> object list \<Rightarrow> trace \<Rightarrow> error list \<times> trace" where
  "rollbackRuntimeCommits beh rollbacks tr = rollback_all beh (rev rollbacks) tr"

fun commit_each :: "behaviour \<Rightarrow> object list \<Rightarrow> object list \<Rightarrow> trace \<Rightarrow> (error list + object list) \<times> trace" where
  "commit_each beh [] rollbacks tr = (Inr rollbacks, tr)"
| "commit_each beh (ob # obs) rollbacks tr =
     (if ob_committer ob
      then case do_call beh ob Call_Commit tr of
             (Some err, tr') \<Rightarrow>
               (case rollbackRuntimeCommits beh rollbacks tr' of
                  (errs, tr'') \<Rightarrow> (Inl (E_Cause err (''commit runtime '' @ object_name ''service'' ob) # errs), tr''))
           | (None, tr') \<Rightarrow> commit_each beh obs (rollbacks @ [ob]) tr'
      else commit_each beh obs rollbacks tr)"

text \<open>The result is the list of rollbacks; \<^verbatim>\<open>activate\<close> is a function of the services.\<close>

definition PrepareRuntime ::
  "behaviour \<Rightarrow> object list \<Rightarrow> object option \<Rightarrow> trace \<Rightarrow> (error list + object list) \<times> trace" where
  "PrepareRuntime beh services beforeCommit tr =
     (case validate_each beh services tr of
        (Some err, tr1) \<Rightarrow> (Inl [err], tr1)
      | (None, tr1) \<Rightarrow>
          (case beforeCommit of
             None \<Rightarrow> commit_each beh services [] tr1
           | Some before \<Rightarrow>
               (case do_call beh before Call_Commit tr1 of
                  (Some err, tr2) \<Rightarrow> (Inl [err], tr2)
                | (None, tr2) \<Rightarrow> commit_each beh services (if ob_committer before then [before] else []) tr2)))"

definition activate_calls :: "object list \<Rightarrow> trace" where
  "activate_calls services = map (\<lambda>ob. (ob_id ob, Call_Activate)) (filter ob_activator services)"

definition CommitRuntime ::
  "behaviour \<Rightarrow> object list \<Rightarrow> object option \<Rightarrow> trace \<Rightarrow> outcome \<times> trace" where
  "CommitRuntime beh services beforeCommit tr =
     (case PrepareRuntime beh services beforeCommit tr of
        (Inl errs, tr') \<Rightarrow> (Fail errs, tr')
      | (Inr rollbacks, tr') \<Rightarrow> (Done, tr' @ activate_calls services))"

subsection \<open>State\<close>

type_synonym gid = nat

record service_manager =
  sm_started :: bool
  sm_closing :: bool
  sm_closed :: bool
  sm_stage :: StartStage
  sm_runtimeActive :: bool
  sm_runtimeCommitting :: bool
  sm_startInFlight :: int
  sm_startOwner :: gid
  sm_services :: "object list"
  sm_byTag :: "(string \<times> object) list"
  sm_updates :: "string list"
  sm_updateOwners :: "gid \<Rightarrow> nat"

definition service_NewManager :: service_manager where
  "service_NewManager =
     \<lparr>sm_started = False, sm_closing = False, sm_closed = False, sm_stage = StartStateInitialize,
      sm_runtimeActive = False, sm_runtimeCommitting = False, sm_startInFlight = 0, sm_startOwner = 0,
      sm_services = [], sm_byTag = [], sm_updates = [], sm_updateOwners = (\<lambda>_. 0)\<rparr>"

text \<open>What the waiting loop decides with the mutex held: wait on, give up, or go on.\<close>

datatype idle = Idle_Wait | Idle_Err error | Idle_Ok

definition waitForLifecycleIdleLocked :: "gid \<Rightarrow> service_manager \<Rightarrow> idle" where
  "waitForLifecycleIdleLocked gid m =
     (if sm_closing m \<or> sm_closed m then Idle_Err ErrClosed
      else if sm_updateOwners m gid > 0 \<or> sm_startInFlight m > 0 \<and> sm_startOwner m = gid
      then Idle_Err (E_New ''cannot start or commit runtime from a service update'')
      else if sm_updates m = [] \<and> sm_startInFlight m = 0 then Idle_Ok
      else Idle_Wait)"

definition beginUpdateOwnerLocked :: "gid \<Rightarrow> service_manager \<Rightarrow> service_manager" where
  "beginUpdateOwnerLocked gid m = m\<lparr>sm_updateOwners := (sm_updateOwners m)(gid := sm_updateOwners m gid + 1)\<rparr>"

definition finishUpdate :: "gid \<Rightarrow> string \<Rightarrow> service_manager \<Rightarrow> service_manager" where
  "finishUpdate gid tag m =
     m\<lparr>sm_updates := removeAll tag (sm_updates m),
       sm_updateOwners :=
         (sm_updateOwners m)(gid := (if sm_updateOwners m gid > 1 then sm_updateOwners m gid - 1 else 0))\<rparr>"

definition finishStart :: "service_manager \<Rightarrow> service_manager" where
  "finishStart m =
     m\<lparr>sm_startInFlight := sm_startInFlight m - 1,
       sm_startOwner := (if sm_startInFlight m - 1 = 0 then 0 else sm_startOwner m)\<rparr>"

subsection \<open>Frames\<close>

text \<open>What \<^verbatim>\<open>Create\<close> reads when it begins.\<close>

record snapshot =
  cs_started :: bool
  cs_stage :: StartStage
  cs_active :: bool
  cs_existing :: "object option"

datatype frame =
    Start_running StartStage "object list"
  | Close_waiting
  | Close_running "object list" "error list"
  | Remove_closing object
  | Create_constructing string "object result" snapshot
  | Create_starting string object snapshot "StartStage list"
  | Create_replacing string object snapshot "object list option"
  | Create_inserting string object snapshot "object list option"
  | Create_activating string object snapshot
  | Commit_preparing "object list" "object option"
  | Commit_deciding "object list" "object list"
  | Commit_activating "object list"

datatype request =
    Rq_Start StartStage
  | Rq_Close
  | Rq_Remove string
  | Rq_Create string "object result"
  | Rq_Commit "object option"

text \<open>The first critical section of an operation: it waits, returns at once, or goes on as a frame.\<close>

datatype entry = Blocked | Returned outcome service_manager | Entered frame service_manager

definition service_Start :: "gid \<Rightarrow> StartStage \<Rightarrow> service_manager \<Rightarrow> entry" where
  "service_Start gid stage m =
     (case waitForLifecycleIdleLocked gid m of
        Idle_Wait \<Rightarrow> Blocked
      | Idle_Err err \<Rightarrow> Returned (Fail [err]) m
      | Idle_Ok \<Rightarrow>
          if sm_runtimeCommitting m then Returned (Fail [E_New ''runtime commit in progress'']) m
          else if sm_runtimeActive m then Returned (Fail [E_New ''runtime is already active'']) m
          else if sm_started m \<and> stage \<le> sm_stage m then Returned (Panic ''already started'') m
          else Entered (Start_running stage (sm_services m))
                 (m\<lparr>sm_started := True, sm_stage := stage,
                    sm_runtimeActive := (if stage = StartStateInitialize then False else sm_runtimeActive m),
                    sm_startInFlight := sm_startInFlight m + 1, sm_startOwner := gid\<rparr>))"

definition service_Close :: "service_manager \<Rightarrow> entry" where
  "service_Close m =
     (if sm_closing m \<and> \<not> sm_closed m then Blocked
      else if sm_closed m then Returned Done m
      else Entered Close_waiting (m\<lparr>sm_closing := True\<rparr>))"

definition service_Remove :: "string \<Rightarrow> service_manager \<Rightarrow> entry" where
  "service_Remove tag m =
     (if sm_closing m \<or> sm_closed m then Returned (Fail [ErrClosed]) m
      else if sm_runtimeCommitting m then Returned (Fail [E_New ''runtime commit in progress'']) m
      else if tag \<in> set (sm_updates m) then Returned (Fail [E_New (''service update in progress: '' @ tag)]) m
      else case map_of (sm_byTag m) tag of
             None \<Rightarrow> Returned (Fail [ErrInvalid]) m
           | Some service \<Rightarrow>
               (let byTag = AList.delete tag (sm_byTag m) in
                case remove_object service (sm_services m) of
                  None \<Rightarrow> Returned (Panic ''invalid service index'') (m\<lparr>sm_byTag := byTag\<rparr>)
                | Some rest \<Rightarrow>
                    (let m' = m\<lparr>sm_byTag := byTag, sm_services := rest\<rparr> in
                     if sm_started m then Entered (Remove_closing service) m' else Returned Done m')))"

definition service_Create :: "gid \<Rightarrow> string \<Rightarrow> object result \<Rightarrow> service_manager \<Rightarrow> entry" where
  "service_Create gid tag made m =
     (if sm_closing m \<or> sm_closed m then Returned (Fail [ErrClosed]) m
      else if sm_runtimeCommitting m then Returned (Fail [E_New ''runtime commit in progress'']) m
      else if tag \<in> set (sm_updates m) then Returned (Fail [E_New (''service update in progress: '' @ tag)]) m
      else let existing = map_of (sm_byTag m) tag in
           if existing \<noteq> None \<and> sm_runtimeActive m
           then Returned (Fail [E_New (''replacing an active service requires a full Box reload: '' @ tag)]) m
           else Entered
                  (Create_constructing tag made
                     \<lparr>cs_started = sm_started m, cs_stage = sm_stage m, cs_active = sm_runtimeActive m,
                      cs_existing = existing\<rparr>)
                  (beginUpdateOwnerLocked gid (m\<lparr>sm_updates := sm_updates m @ [tag]\<rparr>)))"

definition service_CommitRuntime :: "gid \<Rightarrow> object option \<Rightarrow> service_manager \<Rightarrow> entry" where
  "service_CommitRuntime gid beforeCommit m =
     (case waitForLifecycleIdleLocked gid m of
        Idle_Wait \<Rightarrow> Blocked
      | Idle_Err err \<Rightarrow> Returned (Fail [err]) m
      | Idle_Ok \<Rightarrow>
          if sm_runtimeActive m then Returned (Fail [E_New ''runtime is already active'']) m
          else if sm_runtimeCommitting m then Returned (Fail [E_New ''runtime commit already in progress'']) m
          else if \<not> sm_started m \<or> sm_stage m < StartStateStarted
          then Returned (Fail [E_New ''runtime commit requires services to finish start'']) m
          else Entered (Commit_preparing (sm_services m) beforeCommit) (m\<lparr>sm_runtimeCommitting := True\<rparr>))"

fun service_enter :: "gid \<Rightarrow> request \<Rightarrow> service_manager \<Rightarrow> entry" where
  "service_enter gid (Rq_Start stage) m = service_Start gid stage m"
| "service_enter gid Rq_Close m = service_Close m"
| "service_enter gid (Rq_Remove tag) m = service_Remove tag m"
| "service_enter gid (Rq_Create tag made) m = service_Create gid tag made m"
| "service_enter gid (Rq_Commit beforeCommit) m = service_CommitRuntime gid beforeCommit m"

subsection \<open>Steps of a frame\<close>

datatype progress =
    Waiting
  | Next frame service_manager trace
  | Finished outcome service_manager trace

definition causeIfError :: "error option \<Rightarrow> string \<Rightarrow> error list" where
  "causeIfError r msg = (case r of None \<Rightarrow> [] | Some err \<Rightarrow> [E_Cause err msg])"

text \<open>
  The error returns of \<^verbatim>\<open>Create\<close>: the commit is rolled back if there was one, the new
  service is closed, and the deferred \<^verbatim>\<open>finishUpdate\<close> runs.
\<close>

definition abandon ::
  "behaviour \<Rightarrow> gid \<Rightarrow> string \<Rightarrow> object \<Rightarrow> object list option \<Rightarrow> error list \<Rightarrow> service_manager \<Rightarrow> trace \<Rightarrow> progress" where
  "abandon beh gid tag ob rollback errs m tr =
     (case (case rollback of None \<Rightarrow> ([], tr) | Some rollbacks \<Rightarrow> rollbackRuntimeCommits beh rollbacks tr) of
        (errs1, tr1) \<Rightarrow>
          (case close_method beh ob tr1 of
             (r, tr2) \<Rightarrow>
               Finished (Fail (errs @ errs1 @ causeIfError r (''close '' @ object_name ''service'' ob)))
                 (finishUpdate gid tag m) tr2))"

text \<open>The last critical section of \<^verbatim>\<open>Create\<close>.\<close>

definition manager_changed :: "string \<Rightarrow> snapshot \<Rightarrow> service_manager \<Rightarrow> bool" where
  "manager_changed tag cs m \<longleftrightarrow>
     map_option ob_id (map_of (sm_byTag m) tag) \<noteq> map_option ob_id (cs_existing cs) \<or>
     sm_started m \<noteq> cs_started cs \<or> cs_started cs \<and> sm_stage m \<noteq> cs_stage cs \<or>
     sm_runtimeActive m \<noteq> cs_active cs \<or> sm_runtimeCommitting m \<or> sm_closing m \<or> sm_closed m"

definition insert_service :: "string \<Rightarrow> object \<Rightarrow> object list \<Rightarrow> service_manager \<Rightarrow> service_manager" where
  "insert_service tag ob rest m =
     m\<lparr>sm_services := rest @ [ob], sm_byTag := AList.update tag ob (sm_byTag m)\<rparr>"

text \<open>The calls and sections that \<^verbatim>\<open>Start\<close>, \<^verbatim>\<open>Close\<close> and \<^verbatim>\<open>CommitRuntime\<close> go through.\<close>

definition start_next :: "behaviour \<Rightarrow> StartStage \<Rightarrow> object \<Rightarrow> object list \<Rightarrow> service_manager \<Rightarrow> trace \<Rightarrow> progress" where
  [simp]: "start_next beh stage ob obs m tr =
     (case LegacyStart beh ob stage tr of
        (Some err, tr') \<Rightarrow>
          Finished (Fail [E_Cause err (StartStage_String stage @ '' '' @ object_name ''service'' ob)]) (finishStart m) tr'
      | (None, tr') \<Rightarrow> Next (Start_running stage obs) m tr')"

definition close_begin :: "service_manager \<Rightarrow> trace \<Rightarrow> progress" where
  [simp]: "close_begin m tr =
     (if sm_runtimeCommitting m \<or> sm_updates m \<noteq> [] \<or> sm_startInFlight m > 0 then Waiting
      else Next (Close_running (sm_services m) [])
             (m\<lparr>sm_started := False, sm_runtimeActive := False, sm_services := [], sm_byTag := []\<rparr>) tr)"

definition commit_prepare :: "behaviour \<Rightarrow> object list \<Rightarrow> object option \<Rightarrow> service_manager \<Rightarrow> trace \<Rightarrow> progress" where
  [simp]: "commit_prepare beh services beforeCommit m tr =
     (case PrepareRuntime beh services beforeCommit tr of
        (Inl errs, tr') \<Rightarrow> Finished (Fail errs) (m\<lparr>sm_runtimeCommitting := False\<rparr>) tr'
      | (Inr rollbacks, tr') \<Rightarrow> Next (Commit_deciding services rollbacks) m tr')"

definition commit_decide :: "behaviour \<Rightarrow> object list \<Rightarrow> object list \<Rightarrow> service_manager \<Rightarrow> trace \<Rightarrow> progress" where
  [simp]: "commit_decide beh services rollbacks m tr =
     (if sm_closing m \<or> sm_closed m
      then case rollbackRuntimeCommits beh rollbacks tr of
             (errs, tr') \<Rightarrow> Finished (Fail (ErrClosed # errs)) (m\<lparr>sm_runtimeCommitting := False\<rparr>) tr'
      else Next (Commit_activating services) (m\<lparr>sm_runtimeActive := True\<rparr>) tr)"

fun service_run :: "behaviour \<Rightarrow> gid \<Rightarrow> frame \<Rightarrow> service_manager \<Rightarrow> trace \<Rightarrow> progress" where
  "service_run beh gid (Start_running stage []) m tr = Finished Done (finishStart m) tr"
| "service_run beh gid (Start_running stage (ob # obs)) m tr = start_next beh stage ob obs m tr"
| "service_run beh gid Close_waiting m tr = close_begin m tr"
| "service_run beh gid (Close_running [] errs) m tr =
     Finished (joined errs) (m\<lparr>sm_closing := False, sm_closed := True\<rparr>) tr"
| "service_run beh gid (Close_running (ob # obs) errs) m tr =
     (case close_method beh ob tr of
        (r, tr') \<Rightarrow> Next (Close_running obs (errs @ causeIfError r (''close '' @ object_name ''service'' ob))) m tr')"
| "service_run beh gid (Remove_closing ob) m tr =
     (case close_method beh ob tr of
        (r, tr') \<Rightarrow> Finished (case r of None \<Rightarrow> Done | Some err \<Rightarrow> Fail [err]) m tr')"
| "service_run beh gid (Create_constructing tag (Inl err) cs) m tr = Finished (Fail [err]) (finishUpdate gid tag m) tr"
| "service_run beh gid (Create_constructing tag (Inr ob) cs) m tr =
     Next (Create_starting tag ob cs
             (if cs_started cs then takeWhile (\<lambda>stage. stage \<le> cs_stage cs) ListStartStages else [])) m tr"
| "service_run beh gid (Create_starting tag ob cs (stage # stages)) m tr =
     (case LegacyStart beh ob stage tr of
        (Some err, tr') \<Rightarrow>
          abandon beh gid tag ob None
            [E_Cause err (StartStage_String stage @ '' '' @ object_name ''service'' ob)] m tr'
      | (None, tr') \<Rightarrow> Next (Create_starting tag ob cs stages) m tr')"
| "service_run beh gid (Create_starting tag ob cs []) m tr =
     (if cs_active cs
      then case PrepareRuntime beh [ob] None tr of
             (Inl errs, tr') \<Rightarrow> abandon beh gid tag ob None errs m tr'
           | (Inr rollbacks, tr') \<Rightarrow> Next (Create_replacing tag ob cs (Some rollbacks)) m tr'
      else Next (Create_replacing tag ob cs None) m tr)"
| "service_run beh gid (Create_replacing tag ob cs rollback) m tr =
     (case cs_existing cs of
        None \<Rightarrow> Next (Create_inserting tag ob cs rollback) m tr
      | Some old \<Rightarrow>
          (case close_method beh old tr of
             (Some err, tr') \<Rightarrow>
               abandon beh gid tag ob rollback [E_Cause err (''close '' @ object_name ''service'' old)] m tr'
           | (None, tr') \<Rightarrow> Next (Create_inserting tag ob cs rollback) m tr'))"
| "service_run beh gid (Create_inserting tag ob cs rollback) m tr =
     (if manager_changed tag cs m
      then abandon beh gid tag ob rollback [E_New (''service manager changed during update: '' @ tag)] m tr
      else case cs_existing cs of
             None \<Rightarrow> Next (Create_activating tag ob cs) (insert_service tag ob (sm_services m) m) tr
           | Some old \<Rightarrow>
               (case remove_object old (sm_services m) of
                  None \<Rightarrow> abandon beh gid tag ob rollback [E_New (''invalid service index: '' @ tag)] m tr
                | Some rest \<Rightarrow> Next (Create_activating tag ob cs) (insert_service tag ob rest m) tr))"
| "service_run beh gid (Create_activating tag ob cs) m tr =
     Finished Done (finishUpdate gid tag m) (if cs_active cs then tr @ activate_calls [ob] else tr)"
| "service_run beh gid (Commit_preparing services beforeCommit) m tr =
     commit_prepare beh services beforeCommit m tr"
| "service_run beh gid (Commit_deciding services rollbacks) m tr = commit_decide beh services rollbacks m tr"
| "service_run beh gid (Commit_activating []) m tr = Finished Done (m\<lparr>sm_runtimeCommitting := False\<rparr>) tr"
| "service_run beh gid (Commit_activating (ob # obs)) m tr =
     Next (Commit_activating obs) m (tr @ activate_calls [ob])"

subsection \<open>The system\<close>

record system =
  sys_mgr :: service_manager
  sys_calls :: "(gid \<times> frame) list"
  sys_trace :: trace
  sys_made :: "nat set"

definition system_New :: system where
  "system_New = \<lparr>sys_mgr = service_NewManager, sys_calls = [], sys_trace = [], sys_made = {}\<rparr>"

text \<open>A service that is to be constructed has the tag of the call and is a new object.\<close>

fun makes_new :: "request \<Rightarrow> nat set \<Rightarrow> bool" where
  "makes_new (Rq_Create tag (Inr ob)) made \<longleftrightarrow> ob_id ob \<notin> made \<and> ob_Tag ob = tag"
| "makes_new _ made \<longleftrightarrow> True"

fun made_by :: "request \<Rightarrow> nat set" where
  "made_by (Rq_Create tag (Inr ob)) = {ob_id ob}"
| "made_by _ = {}"

inductive system_step :: "behaviour \<Rightarrow> system \<Rightarrow> system \<Rightarrow> bool" for beh where
  returns: "service_enter gid rq (sys_mgr s) = Returned r m \<Longrightarrow> \<not> is_panic r \<Longrightarrow>
     system_step beh s (s\<lparr>sys_mgr := m\<rparr>)"
| enters: "service_enter gid rq (sys_mgr s) = Entered f m \<Longrightarrow> makes_new rq (sys_made s) \<Longrightarrow>
     system_step beh s (s\<lparr>sys_mgr := m, sys_calls := (gid, f) # sys_calls s, sys_made := sys_made s \<union> made_by rq\<rparr>)"
| continues: "sys_calls s = before @ (gid, f) # after \<Longrightarrow> service_run beh gid f (sys_mgr s) (sys_trace s) = Next f' m tr \<Longrightarrow>
     system_step beh s (s\<lparr>sys_mgr := m, sys_calls := before @ (gid, f') # after, sys_trace := tr\<rparr>)"
| finishes: "sys_calls s = before @ (gid, f) # after \<Longrightarrow> service_run beh gid f (sys_mgr s) (sys_trace s) = Finished r m tr \<Longrightarrow>
     system_step beh s (s\<lparr>sys_mgr := m, sys_calls := before @ after, sys_trace := tr\<rparr>)"

inductive system_reach :: "behaviour \<Rightarrow> system \<Rightarrow> bool" for beh where
  new: "system_reach beh system_New"
| step: "system_reach beh s \<Longrightarrow> system_step beh s s' \<Longrightarrow> system_reach beh s'"

end
