(* ===== verification/Service_Inv.thy ===== *)
theory Service_Inv
  imports Service_Manager
begin

text \<open>
  The invariant of the system of goroutines around the service manager: which frames exclude each
  other, where a service may be while frames handle it, which services have been closed and
  activated.
\<close>

subsection \<open>Exclusion\<close>

fun creating :: "frame \<Rightarrow> string list" where
  "creating (Create_constructing tag made cs) = [tag]"
| "creating (Create_starting tag ob cs stages) = [tag]"
| "creating (Create_replacing tag ob cs rb) = [tag]"
| "creating (Create_inserting tag ob cs rb) = [tag]"
| "creating (Create_activating tag ob cs) = [tag]"
| "creating _ = []"

fun is_start :: "frame \<Rightarrow> bool" where
  "is_start (Start_running stage obs) = True"
| "is_start _ = False"

fun is_commit :: "frame \<Rightarrow> bool" where
  "is_commit (Commit_preparing services b) = True"
| "is_commit (Commit_deciding services rb) = True"
| "is_commit (Commit_activating services) = True"
| "is_commit _ = False"

fun is_close :: "frame \<Rightarrow> bool" where
  "is_close Close_waiting = True"
| "is_close (Close_running obs errs) = True"
| "is_close _ = False"

fun close_runs :: "frame \<Rightarrow> bool" where
  "close_runs (Close_running obs errs) = True"
| "close_runs _ = False"

definition creates :: "frame list \<Rightarrow> string list" where
  "creates fs = concat (map creating fs)"

fun number :: "(frame \<Rightarrow> bool) \<Rightarrow> frame list \<Rightarrow> nat" where
  "number P [] = 0"
| "number P (f # fs) = (if P f then 1 else 0) + number P fs"

lemma number_append [simp]: "number P (xs @ ys) = number P xs + number P ys"
  by (induction xs) auto

lemma number_0: "number P fs = 0 \<longleftrightarrow> (\<forall>f\<in>set fs. \<not> P f)"
  by (induction fs) auto

definition idle :: "service_manager \<Rightarrow> bool" where
  "idle m \<longleftrightarrow> sm_updates m = [] \<and> sm_startInFlight m = 0"

definition exclusive :: "service_manager \<Rightarrow> frame list \<Rightarrow> bool" where
  "exclusive m fs \<longleftrightarrow>
     distinct (creates fs) \<and> set (sm_updates m) = set (creates fs) \<and>
     sm_startInFlight m = int (number is_start fs) \<and>
     number is_commit fs = (if sm_runtimeCommitting m then 1 else 0) \<and>
     number is_close fs = (if sm_closing m then 1 else 0) \<and>
     (sm_runtimeCommitting m \<longrightarrow> idle m) \<and>
     \<not> (sm_closing m \<and> sm_closed m) \<and>
     (sm_closed m \<or> (\<exists>f\<in>set fs. close_runs f) \<longrightarrow>
        idle m \<and> \<not> sm_runtimeCommitting m \<and> sm_services m = [] \<and> sm_byTag m = [] \<and> \<not> sm_runtimeActive m)"

lemma creates_simps [simp]:
  "creates [] = []" "creates (f # fs) = creating f @ creates fs" "creates (xs @ ys) = creates xs @ creates ys"
  by (simp_all add: creates_def)

lemmas enter_defs = service_Start_def service_Close_def service_Remove_def service_Create_def service_CommitRuntime_def
  waitForLifecycleIdleLocked_def

text \<open>When each operation goes on, and with which state.\<close>

lemma Start_entered:
  assumes "service_Start gid stage m = Entered f m'"
  shows "\<not> sm_closing m" "\<not> sm_closed m" "idle m" "\<not> sm_runtimeCommitting m" "\<not> sm_runtimeActive m"
    "f = Start_running stage (sm_services m)"
    "m' = m\<lparr>sm_started := True, sm_stage := stage, sm_runtimeActive := False, sm_startInFlight := 1, sm_startOwner := gid\<rparr>"
  using assms by (auto simp: enter_defs idle_def split: if_splits idle.splits)

lemma Close_entered:
  assumes "service_Close m = Entered f m'"
  shows "\<not> sm_closing m" "\<not> sm_closed m" "f = Close_waiting" "m' = m\<lparr>sm_closing := True\<rparr>"
  using assms by (auto simp: enter_defs split: if_splits)

lemma Remove_entered:
  assumes "service_Remove tag m = Entered f m'"
  obtains ob rest where "\<not> sm_closing m" "\<not> sm_closed m" "\<not> sm_runtimeCommitting m" "tag \<notin> set (sm_updates m)"
    "map_of (sm_byTag m) tag = Some ob" "remove_object ob (sm_services m) = Some rest"
    "f = Remove_closing ob" "m' = m\<lparr>sm_byTag := AList.delete tag (sm_byTag m), sm_services := rest\<rparr>"
  using assms by (auto simp: enter_defs Let_def split: if_splits option.splits)

lemma Create_entered:
  assumes "service_Create gid tag made m = Entered f m'"
  shows "\<not> sm_closing m" "\<not> sm_closed m" "\<not> sm_runtimeCommitting m" "tag \<notin> set (sm_updates m)"
    "map_of (sm_byTag m) tag = None \<or> \<not> sm_runtimeActive m"
    "f = Create_constructing tag made
       \<lparr>cs_started = sm_started m, cs_stage = sm_stage m, cs_active = sm_runtimeActive m,
        cs_existing = map_of (sm_byTag m) tag\<rparr>"
    "m' = m\<lparr>sm_updates := sm_updates m @ [tag],
            sm_updateOwners := (sm_updateOwners m)(gid := sm_updateOwners m gid + 1)\<rparr>"
  using assms by (auto simp: enter_defs Let_def beginUpdateOwnerLocked_def split: if_splits)

lemma Commit_entered:
  assumes "service_CommitRuntime gid b m = Entered f m'"
  shows "\<not> sm_closing m" "\<not> sm_closed m" "idle m" "\<not> sm_runtimeCommitting m" "\<not> sm_runtimeActive m"
    "sm_started m" "sm_stage m = StartStateStarted"
    "f = Commit_preparing (sm_services m) b" "m' = m\<lparr>sm_runtimeCommitting := True\<rparr>"
proof -
  show "sm_stage m = StartStateStarted"
    using assms by (cases "sm_stage m") (auto simp: enter_defs stage_le split: if_splits idle.splits)
qed (use assms in \<open>auto simp: enter_defs idle_def split: if_splits idle.splits\<close>)

text \<open>An operation that returns at once has changed nothing, or has removed a service before the start.\<close>

lemma returned_unchanged:
  "service_Start gid stage m = Returned r m' \<Longrightarrow> m' = m"
  "service_Close m = Returned r m' \<Longrightarrow> m' = m"
  "service_Create gid tag made m = Returned r m' \<Longrightarrow> m' = m"
  "service_CommitRuntime gid b m = Returned r m' \<Longrightarrow> m' = m"
  by (auto simp: enter_defs Let_def split: if_splits idle.splits)

lemma Remove_returned:
  assumes "service_Remove tag m = Returned r m'" "\<not> is_panic r" "m' \<noteq> m"
  obtains ob rest where "\<not> sm_closing m" "\<not> sm_closed m" "\<not> sm_runtimeCommitting m" "tag \<notin> set (sm_updates m)"
    "\<not> sm_started m" "map_of (sm_byTag m) tag = Some ob" "remove_object ob (sm_services m) = Some rest"
    "m' = m\<lparr>sm_byTag := AList.delete tag (sm_byTag m), sm_services := rest\<rparr>"
proof -
  have c: "\<not> sm_closing m" "\<not> sm_closed m" "\<not> sm_runtimeCommitting m" "tag \<notin> set (sm_updates m)"
    using assms(1,3) by (auto simp: service_Remove_def split: if_splits)
  then obtain ob where ob: "map_of (sm_byTag m) tag = Some ob"
    using assms(1,3) by (cases "map_of (sm_byTag m) tag") (auto simp: service_Remove_def)
  with c assms(1,2) obtain rest where rest: "remove_object ob (sm_services m) = Some rest"
    by (cases "remove_object ob (sm_services m)") (auto simp: service_Remove_def Let_def)
  show ?thesis
    by (rule that [OF c _ ob rest]) (use c ob rest assms(1) in \<open>auto simp: service_Remove_def Let_def split: if_splits\<close>)
qed

lemma enter_returned:
  assumes "service_enter gid rq m = Returned r m'" "\<not> is_panic r" "m' \<noteq> m"
  obtains tag where "service_Remove tag m = Returned r m'"
  using assms returned_unchanged by (cases rq) auto

lemma close_runs_is_close: "close_runs f \<Longrightarrow> is_close f"
  by (cases f) simp_all

lemma exclusive_no_close:
  assumes "exclusive m fs" "\<not> sm_closing m" "f \<in> set fs"
  shows "\<not> close_runs f"
  using assms close_runs_is_close [of f] by (auto simp: exclusive_def number_0)

lemma exclusive_no_commit:
  assumes "exclusive m fs" "\<not> sm_runtimeCommitting m" "f \<in> set fs"
  shows "\<not> is_commit f"
  using assms by (auto simp: exclusive_def number_0)

lemma exclusive_no_start:
  assumes "exclusive m fs" "idle m" "f \<in> set fs"
  shows "\<not> is_start f" "creating f = []"
  using assms by (auto simp: exclusive_def idle_def number_0 creates_def)

lemma exclusive_removed:
  assumes "exclusive m fs" "\<not> sm_closing m" "\<not> sm_closed m"
  shows "exclusive (m\<lparr>sm_byTag := b, sm_services := obs\<rparr>) fs"
  using assms exclusive_no_close [OF assms(1,2)] by (auto simp: exclusive_def idle_def)

lemma exclusive_returns:
  assumes "exclusive m fs" "service_enter gid rq m = Returned r m'" "\<not> is_panic r"
  shows "exclusive m' fs"
proof (cases "m' = m")
  case False
  then obtain tag where "service_Remove tag m = Returned r m'"
    using enter_returned assms(2,3) by metis
  from this assms(3) False show ?thesis
    by (rule Remove_returned) (use exclusive_removed [OF assms(1)] in simp)
qed (use assms(1) in simp)

lemma exclusive_enters:
  assumes "exclusive m fs" "service_enter gid rq m = Entered f m'"
  shows "exclusive m' (f # fs)"
proof (cases rq)
  case (Rq_Start stage)
  note e = Start_entered [of gid stage m f m', OF assms(2) [unfolded Rq_Start service_enter.simps]]
  show ?thesis
    unfolding e(6,7) using assms(1) e(1-5) exclusive_no_close [OF assms(1) e(1)]
    by (auto simp: exclusive_def idle_def)
next
  case Rq_Close
  note e = Close_entered [of m f m', OF assms(2) [unfolded Rq_Close service_enter.simps]]
  show ?thesis
    unfolding e(3,4) using assms(1) e(1,2) exclusive_no_close [OF assms(1) e(1)]
    by (auto simp: exclusive_def idle_def)
next
  case (Rq_Remove tag)
  from assms(2) [unfolded Rq_Remove service_enter.simps] show ?thesis
    by (rule Remove_entered) (use assms(1) exclusive_removed [OF assms(1)] in \<open>auto simp: exclusive_def idle_def\<close>)
next
  case (Rq_Create tag made)
  note e = Create_entered [of gid tag made m f m', OF assms(2) [unfolded Rq_Create service_enter.simps]]
  show ?thesis
    unfolding e(6,7) using assms(1) e(1-4) exclusive_no_close [OF assms(1) e(1)]
    by (auto simp: exclusive_def idle_def)
next
  case (Rq_Commit b)
  note e = Commit_entered [of gid b m f m', OF assms(2) [unfolded Rq_Commit service_enter.simps]]
  show ?thesis
    unfolding e(8,9) using assms(1) e(1-5) exclusive_no_close [OF assms(1) e(1)]
    by (auto simp: exclusive_def idle_def)
qed

subsection \<open>Where the services are\<close>

text \<open>
  A service is in the registry, or in the hands of the one frame that constructs it, has removed it
  or closes it. What a frame has read from the manager still holds when the frame uses it.
\<close>

fun place :: "frame \<Rightarrow> nat list" where
  "place (Create_constructing tag (Inr ob) cs) = [ob_id ob]"
| "place (Create_starting tag ob cs stages) = [ob_id ob]"
| "place (Create_replacing tag ob cs rb) = [ob_id ob]"
| "place (Create_inserting tag ob cs rb) = [ob_id ob]"
| "place (Remove_closing ob) = [ob_id ob]"
| "place (Close_running obs errs) = map ob_id obs"
| "place _ = []"

definition places :: "frame list \<Rightarrow> nat list" where
  "places fs = concat (map place fs)"

lemma places_simps [simp]:
  "places [] = []" "places (f # fs) = place f @ places fs" "places (xs @ ys) = places xs @ places ys"
  by (simp_all add: places_def)

definition snap_current :: "service_manager \<Rightarrow> string \<Rightarrow> snapshot \<Rightarrow> bool" where
  "snap_current m tag cs \<longleftrightarrow>
     map_of (sm_byTag m) tag = cs_existing cs \<and> sm_started m = cs_started cs \<and> sm_stage m = cs_stage cs \<and>
     sm_runtimeActive m = cs_active cs \<and> (cs_existing cs = None \<or> \<not> cs_active cs)"

fun current :: "service_manager \<Rightarrow> frame \<Rightarrow> bool" where
  "current m (Create_constructing tag made cs) \<longleftrightarrow> snap_current m tag cs \<and> (\<forall>ob. made = Inr ob \<longrightarrow> ob_Tag ob = tag)"
| "current m (Create_starting tag ob cs stages) \<longleftrightarrow> snap_current m tag cs \<and> ob_Tag ob = tag"
| "current m (Create_replacing tag ob cs rb) \<longleftrightarrow> snap_current m tag cs \<and> ob_Tag ob = tag"
| "current m (Create_inserting tag ob cs rb) \<longleftrightarrow> snap_current m tag cs \<and> ob_Tag ob = tag"
| "current m (Create_activating tag ob cs) \<longleftrightarrow> map_of (sm_byTag m) tag = Some ob \<and> sm_runtimeActive m = cs_active cs"
| "current m (Commit_preparing services b) \<longleftrightarrow> services = sm_services m \<and> \<not> sm_runtimeActive m"
| "current m (Commit_deciding services rb) \<longleftrightarrow> services = sm_services m \<and> \<not> sm_runtimeActive m"
| "current m (Commit_activating obs) \<longleftrightarrow> sm_runtimeActive m \<and> set obs \<subseteq> set (sm_services m)"
| "current m _ \<longleftrightarrow> True"

lemma current_trivial: "creating f = [] \<Longrightarrow> \<not> is_commit f \<Longrightarrow> current m f"
  by (cases f) simp_all

lemma current_cong:
  assumes "current m f" "sm_byTag m' = sm_byTag m" "sm_started m' = sm_started m" "sm_stage m' = sm_stage m"
    "sm_runtimeActive m' = sm_runtimeActive m" "sm_services m' = sm_services m"
  shows "current m' f"
  using assms by (cases f) (auto simp: snap_current_def)

lemma current_other_tag:
  assumes "current m f" "tag \<notin> set (creating f)" "\<not> is_commit f"
    "\<And>t. t \<noteq> tag \<Longrightarrow> map_of (sm_byTag m') t = map_of (sm_byTag m) t"
    "sm_started m' = sm_started m" "sm_stage m' = sm_stage m" "sm_runtimeActive m' = sm_runtimeActive m"
  shows "current m' f"
  using assms by (cases f) (auto simp: snap_current_def)

subsection \<open>Steps\<close>

text \<open>What a step does to the manager: most steps only call services.\<close>

definition same_class :: "frame \<Rightarrow> frame \<Rightarrow> bool" where
  "same_class f f' \<longleftrightarrow> creating f' = creating f \<and> is_start f' = is_start f \<and> is_commit f' = is_commit f \<and>
     is_close f' = is_close f \<and> close_runs f' = close_runs f"

lemma abandon_not_Next [simp]: "abandon beh gid tag ob rb errs m tr \<noteq> Next f m' tr'"
  by (simp add: abandon_def split: prod.split)

lemma abandon_mgr: "abandon beh gid tag ob rb errs m tr = Finished r m' tr' \<Longrightarrow> m' = finishUpdate gid tag m"
  by (auto simp: abandon_def split: prod.splits)

definition close_snapshot :: "service_manager \<Rightarrow> service_manager" where
  "close_snapshot m = m\<lparr>sm_started := False, sm_runtimeActive := False, sm_services := [], sm_byTag := []\<rparr>"

lemma run_Next:
  assumes "service_run beh gid f m tr = Next f' m' tr'"
  obtains (call) "m' = m" "same_class f f'" "\<exists>handled. place f = handled @ place f'" "current m f \<longrightarrow> current m f'"
  | (close) "f = Close_waiting" "f' = Close_running (sm_services m) []" "\<not> sm_runtimeCommitting m"
      "sm_updates m = []" "\<not> sm_startInFlight m > 0" "m' = close_snapshot m" "tr' = tr"
  | (insert) tag ob cs rb rest where "f = Create_inserting tag ob cs rb" "f' = Create_activating tag ob cs"
      "\<not> manager_changed tag cs m" "m' = insert_service tag ob rest m" "tr' = tr"
      "case cs_existing cs of None \<Rightarrow> rest = sm_services m | Some old \<Rightarrow> remove_object old (sm_services m) = Some rest"
  | (commit) services rb where "f = Commit_deciding services rb" "f' = Commit_activating services"
      "\<not> sm_closing m" "\<not> sm_closed m" "m' = m\<lparr>sm_runtimeActive := True\<rparr>" "tr' = tr"
  using assms
  by (cases "(beh, gid, f, m, tr)" rule: service_run.cases)
    (auto simp: same_class_def close_snapshot_def split: prod.splits option.splits sum.splits if_splits)

lemma run_Finished:
  assumes "service_run beh gid f m tr = Finished r m' tr'"
  obtains (start) "is_start f" "m' = finishStart m"
  | (create) tag where "creating f = [tag]" "m' = finishUpdate gid tag m"
  | (commit) "is_commit f" "m' = m\<lparr>sm_runtimeCommitting := False\<rparr>"
  | (close) errs where "f = Close_running [] errs" "m' = m\<lparr>sm_closing := False, sm_closed := True\<rparr>" "tr' = tr"
  | (remove) ob where "f = Remove_closing ob" "m' = m"
  using assms
  by (cases "(beh, gid, f, m, tr)" rule: service_run.cases)
    (auto split: prod.splits option.splits sum.splits if_splits dest: abandon_mgr)

lemma class_disjoint:
  "is_start f \<Longrightarrow> creating f = [] \<and> \<not> is_commit f \<and> \<not> is_close f \<and> \<not> close_runs f"
  "is_commit f \<Longrightarrow> creating f = [] \<and> \<not> is_start f \<and> \<not> is_close f \<and> \<not> close_runs f"
  "creating f = [tag] \<Longrightarrow> \<not> is_start f \<and> \<not> is_commit f \<and> \<not> is_close f \<and> \<not> close_runs f"
  by (cases f; simp)+

lemma exclusive_Next:
  assumes "exclusive m (xs @ f # ys)" "service_run beh gid f m tr = Next f' m' tr'"
  shows "exclusive m' (xs @ f' # ys)"
  using assms(2)
proof (cases rule: run_Next)
  case call
  then show ?thesis
    using assms(1) by (simp add: exclusive_def same_class_def split del: if_split)
next
  case close
  then show ?thesis
    using assms(1) by (auto simp: exclusive_def idle_def close_snapshot_def)
next
  case (insert tag ob cs rb rest)
  then have c: "\<not> sm_closing m" "\<not> sm_closed m"
    by (simp_all add: manager_changed_def)
  have "\<not> close_runs g" if "g \<in> set (xs @ f # ys)" for g
    using exclusive_no_close [OF assms(1) c(1) that] .
  then show ?thesis
    using assms(1) insert c by (auto simp: exclusive_def idle_def insert_service_def)
next
  case (commit services rb)
  have "\<not> close_runs g" if "g \<in> set (xs @ f # ys)" for g
    using exclusive_no_close [OF assms(1) commit(3) that] .
  then show ?thesis
    using assms(1) commit by (auto simp: exclusive_def idle_def)
qed

lemma exclusive_Finished:
  assumes "exclusive m (xs @ f # ys)" "service_run beh gid f m tr = Finished r m' tr'"
  shows "exclusive m' (xs @ ys)"
  using assms(2)
proof (cases rule: run_Finished)
  case start
  then show ?thesis
    using assms(1) class_disjoint(1) [OF start(1)] by (auto simp: exclusive_def idle_def finishStart_def)
next
  case (create tag)
  then show ?thesis
    using assms(1) class_disjoint(3) [OF create(1)] by (auto simp: exclusive_def idle_def finishUpdate_def)
next
  case commit
  then show ?thesis
    using assms(1) class_disjoint(2) [OF commit(1)] by (auto simp: exclusive_def idle_def split: if_splits)
next
  case (close errs)
  then show ?thesis
    using assms(1) by (auto simp: exclusive_def idle_def split: if_splits)
next
  case (remove ob)
  then show ?thesis
    using assms(1) by (auto simp: exclusive_def idle_def)
qed

definition located :: "service_manager \<Rightarrow> frame list \<Rightarrow> nat set \<Rightarrow> bool" where
  "located m fs made \<longleftrightarrow>
     registered (sm_services m) (sm_byTag m) \<and>
     distinct (map ob_id (sm_services m) @ places fs) \<and>
     ob_id ` set (sm_services m) \<union> set (places fs) \<subseteq> made \<and>
     (\<forall>f\<in>set fs. current m f)"

lemma located_removed:
  assumes "located m fs made" "exclusive m fs" "map_of (sm_byTag m) tag = Some ob"
    "remove_object ob (sm_services m) = Some rest" "tag \<notin> set (sm_updates m)" "\<not> sm_runtimeCommitting m"
  shows "located (m\<lparr>sm_byTag := AList.delete tag (sm_byTag m), sm_services := rest\<rparr>) fs made"
    and "ob_id ob \<notin> ob_id ` set rest" "ob_id ob \<notin> set (places fs)" "ob_id ob \<in> made"
proof -
  have reg: "registered (sm_services m) (sm_byTag m)"
    using assms(1) by (simp add: located_def)
  have rest: "rest = filter (\<lambda>x. ob_id x \<noteq> ob_id ob) (sm_services m)" "registered rest (AList.delete tag (sm_byTag m))"
    using registered_remove [OF reg assms(3)] assms(4) by auto
  have ob: "ob \<in> set (sm_services m)"
    using reg assms(3) unfolding registered_def by blast
  have "current (m\<lparr>sm_byTag := AList.delete tag (sm_byTag m), sm_services := rest\<rparr>) f" if f: "f \<in> set fs" for f
  proof (rule current_other_tag [of m f tag])
    show "current m f" using assms(1) f by (simp add: located_def)
    show "tag \<notin> set (creating f)"
      using assms(2,5) f by (auto simp: exclusive_def creates_def)
    show "\<not> is_commit f" using exclusive_no_commit [OF assms(2,6) f] .
  qed (simp_all add: delete_conv')
  then show "located (m\<lparr>sm_byTag := AList.delete tag (sm_byTag m), sm_services := rest\<rparr>) fs made"
    using assms(1) rest by (auto simp: located_def distinct_map_filter)
  show "ob_id ob \<notin> ob_id ` set rest"
    using rest(1) by auto
  show "ob_id ob \<notin> set (places fs)" "ob_id ob \<in> made"
    using assms(1) ob by (auto simp: located_def)
qed

lemma located_returns:
  assumes "located m fs made" "exclusive m fs" "service_enter gid rq m = Returned r m'" "\<not> is_panic r"
  shows "located m' fs made"
proof (cases "m' = m")
  case False
  then obtain tag where "service_Remove tag m = Returned r m'"
    using enter_returned assms(3,4) by metis
  from this assms(4) False show ?thesis
    by (rule Remove_returned) (use located_removed [OF assms(1,2)] in simp)
qed (use assms(1) in simp)

lemma located_enters:
  assumes "located m fs made" "exclusive m fs" "service_enter gid rq m = Entered f m'" "makes_new rq made"
  shows "located m' (f # fs) (made \<union> made_by rq)"
proof (cases rq)
  case (Rq_Start stage)
  note e = Start_entered [of gid stage m f m', OF assms(3) [unfolded Rq_Start service_enter.simps]]
  have "current m' g" if "g \<in> set fs" for g
    using exclusive_no_start [OF assms(2) e(3) that] exclusive_no_commit [OF assms(2) e(4) that]
    by (intro current_trivial) auto
  then show ?thesis
    using assms(1) Rq_Start by (auto simp: located_def e(6,7))
next
  case Rq_Close
  note e = Close_entered [of m f m', OF assms(3) [unfolded Rq_Close service_enter.simps]]
  have "current m' g" if "g \<in> set fs" for g
    by (rule current_cong [of m]) (use assms(1) that e(4) in \<open>auto simp: located_def\<close>)
  then show ?thesis
    using assms(1) Rq_Close by (auto simp: located_def e(3,4))
next
  case (Rq_Remove tag)
  from assms(3) [unfolded Rq_Remove service_enter.simps] obtain ob rest where e: "\<not> sm_closing m" "\<not> sm_closed m"
    "\<not> sm_runtimeCommitting m" "tag \<notin> set (sm_updates m)"
    "map_of (sm_byTag m) tag = Some ob" "remove_object ob (sm_services m) = Some rest"
    "f = Remove_closing ob" "m' = m\<lparr>sm_byTag := AList.delete tag (sm_byTag m), sm_services := rest\<rparr>"
    by (rule Remove_entered)
  show ?thesis
    using located_removed [OF assms(1,2) e(5,6,4,3)] Rq_Remove unfolding e(7,8) by (auto simp: located_def)
next
  case (Rq_Create tag c)
  note e = Create_entered [of gid tag c m f m', OF assms(3) [unfolded Rq_Create service_enter.simps]]
  have "current m' g" if "g \<in> set fs" for g
    by (rule current_cong [of m]) (use assms(1) that e(7) in \<open>auto simp: located_def\<close>)
  moreover have "current m' f"
    using e assms(4) Rq_Create by (auto simp: snap_current_def)
  ultimately show ?thesis
    using assms(1,4) Rq_Create unfolding e(6,7) by (cases c) (auto simp: located_def)
next
  case (Rq_Commit b)
  note e = Commit_entered [of gid b m f m', OF assms(3) [unfolded Rq_Commit service_enter.simps]]
  have "current m' g" if "g \<in> set fs" for g
    by (rule current_cong [of m]) (use assms(1) that e(9) in \<open>auto simp: located_def\<close>)
  then show ?thesis
    using assms(1) Rq_Commit e(5) by (auto simp: located_def e(8,9))
qed

lemma located_Next:
  assumes "located m (xs @ f # ys) made" "exclusive m (xs @ f # ys)" "service_run beh gid f m tr = Next f' m' tr'"
  shows "located m' (xs @ f' # ys) made"
  using assms(3)
proof (cases rule: run_Next)
  case call
  then show ?thesis
    using assms(1) by (auto simp: located_def)
next
  case close
  then have "idle m"
    using assms(2) by (auto simp: exclusive_def idle_def)
  then have "current m' g" if "g \<in> set (xs @ ys)" for g
    using exclusive_no_start [OF assms(2), of g] exclusive_no_commit [OF assms(2) close(3), of g] that
    by (intro current_trivial) auto
  then show ?thesis
    using assms(1) close by (auto simp: located_def close_snapshot_def registered_Nil)
next
  case (insert tag ob cs rb rest)
  have reg: "registered (sm_services m) (sm_byTag m)" and cur: "current m f" "\<forall>g\<in>set (xs @ ys). current m g"
    and new: "ob_id ob \<notin> ob_id ` set (sm_services m)"
    using assms(1) insert(1) by (auto simp: located_def)
  then have snap: "map_of (sm_byTag m) tag = cs_existing cs" "ob_Tag ob = tag" "sm_runtimeActive m = cs_active cs"
    using insert(1) by (auto simp: snap_current_def)
  have put: "registered (rest @ [ob]) (AList.update tag ob (sm_byTag m)) \<and> set rest \<subseteq> set (sm_services m)"
  proof (cases "cs_existing cs")
    case None
    then show ?thesis
      using insert(6) registered_put [OF reg _ new] snap by simp
  next
    case (Some old)
    then show ?thesis
      using insert(6) registered_replace [OF reg _ new] registered_remove [OF reg, of tag old] snap by fastforce
  qed
  have "current m' g" if g: "g \<in> set (xs @ ys)" for g
  proof (rule current_other_tag [of m g tag])
    show "current m g" using cur(2) g by simp
    show "tag \<notin> set (creating g)"
      using assms(2) insert(1) g by (auto simp: exclusive_def creates_def)
    show "\<not> is_commit g"
      using exclusive_no_commit [OF assms(2), of g] insert(3) g by (auto simp: manager_changed_def)
  qed (use insert(4) in \<open>simp_all add: insert_service_def update_conv'\<close>)
  moreover have "current m' f'"
    using insert(2,4) snap by (simp add: insert_service_def update_conv')
  moreover have "distinct (map ob_id (rest @ [ob]))"
    using put unfolding registered_def by blast
  moreover have m': "sm_services m' = rest @ [ob]" "sm_byTag m' = AList.update tag ob (sm_byTag m)"
    by (simp_all add: insert(4) insert_service_def)
  moreover have *: "ob_id ` set (sm_services m) \<subseteq> made" "ob_id ob \<in> made" "ob_id ob \<notin> set (places (xs @ ys))"
    "ob_id ` set (sm_services m) \<inter> set (places (xs @ ys)) = {}" "distinct (places (xs @ ys))"
    "set (places (xs @ ys)) \<subseteq> made"
    using assms(1) unfolding located_def insert(1) by auto
  moreover have "ob_id ` set rest \<subseteq> made" "ob_id ` set rest \<inter> set (places (xs @ ys)) = {}"
    using put *(1,4) by blast+
  ultimately show ?thesis
    using put unfolding located_def m' insert(1,2) by auto
next
  case (commit services rb)
  have c: "sm_runtimeCommitting m" "idle m" "number is_commit (xs @ ys) = 0"
    using assms(2) commit(1) by (auto simp: exclusive_def split: if_splits)
  have "current m' g" if "g \<in> set (xs @ ys)" for g
    using exclusive_no_start [OF assms(2) c(2), of g] c(3) that unfolding number_0
    by (intro current_trivial) auto
  then show ?thesis
    using assms(1) commit by (auto simp: located_def)
qed

lemma located_Finished:
  assumes "located m (xs @ f # ys) made" "service_run beh gid f m tr = Finished r m' tr'"
  shows "located m' (xs @ ys) made"
proof -
  have eq: "sm_byTag m' = sm_byTag m" "sm_started m' = sm_started m" "sm_stage m' = sm_stage m"
    "sm_runtimeActive m' = sm_runtimeActive m" "sm_services m' = sm_services m"
    using assms(2) by (cases rule: run_Finished; simp add: finishStart_def finishUpdate_def)+
  have "current m' g" if "g \<in> set (xs @ ys)" for g
    by (rule current_cong [OF _ eq]) (use assms(1) that in \<open>auto simp: located_def\<close>)
  then show ?thesis
    using assms(1) by (auto simp: located_def eq)
qed

subsection \<open>Closed and activated services\<close>

text \<open>A service is closed when a call of its \<^verbatim>\<open>Close\<close> has returned no error.\<close>

fun closed_in :: "behaviour \<Rightarrow> trace \<Rightarrow> trace \<Rightarrow> nat \<Rightarrow> bool" where
  "closed_in beh before [] i = False"
| "closed_in beh before (e # es) i =
     (e = (i, Call_Close) \<and> beh before i Call_Close = None \<or> closed_in beh (before @ [e]) es i)"

abbreviation closed_ok :: "behaviour \<Rightarrow> trace \<Rightarrow> nat \<Rightarrow> bool" where
  "closed_ok beh tr i \<equiv> closed_in beh [] tr i"

fun activated_open :: "behaviour \<Rightarrow> trace \<Rightarrow> trace \<Rightarrow> bool" where
  "activated_open beh before [] = True"
| "activated_open beh before (e # es) =
     ((snd e = Call_Activate \<longrightarrow> \<not> closed_ok beh before (fst e)) \<and> activated_open beh (before @ [e]) es)"

lemma closed_in_append [simp]:
  "closed_in beh before (xs @ ys) i \<longleftrightarrow> closed_in beh before xs i \<or> closed_in beh (before @ xs) ys i"
  by (induction xs arbitrary: before) auto

lemma activated_open_append [simp]:
  "activated_open beh before (xs @ ys) \<longleftrightarrow> activated_open beh before xs \<and> activated_open beh (before @ xs) ys"
  by (induction xs arbitrary: before) auto

lemma closed_in_Cons_other: "snd e \<noteq> Call_Close \<Longrightarrow> closed_in beh before (e # es) i = closed_in beh (before @ [e]) es i"
  by auto

text \<open>Calls that neither close nor activate.\<close>

definition quiet :: "behaviour \<Rightarrow> trace \<Rightarrow> trace \<Rightarrow> bool" where
  "quiet beh tr tr' \<longleftrightarrow> (\<exists>ext. tr' = tr @ ext \<and> (\<forall>i. \<not> closed_in beh tr ext i) \<and> (\<forall>e\<in>set ext. snd e \<noteq> Call_Activate))"

lemma quiet_refl [simp]: "quiet beh tr tr"
  by (simp add: quiet_def)

lemma quiet_trans: "quiet beh a b \<Longrightarrow> quiet beh b c \<Longrightarrow> quiet beh a c"
proof -
  assume "quiet beh a b" "quiet beh b c"
  then obtain x y where "b = a @ x" "\<forall>i. \<not> closed_in beh a x i" "\<forall>e\<in>set x. snd e \<noteq> Call_Activate"
    "c = b @ y" "\<forall>i. \<not> closed_in beh b y i" "\<forall>e\<in>set y. snd e \<noteq> Call_Activate"
    unfolding quiet_def by blast
  then show ?thesis
    unfolding quiet_def by (intro exI [of _ "x @ y"]) auto
qed

lemma quiet_call:
  "c \<noteq> Call_Activate \<Longrightarrow> c \<noteq> Call_Close \<or> beh tr i c \<noteq> None \<Longrightarrow> quiet beh tr (tr @ [(i, c)])"
  by (auto simp: quiet_def)

lemma activated_open_plain: "\<forall>e\<in>set ext. snd e \<noteq> Call_Activate \<Longrightarrow> activated_open beh before ext"
  by (induction ext arbitrary: before) auto

lemma quiet_closed: "quiet beh tr tr' \<Longrightarrow> closed_ok beh tr' i = closed_ok beh tr i"
  by (auto simp: quiet_def)

lemma quiet_open: "quiet beh tr tr' \<Longrightarrow> activated_open beh [] tr' = activated_open beh [] tr"
  by (auto simp: quiet_def activated_open_plain)

lemma quiet_activated: "quiet beh tr tr' \<Longrightarrow> (i, Call_Activate) \<in> set tr' \<longleftrightarrow> (i, Call_Activate) \<in> set tr"
  by (fastforce simp: quiet_def)

lemma quiet_do_call:
  "do_call beh ob c tr = (r, tr') \<Longrightarrow> c \<noteq> Call_Activate \<Longrightarrow> c \<noteq> Call_Close \<Longrightarrow> quiet beh tr tr'"
  by (auto simp: do_call_def intro!: quiet_call)

lemma stage_call_plain: "stage_call st stage = Some c \<Longrightarrow> c \<noteq> Call_Activate \<and> c \<noteq> Call_Close"
  by (cases "(st, stage)" rule: stage_call.cases) (auto split: if_splits)

lemma quiet_LegacyStart: "LegacyStart beh ob stage tr = (r, tr') \<Longrightarrow> quiet beh tr tr'"
  by (auto simp: LegacyStart_def split: option.splits dest!: stage_call_plain intro: quiet_do_call)

lemma quiet_rollback_all: "rollback_all beh obs tr = (errs, tr') \<Longrightarrow> quiet beh tr tr'"
proof (induction obs arbitrary: tr errs)
  case (Cons ob obs)
  then show ?case
    by (auto split: prod.splits intro: quiet_trans quiet_do_call)
qed simp

lemma quiet_rollback: "rollbackRuntimeCommits beh rbs tr = (errs, tr') \<Longrightarrow> quiet beh tr tr'"
  unfolding rollbackRuntimeCommits_def by (rule quiet_rollback_all)

lemma quiet_validate: "validate_each beh obs tr = (r, tr') \<Longrightarrow> quiet beh tr tr'"
proof (induction obs arbitrary: tr)
  case (Cons ob obs)
  then show ?case
    by (auto split: prod.splits if_splits option.splits intro: quiet_trans quiet_do_call)
qed simp

lemma quiet_commit_each: "commit_each beh obs rbs tr = (r, tr') \<Longrightarrow> quiet beh tr tr'"
proof (induction obs arbitrary: tr rbs)
  case (Cons ob obs)
  then show ?case
    by (auto split: prod.splits if_splits option.splits intro: quiet_trans quiet_do_call quiet_rollback)
qed simp

lemma quiet_PrepareRuntime: "PrepareRuntime beh obs b tr = (r, tr') \<Longrightarrow> quiet beh tr tr'"
  unfolding PrepareRuntime_def
  by (auto split: prod.splits option.splits dest!: quiet_validate quiet_commit_each
      quiet_do_call [where c = Call_Commit, simplified] intro: quiet_trans)

lemma abandon_trace:
  assumes "abandon beh gid tag ob rb errs m tr = Finished r m' tr'"
  obtains mid where "quiet beh tr mid" "tr' = mid @ [(ob_id ob, Call_Close)]"
  using assms
  by (auto simp: abandon_def close_method_def do_call_def split: prod.splits option.splits dest!: quiet_rollback)

text \<open>
  The services a frame still means to use or activate, the service a frame has closed to replace it,
  and what a step adds to the trace.
\<close>

fun guard :: "frame \<Rightarrow> nat list" where
  "guard (Remove_closing ob) = []"
| "guard (Close_running obs errs) = []"
| "guard (Create_activating tag ob cs) = [ob_id ob]"
| "guard (Commit_preparing services b) = map ob_id services"
| "guard (Commit_deciding services rb) = map ob_id services"
| "guard (Commit_activating services) = map ob_id services"
| "guard f = place f"

fun activating :: "frame \<Rightarrow> nat list" where
  "activating (Create_activating tag ob cs) = [ob_id ob]"
| "activating (Commit_activating services) = map ob_id services"
| "activating _ = []"

fun replaced :: "frame \<Rightarrow> object option" where
  "replaced (Create_inserting tag ob cs rb) = cs_existing cs"
| "replaced _ = None"

lemma run_Next_trace:
  assumes "service_run beh gid f m tr = Next f' m' tr'"
  obtains (call) "m' = m" "quiet beh tr tr'" "set (guard f') \<subseteq> set (guard f)" "activating f = []" "replaced f = None"
  | (replace) tag ob cs rb old where "f = Create_replacing tag ob cs rb" "f' = Create_inserting tag ob cs rb"
      "cs_existing cs = Some old" "m' = m" "tr' = tr @ [(ob_id old, Call_Close)]"
  | (closing) ob obs errs errs' where "f = Close_running (ob # obs) errs" "f' = Close_running obs errs'" "m' = m"
      "tr' = tr @ [(ob_id ob, Call_Close)]"
  | (activate) ob obs where "f = Commit_activating (ob # obs)" "f' = Commit_activating obs" "m' = m"
      "tr' = tr @ activate_calls [ob]"
  | (close) "f' = Close_running (sm_services m) []" "m' = close_snapshot m" "tr' = tr"
  | (insert) tag ob cs rb rest where "f = Create_inserting tag ob cs rb" "f' = Create_activating tag ob cs"
      "m' = insert_service tag ob rest m" "tr' = tr"
      "case cs_existing cs of None \<Rightarrow> rest = sm_services m | Some old \<Rightarrow> remove_object old (sm_services m) = Some rest"
  | (commit) services rb where "f = Commit_deciding services rb" "f' = Commit_activating services"
      "m' = m\<lparr>sm_runtimeActive := True\<rparr>" "tr' = tr"
proof (cases "(beh, gid, f, m, tr)" rule: service_run.cases)
  case (2 beh' gid' stage ob obs m0 tr0)
  show ?thesis
    by (rule call) (use assms 2 in \<open>auto split: prod.splits option.splits dest: quiet_LegacyStart\<close>)
next
  case (3 beh' gid' m0 tr0)
  show ?thesis
    by (rule close) (use assms 3 in \<open>auto simp: close_snapshot_def split: if_splits\<close>)
next
  case (5 beh' gid' ob obs errs m0 tr0)
  then obtain errs' where "f' = Close_running obs errs'" "m' = m" "tr' = tr @ [(ob_id ob, Call_Close)]"
    using assms by (auto simp: close_method_def do_call_def)
  with 5 show ?thesis
    by (intro closing) auto
next
  case (8 beh' gid' tag ob cs m0 tr0)
  show ?thesis
    by (rule call) (use assms 8 in auto)
next
  case (9 beh' gid' tag ob cs stage stages m0 tr0)
  show ?thesis
    by (rule call) (use assms 9 in \<open>auto split: prod.splits option.splits dest: quiet_LegacyStart\<close>)
next
  case (10 beh' gid' tag ob cs m0 tr0)
  show ?thesis
    by (rule call) (use assms 10 in \<open>auto split: prod.splits sum.splits if_splits dest: quiet_PrepareRuntime\<close>)
next
  case (11 beh' gid' tag ob cs rb m0 tr0)
  show ?thesis
  proof (cases "cs_existing cs")
    case None
    show ?thesis
      by (rule call) (use assms 11 None in auto)
  next
    case (Some old)
    show ?thesis
      by (rule replace [of tag ob cs rb old])
        (use assms 11 Some in \<open>auto simp: close_method_def do_call_def split: prod.splits option.splits\<close>)
  qed
next
  case (12 beh' gid' tag ob cs rb m0 tr0)
  then obtain rest where "f' = Create_activating tag ob cs" "m' = insert_service tag ob rest m" "tr' = tr"
    "case cs_existing cs of None \<Rightarrow> rest = sm_services m | Some old \<Rightarrow> remove_object old (sm_services m) = Some rest"
    using assms by (auto split: option.splits if_splits)
  with 12 show ?thesis
    by (intro insert) auto
next
  case (14 beh' gid' services b m0 tr0)
  show ?thesis
    by (rule call) (use assms 14 in \<open>auto split: prod.splits sum.splits dest: quiet_PrepareRuntime\<close>)
next
  case (15 beh' gid' services rb m0 tr0)
  show ?thesis
    by (rule commit [of services rb]) (use assms 15 in \<open>auto split: prod.splits if_splits\<close>)
next
  case (17 beh' gid' ob obs m0 tr0)
  show ?thesis
    by (rule activate [of ob obs]) (use assms 17 in auto)
qed (use assms in \<open>auto split: prod.splits\<close>)

lemma run_Finished_trace:
  assumes "service_run beh gid f m tr = Finished r m' tr'"
  obtains (call) "quiet beh tr tr'" "activating f = []" "replaced f = None"
  | (removed) ob where "f = Remove_closing ob" "tr' = tr @ [(ob_id ob, Call_Close)]"
  | (abandoned) tag mid and ob :: object where "creating f = [tag]" "place f = [ob_id ob]" "activating f = []" "quiet beh tr mid"
      "tr' = mid @ [(ob_id ob, Call_Close)]"
      "\<forall>tag ob cs rb. f = Create_inserting tag ob cs rb \<longrightarrow> manager_changed tag cs m \<or>
         (\<exists>old. cs_existing cs = Some old \<and> remove_object old (sm_services m) = None)"
  | (activated) tag ob cs where "f = Create_activating tag ob cs"
      "tr' = (if cs_active cs then tr @ activate_calls [ob] else tr)"
  using assms
proof (cases "(beh, gid, f, m, tr)" rule: service_run.cases)
  case (9 beh' gid' tag ob cs stage stages m0 tr0)
  with assms obtain err tr1 where tr1: "LegacyStart beh ob stage tr = (Some err, tr1)"
    "abandon beh gid tag ob None [E_Cause err (StartStage_String stage @ '' '' @ object_name ''service'' ob)] m tr1
      = Finished r m' tr'"
    by (auto split: prod.splits option.splits)
  from tr1(2) obtain mid where "quiet beh tr1 mid" "tr' = mid @ [(ob_id ob, Call_Close)]"
    by (rule abandon_trace)
  then show ?thesis
    using 9 quiet_trans [OF quiet_LegacyStart [OF tr1(1)]] by (intro abandoned [of tag ob mid]) auto
next
  case (10 beh' gid' tag ob cs m0 tr0)
  with assms obtain errs tr1 where tr1: "PrepareRuntime beh [ob] None tr = (Inl errs, tr1)"
    "abandon beh gid tag ob None errs m tr1 = Finished r m' tr'"
    by (auto split: prod.splits sum.splits if_splits)
  from tr1(2) obtain mid where "quiet beh tr1 mid" "tr' = mid @ [(ob_id ob, Call_Close)]"
    by (rule abandon_trace)
  then show ?thesis
    using 10 quiet_trans [OF quiet_PrepareRuntime [OF tr1(1)]] by (intro abandoned [of tag ob mid]) auto
next
  case (11 beh' gid' tag ob cs rb m0 tr0)
  with assms obtain old err where tr1: "beh tr (ob_id old) Call_Close = Some err"
    "abandon beh gid tag ob rb [E_Cause err (''close '' @ object_name ''service'' old)] m (tr @ [(ob_id old, Call_Close)])
      = Finished r m' tr'"
    by (auto simp: close_method_def do_call_def split: prod.splits option.splits)
  from tr1(2) obtain mid where "quiet beh (tr @ [(ob_id old, Call_Close)]) mid" "tr' = mid @ [(ob_id ob, Call_Close)]"
    by (rule abandon_trace)
  then show ?thesis
    using 11 quiet_trans [OF quiet_call [of Call_Close beh tr "ob_id old"]] tr1(1) by (intro abandoned [of tag ob mid]) auto
next
  case (12 beh' gid' tag ob cs rb m0 tr0)
  with assms obtain errs where tr1: "abandon beh gid tag ob rb errs m tr = Finished r m' tr'"
    "manager_changed tag cs m \<or> (\<exists>old. cs_existing cs = Some old \<and> remove_object old (sm_services m) = None)"
    by (auto split: option.splits if_splits)
  from tr1(1) obtain mid where "quiet beh tr mid" "tr' = mid @ [(ob_id ob, Call_Close)]"
    by (rule abandon_trace)
  then show ?thesis
    using 12 tr1(2) by (intro abandoned [of tag ob mid]) auto
qed (auto simp: close_method_def do_call_def split: prod.splits option.splits sum.splits if_splits
      dest: quiet_LegacyStart quiet_PrepareRuntime quiet_rollback)

end
