(* ===== verification/Service_Trace.thy ===== *)
theory Service_Trace
  imports Service_Inv
begin

text \<open>
  The part of the invariant of the service manager that speaks of the calls made so far: no frame
  is going to use a service that was closed, and when the runtime is active every registered service
  has been activated or is about to be. With the two other parts it holds in every reachable state.
\<close>

definition traced :: "behaviour \<Rightarrow> service_manager \<Rightarrow> frame list \<Rightarrow> trace \<Rightarrow> nat set \<Rightarrow> bool" where
  "traced beh m fs tr made \<longleftrightarrow>
     (\<forall>i. closed_ok beh tr i \<longrightarrow> i \<in> made) \<and>
     (\<forall>f\<in>set fs. \<forall>i\<in>set (guard f). \<not> closed_ok beh tr i) \<and>
     (\<forall>ob\<in>set (sm_services m). closed_ok beh tr (ob_id ob) \<longrightarrow> sm_closing m \<or> (\<exists>f\<in>set fs. replaced f = Some ob)) \<and>
     activated_open beh [] tr \<and>
     (sm_runtimeActive m \<longrightarrow> (\<forall>ob\<in>set (sm_services m). ob_activator ob \<longrightarrow>
        (ob_id ob, Call_Activate) \<in> set tr \<or> (\<exists>f\<in>set fs. ob_id ob \<in> set (activating f))))"

lemma tracedI:
  assumes "\<And>i. closed_ok beh tr i \<Longrightarrow> i \<in> made"
    and "\<And>f i. f \<in> set fs \<Longrightarrow> i \<in> set (guard f) \<Longrightarrow> \<not> closed_ok beh tr i"
    and "\<And>ob. ob \<in> set (sm_services m) \<Longrightarrow> closed_ok beh tr (ob_id ob) \<Longrightarrow> sm_closing m \<or> (\<exists>f\<in>set fs. replaced f = Some ob)"
    and "activated_open beh [] tr"
    and "\<And>ob. sm_runtimeActive m \<Longrightarrow> ob \<in> set (sm_services m) \<Longrightarrow> ob_activator ob \<Longrightarrow>
      (ob_id ob, Call_Activate) \<in> set tr \<or> (\<exists>f\<in>set fs. ob_id ob \<in> set (activating f))"
  shows "traced beh m fs tr made"
  using assms unfolding traced_def by blast

lemma tracedD:
  assumes "traced beh m fs tr made"
  shows "closed_ok beh tr i \<Longrightarrow> i \<in> made"
    and "f \<in> set fs \<Longrightarrow> i \<in> set (guard f) \<Longrightarrow> \<not> closed_ok beh tr i"
    and "ob \<in> set (sm_services m) \<Longrightarrow> closed_ok beh tr (ob_id ob) \<Longrightarrow> sm_closing m \<or> (\<exists>f\<in>set fs. replaced f = Some ob)"
    and "activated_open beh [] tr"
    and "sm_runtimeActive m \<Longrightarrow> ob \<in> set (sm_services m) \<Longrightarrow> ob_activator ob \<Longrightarrow>
      (ob_id ob, Call_Activate) \<in> set tr \<or> (\<exists>f\<in>set fs. ob_id ob \<in> set (activating f))"
  using assms unfolding traced_def by blast+

subsection \<open>Who holds a service\<close>

lemma guard_cases:
  assumes "located m fs made" "f \<in> set fs" "i \<in> set (guard f)"
  obtains "i \<in> set (place f)"
  | ob where "ob \<in> set (sm_services m)" "i = ob_id ob" "creating f = [ob_Tag ob] \<or> is_commit f"
proof -
  have cur: "current m f" and reg: "registered (sm_services m) (sm_byTag m)"
    using assms(1,2) by (simp_all add: located_def)
  show ?thesis
  proof (cases f)
    case (Create_activating tag ob cs)
    then have "ob \<in> set (sm_services m) \<and> ob_Tag ob = tag"
      using cur reg unfolding registered_def by auto
    then show ?thesis
      using that(2) [of ob] Create_activating assms(3) by simp
  qed (use that cur assms(3) in auto)
qed

lemma place_foreign:
  assumes "located m (xs @ f # ys) made" "i \<in> set (place f)" "g \<in> set (xs @ ys)"
  shows "i \<notin> set (guard g)"
proof
  assume i: "i \<in> set (guard g)"
  have d: "distinct (map ob_id (sm_services m) @ places xs @ place f @ places ys)"
    using assms(1) by (simp add: located_def)
  have "set (place g) \<subseteq> set (places xs) \<union> set (places ys)"
    using assms(3) by (auto simp: places_def)
  then have "i \<notin> set (place g)"
    using d assms(2) by auto
  moreover have "i \<notin> ob_id ` set (sm_services m)"
    using d assms(2) by auto
  ultimately show False
    using guard_cases [OF assms(1) _ i] assms(3) by auto
qed

lemma place_not_service: "located m (xs @ f # ys) made \<Longrightarrow> i \<in> set (place f) \<Longrightarrow> i \<notin> ob_id ` set (sm_services m)"
  by (auto simp: located_def)

lemma service_not_placed:
  assumes "located m fs made" "ob \<in> set (sm_services m)"
  shows "ob_id ob \<notin> set (places fs)"
proof -
  have "ob_id ` set (sm_services m) \<inter> set (places fs) = {}"
    using assms(1) unfolding located_def distinct_append by simp
  then show ?thesis
    using assms(2) by blast
qed

lemma existing_service:
  assumes "located m fs made" "f \<in> set fs" "current m f \<Longrightarrow> snap_current m tag cs" "cs_existing cs = Some old"
  shows "old \<in> set (sm_services m)" "ob_Tag old = tag"
proof -
  have "snap_current m tag cs" "registered (sm_services m) (sm_byTag m)"
    using assms by (auto simp: located_def)
  then show "old \<in> set (sm_services m)" "ob_Tag old = tag"
    using assms(4) unfolding registered_def snap_current_def by auto
qed

lemma existing_foreign:
  assumes "located m (xs @ Create_replacing tag ob cs rb # ys) made" "exclusive m (xs @ Create_replacing tag ob cs rb # ys)"
    "cs_existing cs = Some old" "g \<in> set (xs @ Create_inserting tag ob cs rb # ys)"
  shows "ob_id old \<notin> set (guard g)"
proof
  let ?f = "Create_replacing tag ob cs rb" and ?fs = "xs @ Create_replacing tag ob cs rb # ys"
  assume i: "ob_id old \<in> set (guard g)"
  have old: "old \<in> set (sm_services m)" "ob_Tag old = tag"
    using existing_service [OF assms(1), of ?f tag cs old] assms(3) by auto
  have np: "ob_id old \<notin> set (places ?fs)"
    using service_not_placed [OF assms(1) old(1)] .
  then have g: "g \<in> set (xs @ ys)"
    using assms(4) i by auto
  then have gfs: "g \<in> set ?fs"
    by auto
  have "ob_id old \<notin> set (place g)"
    using np gfs by (auto simp: places_def)
  then obtain ob' where ob': "ob' \<in> set (sm_services m)" "ob_id old = ob_id ob'" "creating g = [ob_Tag ob'] \<or> is_commit g"
    using guard_cases [OF assms(1) gfs i] by metis
  then have "ob' = old"
    using registered_id_inj [of "sm_services m" "sm_byTag m" ob' old] old(1) assms(1) by (simp add: located_def)
  moreover have "tag \<notin> set (creating g)"
    using assms(2) g by (auto simp: exclusive_def creates_def)
  moreover have "\<not> is_commit g"
  proof
    assume "is_commit g"
    then have "sm_runtimeCommitting m"
      using exclusive_no_commit [OF assms(2) _ gfs] by blast
    then have "idle m" using assms(2) by (simp add: exclusive_def)
    then show False
      using exclusive_no_start(2) [OF assms(2), of ?f] by simp
  qed
  ultimately show False
    using ob'(3) old(2) by auto
qed

subsection \<open>Entering\<close>

lemma replaced_creating: "replaced f \<noteq> None \<Longrightarrow> creating f \<noteq> []"
  by (cases f) auto

lemma traced_removed:
  assumes "traced beh m fs tr made" "set rest \<subseteq> set (sm_services m)"
  shows "traced beh (m\<lparr>sm_byTag := b, sm_services := rest\<rparr>) fs tr made"
  using assms unfolding traced_def by (simp add: subset_iff)

lemma remove_object_subset: "remove_object ob xs = Some rest \<Longrightarrow> set rest \<subseteq> set xs"
  by (induction xs arbitrary: rest) (auto split: if_splits)

lemma traced_returns:
  assumes "traced beh m fs tr made" "service_enter gid rq m = Returned r m'" "\<not> is_panic r"
  shows "traced beh m' fs tr made"
proof (cases "m' = m")
  case False
  then obtain tag where "service_Remove tag m = Returned r m'"
    using enter_returned assms(2,3) by metis
  from this assms(3) False show ?thesis
    by (rule Remove_returned) (use traced_removed [OF assms(1)] remove_object_subset in auto)
qed (use assms(1) in simp)

lemma traced_frame:
  assumes "traced beh m fs tr made" "\<And>i. i \<in> set (guard f) \<Longrightarrow> \<not> closed_ok beh tr i"
    "sm_services m' = sm_services m" "sm_closing m \<longrightarrow> sm_closing m'" "sm_runtimeActive m' \<longrightarrow> sm_runtimeActive m"
    "made \<subseteq> made'"
  shows "traced beh m' (f # fs) tr made'"
proof (rule tracedI)
  fix ob assume "sm_runtimeActive m'" "ob \<in> set (sm_services m')" "ob_activator ob"
  then show "(ob_id ob, Call_Activate) \<in> set tr \<or> (\<exists>f\<in>set (f # fs). ob_id ob \<in> set (activating f))"
    using tracedD(5) [OF assms(1), of ob] assms(3,5) by auto
qed (use tracedD(1-4) [OF assms(1)] assms in \<open>auto dest: subsetD\<close>)

lemma traced_enters:
  assumes "traced beh m fs tr made" "exclusive m fs" "service_enter gid rq m = Entered f m'" "makes_new rq made"
  shows "traced beh m' (f # fs) tr (made \<union> made_by rq)"
proof (cases rq)
  case (Rq_Start stage)
  note e = Start_entered [of gid stage m f m', OF assms(3) [unfolded Rq_Start service_enter.simps]]
  show ?thesis
    by (rule traced_frame [OF assms(1)]) (simp_all add: e(6,7))
next
  case Rq_Close
  note e = Close_entered [of m f m', OF assms(3) [unfolded Rq_Close service_enter.simps]]
  show ?thesis
    by (rule traced_frame [OF assms(1)]) (simp_all add: e(3,4))
next
  case (Rq_Remove tag)
  from assms(3) [unfolded Rq_Remove service_enter.simps] obtain ob rest where e: "\<not> sm_closing m" "\<not> sm_closed m"
    "\<not> sm_runtimeCommitting m" "tag \<notin> set (sm_updates m)"
    "map_of (sm_byTag m) tag = Some ob" "remove_object ob (sm_services m) = Some rest"
    "f = Remove_closing ob" "m' = m\<lparr>sm_byTag := AList.delete tag (sm_byTag m), sm_services := rest\<rparr>"
    by (rule Remove_entered)
  have "traced beh m' fs tr made"
    unfolding e(8) by (rule traced_removed [OF assms(1) remove_object_subset [OF e(6)]])
  then show ?thesis
    by (rule traced_frame) (simp_all add: e(7))
next
  case (Rq_Create tag c)
  note e = Create_entered [of gid tag c m f m', OF assms(3) [unfolded Rq_Create service_enter.simps]]
  show ?thesis
    by (rule traced_frame [OF assms(1)])
      (use assms(4) Rq_Create tracedD(1) [OF assms(1)] in \<open>cases c; auto simp: e(6,7)\<close>)+
next
  case (Rq_Commit b)
  note e = Commit_entered [of gid b m f m', OF assms(3) [unfolded Rq_Commit service_enter.simps]]
  have "\<not> closed_ok beh tr (ob_id ob)" if "ob \<in> set (sm_services m)" for ob
    using tracedD(3) [OF assms(1) that] e(1) exclusive_no_start(2) [OF assms(2) e(3)] replaced_creating by fastforce
  then show ?thesis
    by (intro traced_frame [OF assms(1)]) (auto simp: e(8,9))
qed

subsection \<open>Steps\<close>

lemma closed_ok_snoc: "closed_ok beh (tr @ [(i, Call_Close)]) j \<Longrightarrow> closed_ok beh tr j \<or> j = i"
  by auto

lemma closed_ok_activate [simp]: "closed_ok beh (tr @ activate_calls [ob]) i = closed_ok beh tr i"
  by (simp add: activate_calls_def)

lemma traced_swap:
  assumes "traced beh m (xs @ f # ys) tr made" "quiet beh tr tr'" "set (guard f') \<subseteq> set (guard f)"
    "activating f = []" "replaced f = None"
  shows "traced beh m (xs @ f' # ys) tr' made"
  using assms(1,3,4,5)
  unfolding traced_def quiet_closed [OF assms(2)] quiet_open [OF assms(2)] quiet_activated [OF assms(2)]
  by auto

lemma traced_drop:
  assumes "traced beh m (xs @ f # ys) tr made" "quiet beh tr tr'" "activating f = []" "replaced f = None"
  shows "traced beh m (xs @ ys) tr' made"
  using assms(1,3,4)
  unfolding traced_def quiet_closed [OF assms(2)] quiet_open [OF assms(2)] quiet_activated [OF assms(2)]
  by auto

lemma traced_quiet: "traced beh m fs tr made \<Longrightarrow> quiet beh tr tr' \<Longrightarrow> traced beh m fs tr' made"
  unfolding traced_def by (simp add: quiet_closed quiet_open quiet_activated)

lemma traced_mgr:
  assumes "traced beh m fs tr made" "sm_services m' = sm_services m" "sm_closing m' = sm_closing m \<or> sm_services m = []"
    "sm_runtimeActive m' = sm_runtimeActive m"
  shows "traced beh m' fs tr made"
  using assms unfolding traced_def by auto

text \<open>Closing a service that no frame will use: one that a frame holds alone.\<close>

lemma traced_close_held:
  assumes "traced beh m (xs @ f # ys) tr made" "located m (xs @ f # ys) made" "i \<in> set (place f)"
    "set gs \<subseteq> set (xs @ ys) \<union> {g. guard g = []}" "set (xs @ ys) \<subseteq> set gs" "activating f = []"
    "\<And>ob. ob \<in> set (sm_services m) \<Longrightarrow> replaced f = Some ob \<Longrightarrow> sm_closing m"
  shows "traced beh m gs (tr @ [(i, Call_Close)]) made"
proof (rule tracedI)
  fix j assume "closed_ok beh (tr @ [(i, Call_Close)]) j"
  then have "closed_ok beh tr j \<or> j = i"
    by (rule closed_ok_snoc)
  moreover have "i \<in> made"
    using assms(2,3) unfolding located_def by auto
  ultimately show "j \<in> made"
    using tracedD(1) [OF assms(1)] by blast
next
  fix g j assume g: "g \<in> set gs" "j \<in> set (guard g)"
  then have "g \<in> set (xs @ ys)"
    using assms(4) by auto
  then show "\<not> closed_ok beh (tr @ [(i, Call_Close)]) j"
    using closed_ok_snoc [of beh tr i j] tracedD(2) [OF assms(1), of g j] place_foreign [OF assms(2,3), of g] g(2) by auto
next
  fix ob assume ob: "ob \<in> set (sm_services m)" "closed_ok beh (tr @ [(i, Call_Close)]) (ob_id ob)"
  then have "closed_ok beh tr (ob_id ob)"
    using closed_ok_snoc [OF ob(2)] place_not_service [OF assms(2,3)] by auto
  then show "sm_closing m \<or> (\<exists>f\<in>set gs. replaced f = Some ob)"
    using tracedD(3) [OF assms(1) ob(1)] assms(5) assms(7) [OF ob(1)] by auto
next
  fix ob assume "sm_runtimeActive m" "ob \<in> set (sm_services m)" "ob_activator ob"
  then show "(ob_id ob, Call_Activate) \<in> set (tr @ [(i, Call_Close)]) \<or> (\<exists>f\<in>set gs. ob_id ob \<in> set (activating f))"
    using tracedD(5) [OF assms(1), of ob] assms(5,6) by auto
qed (use tracedD(4) [OF assms(1)] in simp)

lemma traced_activate:
  assumes "traced beh m (xs @ f # ys) tr made" "located m (xs @ f # ys) made" "ob \<in> set (sm_services m)"
    "ob_id ob \<in> set (guard f)" "replaced f = None"
    "\<And>g. g \<in> set gs \<Longrightarrow> g \<in> set (xs @ ys) \<or> set (guard g) \<subseteq> set (guard f)" "set (xs @ ys) \<subseteq> set gs"
    "set (activating f) \<subseteq> insert (ob_id ob) (\<Union>g\<in>set gs. set (activating g))"
  shows "traced beh m gs (tr @ activate_calls [ob]) made"
proof (rule tracedI, unfold closed_ok_activate)
  fix g i assume "g \<in> set gs" "i \<in> set (guard g)"
  then show "\<not> closed_ok beh tr i"
    using assms(6) [of g] tracedD(2) [OF assms(1), of g i] tracedD(2) [OF assms(1), of f i] by auto
next
  fix x assume "x \<in> set (sm_services m)" "closed_ok beh tr (ob_id x)"
  then show "sm_closing m \<or> (\<exists>f\<in>set gs. replaced f = Some x)"
    using tracedD(3) [OF assms(1), of x] assms(5,7) by auto
next
  have "\<not> closed_ok beh tr (ob_id ob)"
    using tracedD(2) [OF assms(1), of f "ob_id ob"] assms(4) by simp
  then show "activated_open beh [] (tr @ activate_calls [ob])"
    using tracedD(4) [OF assms(1)] by (simp add: activate_calls_def)
next
  fix x assume x: "sm_runtimeActive m" "x \<in> set (sm_services m)" "ob_activator x"
  have reg: "registered (sm_services m) (sm_byTag m)"
    using assms(2) by (simp add: located_def)
  consider "(ob_id x, Call_Activate) \<in> set tr" | g where "g \<in> set (xs @ ys)" "ob_id x \<in> set (activating g)"
    | "ob_id x = ob_id ob" | g where "g \<in> set gs" "ob_id x \<in> set (activating g)"
    using tracedD(5) [OF assms(1) x] assms(8) by auto
  then show "(ob_id x, Call_Activate) \<in> set (tr @ activate_calls [ob]) \<or> (\<exists>f\<in>set gs. ob_id x \<in> set (activating f))"
  proof cases
    case 3
    then have "x = ob"
      using registered_id_inj [OF reg x(2) assms(3)] by simp
    then show ?thesis
      using x(3) by (simp add: activate_calls_def)
  qed (use assms(7) in auto)
qed (use tracedD(1) [OF assms(1)] in simp)

lemma traced_Next:
  assumes "traced beh m (xs @ f # ys) tr made" "located m (xs @ f # ys) made" "exclusive m (xs @ f # ys)"
    "service_run beh gid f m tr = Next f' m' tr'"
  shows "traced beh m' (xs @ f' # ys) tr' made"
  using assms(4)
proof (cases rule: run_Next_trace)
  case call
  then show ?thesis
    using traced_swap [OF assms(1)] by simp
next
  case (replace tag ob cs rb old)
  note foreign = existing_foreign [OF assms(2,3) [unfolded replace(1)] replace(3)]
  have old: "old \<in> set (sm_services m)"
    using existing_service [OF assms(2), of f tag cs old] replace by auto
  show ?thesis
    unfolding replace(2,4,5)
  proof (rule tracedI)
    fix i assume "closed_ok beh (tr @ [(ob_id old, Call_Close)]) i"
    then have "closed_ok beh tr i \<or> i = ob_id old"
      by (rule closed_ok_snoc)
    moreover have "ob_id old \<in> made"
      using assms(2) old unfolding located_def by blast
    ultimately show "i \<in> made"
      using tracedD(1) [OF assms(1)] by blast
  next
    fix g i assume g: "g \<in> set (xs @ Create_inserting tag ob cs rb # ys)" "i \<in> set (guard g)"
    then have "\<not> closed_ok beh tr i"
      using tracedD(2) [OF assms(1), of g i] tracedD(2) [OF assms(1), of f i] replace(1) by auto
    then show "\<not> closed_ok beh (tr @ [(ob_id old, Call_Close)]) i"
      using closed_ok_snoc [of beh tr "ob_id old" i] foreign [OF g(1)] g(2) by auto
  next
    fix x assume x: "x \<in> set (sm_services m)" "closed_ok beh (tr @ [(ob_id old, Call_Close)]) (ob_id x)"
    then have "closed_ok beh tr (ob_id x) \<or> x = old"
      using closed_ok_snoc registered_id_inj [of "sm_services m" "sm_byTag m" x old] old assms(2)
      by (auto simp: located_def)
    then show "sm_closing m \<or> (\<exists>f\<in>set (xs @ Create_inserting tag ob cs rb # ys). replaced f = Some x)"
      using tracedD(3) [OF assms(1) x(1)] replace(1,3) by auto
  next
    fix x assume "sm_runtimeActive m" "x \<in> set (sm_services m)" "ob_activator x"
    then show "(ob_id x, Call_Activate) \<in> set (tr @ [(ob_id old, Call_Close)])
        \<or> (\<exists>f\<in>set (xs @ Create_inserting tag ob cs rb # ys). ob_id x \<in> set (activating f))"
      using tracedD(5) [OF assms(1), of x] replace(1) by auto
  qed (use tracedD(4) [OF assms(1)] in simp)
next
  case (closing ob obs errs errs')
  show ?thesis
    unfolding closing(2-4) by (rule traced_close_held [OF assms(1,2)]) (auto simp: closing(1))
next
  case (activate ob obs)
  then have "ob \<in> set (sm_services m)"
    using assms(2) by (auto simp: located_def)
  then show ?thesis
    unfolding activate(2-4) by (rule traced_activate [OF assms(1,2)]) (auto simp: activate(1))
next
  case close
  then show ?thesis
    using assms(1) unfolding traced_def by (auto simp: close_snapshot_def)
next
  case (insert tag ob cs rb rest)
  have new: "\<not> closed_ok beh tr (ob_id ob)"
    using tracedD(2) [OF assms(1), of f "ob_id ob"] insert(1) by simp
  have d: "distinct (map ob_id (sm_services m))"
    using assms(2) by (simp add: located_def)
  have rest: "set rest \<subseteq> set (sm_services m)" "cs_existing cs = Some old \<Longrightarrow> old \<notin> set rest" for old
    using insert(5) remove_object_subset remove_object_Some [OF _ d, of old rest] by (auto split: option.splits)
  show ?thesis
    unfolding insert(2,4)
  proof (rule tracedI)
    fix g i assume "g \<in> set (xs @ Create_activating tag ob cs # ys)" "i \<in> set (guard g)"
    then show "\<not> closed_ok beh tr i"
      using tracedD(2) [OF assms(1), of g i] new by auto
  next
    fix x assume "x \<in> set (sm_services m')" and c: "closed_ok beh tr (ob_id x)"
    then have x: "x \<in> set rest"
      using new by (auto simp: insert(3) insert_service_def)
    then show "sm_closing m' \<or> (\<exists>f\<in>set (xs @ Create_activating tag ob cs # ys). replaced f = Some x)"
      using tracedD(3) [OF assms(1) _ c] rest insert(1) by (auto simp: insert(3) insert_service_def)
  next
    fix x assume "sm_runtimeActive m'" "x \<in> set (sm_services m')" "ob_activator x"
    then show "(ob_id x, Call_Activate) \<in> set tr \<or> (\<exists>f\<in>set (xs @ Create_activating tag ob cs # ys). ob_id x \<in> set (activating f))"
      using tracedD(5) [OF assms(1), of x] rest(1) insert(1) by (auto simp: insert(3) insert_service_def)
  qed (use tracedD(1,4) [OF assms(1)] in auto)
next
  case (commit services rb)
  then have "services = sm_services m"
    using assms(2) by (auto simp: located_def)
  then show ?thesis
    using assms(1) commit unfolding traced_def by auto
qed

lemma finished_mgr:
  assumes "exclusive m (xs @ f # ys)" "service_run beh gid f m tr = Finished r m' tr'"
  shows "sm_services m' = sm_services m" "sm_closing m' = sm_closing m \<or> sm_services m = []"
    "sm_runtimeActive m' = sm_runtimeActive m"
  using assms(2)
  by (cases rule: run_Finished; use assms(1) in \<open>simp add: finishStart_def finishUpdate_def exclusive_def\<close>)+

text \<open>A \<^verbatim>\<open>Create\<close> that has closed the old service gives up only when the manager is being closed.\<close>

lemma inserting_gives_up:
  assumes "located m (xs @ f # ys) made" "exclusive m (xs @ f # ys)" "f = Create_inserting tag ob cs rb"
    "manager_changed tag cs m \<or> (\<exists>old. cs_existing cs = Some old \<and> remove_object old (sm_services m) = None)"
  shows "sm_closing m"
proof -
  have cur: "snap_current m tag cs" and reg: "registered (sm_services m) (sm_byTag m)"
    using assms(1,3) by (auto simp: located_def)
  have "tag \<in> set (sm_updates m)"
    using assms(2,3) by (auto simp: exclusive_def)
  then have "\<not> idle m"
    by (auto simp: idle_def)
  then have "\<not> sm_runtimeCommitting m" "\<not> sm_closed m"
    using assms(2) by (auto simp: exclusive_def)
  moreover have "remove_object old (sm_services m) \<noteq> None" if "cs_existing cs = Some old" for old
    using registered_remove [OF reg, of tag old] cur that by (auto simp: snap_current_def)
  ultimately show ?thesis
    using assms(4) cur by (auto simp: manager_changed_def snap_current_def)
qed

lemma traced_Finished:
  assumes "traced beh m (xs @ f # ys) tr made" "located m (xs @ f # ys) made" "exclusive m (xs @ f # ys)"
    "service_run beh gid f m tr = Finished r m' tr'"
  shows "traced beh m' (xs @ ys) tr' made"
proof -
  have "traced beh m (xs @ ys) tr' made"
    using assms(4)
  proof (cases rule: run_Finished_trace)
    case call
    then show ?thesis
      by (rule traced_drop [OF assms(1)])
  next
    case (removed ob)
    then show ?thesis
      using traced_close_held [OF assms(1,2), of "ob_id ob" "xs @ ys"] by auto
  next
    case (abandoned tag mid ob)
    have "sm_closing m" if "replaced f = Some old" for old
    proof (cases f)
      case (Create_inserting tag ob cs rb)
      then show ?thesis
        using inserting_gives_up [OF assms(2,3) Create_inserting] abandoned(6) by blast
    qed (use that in auto)
    then show ?thesis
      unfolding abandoned(5)
      by (intro traced_close_held [OF traced_quiet [OF assms(1) abandoned(4)] assms(2)]) (use abandoned(2,3) in auto)
  next
    case (activated tag ob cs)
    have cur: "sm_runtimeActive m = cs_active cs" "map_of (sm_byTag m) tag = Some ob"
      and reg: "registered (sm_services m) (sm_byTag m)"
      using assms(2) activated(1) by (auto simp: located_def)
    have "ob \<in> set (sm_services m)"
      using cur(2) reg unfolding registered_def by blast
    then have "traced beh m (xs @ ys) (tr @ activate_calls [ob]) made"
      by (rule traced_activate [OF assms(1,2)]) (auto simp: activated(1))
    moreover have "traced beh m (xs @ ys) tr made" if "\<not> cs_active cs"
      using assms(1) that cur(1) unfolding traced_def activated(1) by auto
    ultimately show ?thesis
      by (simp add: activated(2))
  qed
  then show ?thesis
    by (rule traced_mgr) (use finished_mgr [OF assms(3,4)] in auto)
qed

subsection \<open>Reachable states\<close>

definition system_inv :: "behaviour \<Rightarrow> system \<Rightarrow> bool" where
  "system_inv beh s \<longleftrightarrow>
     exclusive (sys_mgr s) (map snd (sys_calls s)) \<and>
     located (sys_mgr s) (map snd (sys_calls s)) (sys_made s) \<and>
     traced beh (sys_mgr s) (map snd (sys_calls s)) (sys_trace s) (sys_made s)"

lemma system_inv_New: "system_inv beh system_New"
  by (auto simp: system_inv_def system_New_def service_NewManager_def exclusive_def idle_def located_def registered_Nil
      intro!: tracedI)

lemma system_inv_step:
  assumes "system_step beh s s'" "system_inv beh s"
  shows "system_inv beh s'"
  using assms
proof (induction rule: system_step.induct)
  case (returns gid rq s r m)
  then show ?case
    using exclusive_returns [OF _ returns.hyps] located_returns [OF _ _ returns.hyps]
      traced_returns [OF _ returns.hyps] by (simp add: system_inv_def)
next
  case (enters gid rq s f m)
  then show ?case
    using exclusive_enters [OF _ enters.hyps(1)] located_enters [OF _ _ enters.hyps]
      traced_enters [OF _ _ enters.hyps] by (simp add: system_inv_def)
next
  case (continues s before gid f after f' m tr)
  note inv = continues.prems [unfolded system_inv_def continues.hyps(1) map_append list.map snd_conv]
  show ?case
    using exclusive_Next [OF conjunct1 [OF inv] continues.hyps(2)]
      located_Next [OF _ conjunct1 [OF inv] continues.hyps(2)]
      traced_Next [OF _ _ conjunct1 [OF inv] continues.hyps(2)] inv
    by (simp add: system_inv_def)
next
  case (finishes s before gid f after r m tr)
  note inv = finishes.prems [unfolded system_inv_def finishes.hyps(1) map_append list.map snd_conv]
  show ?case
    using exclusive_Finished [OF conjunct1 [OF inv] finishes.hyps(2)]
      located_Finished [OF _ finishes.hyps(2)]
      traced_Finished [OF _ _ conjunct1 [OF inv] finishes.hyps(2)] inv
    by (simp add: system_inv_def)
qed

lemma system_reach_inv: "system_reach beh s \<Longrightarrow> system_inv beh s"
  by (induction rule: system_reach.induct) (auto intro: system_inv_New system_inv_step)

lemma reach_exclusive: "system_reach beh s \<Longrightarrow> exclusive (sys_mgr s) (map snd (sys_calls s))"
  and reach_located: "system_reach beh s \<Longrightarrow> located (sys_mgr s) (map snd (sys_calls s)) (sys_made s)"
  and reach_traced: "system_reach beh s \<Longrightarrow> traced beh (sys_mgr s) (map snd (sys_calls s)) (sys_trace s) (sys_made s)"
  using system_reach_inv by (auto simp: system_inv_def)

lemma activated_open_at:
  "activated_open beh before (xs @ (i, Call_Activate) # ys) \<Longrightarrow> \<not> closed_ok beh (before @ xs) i"
  by simp

subsection \<open>Scripts\<close>

text \<open>A schedule as a list of actions; a step that is not enabled has no result.\<close>

datatype action = Call gid request | Step nat

fun run_action :: "behaviour \<Rightarrow> action \<Rightarrow> system \<Rightarrow> system option" where
  "run_action beh (Call gid rq) s =
     (case service_enter gid rq (sys_mgr s) of
        Blocked \<Rightarrow> None
      | Returned r m \<Rightarrow> if is_panic r then None else Some (s\<lparr>sys_mgr := m\<rparr>)
      | Entered f m \<Rightarrow>
          if makes_new rq (sys_made s)
          then Some (s\<lparr>sys_mgr := m, sys_calls := (gid, f) # sys_calls s, sys_made := sys_made s \<union> made_by rq\<rparr>)
          else None)"
| "run_action beh (Step n) s =
     (if n < length (sys_calls s)
      then (case sys_calls s ! n of
              (gid, f) \<Rightarrow>
                (case service_run beh gid f (sys_mgr s) (sys_trace s) of
                   Waiting \<Rightarrow> None
                 | Next f' m tr \<Rightarrow>
                     Some (s\<lparr>sys_mgr := m,
                       sys_calls := take n (sys_calls s) @ (gid, f') # drop (Suc n) (sys_calls s), sys_trace := tr\<rparr>)
                 | Finished r m tr \<Rightarrow>
                     Some (s\<lparr>sys_mgr := m, sys_calls := take n (sys_calls s) @ drop (Suc n) (sys_calls s), sys_trace := tr\<rparr>)))
      else None)"

fun run_script :: "behaviour \<Rightarrow> action list \<Rightarrow> system \<Rightarrow> system option" where
  "run_script beh [] s = Some s"
| "run_script beh (a # as) s = Option.bind (run_action beh a s) (run_script beh as)"

lemma run_action_step:
  assumes "run_action beh a s = Some s'"
  shows "system_step beh s s'"
proof (cases a)
  case (Call gid rq)
  then show ?thesis
    using assms by (auto split: entry.splits if_splits intro: returns enters)
next
  case (Step n)
  then have n: "n < length (sys_calls s)"
    using assms by (auto split: if_splits)
  obtain gid f where gf: "sys_calls s ! n = (gid, f)"
    by fastforce
  have split: "sys_calls s = take n (sys_calls s) @ (gid, f) # drop (Suc n) (sys_calls s)"
    using id_take_nth_drop [OF n] gf by simp
  show ?thesis
    using assms Step n gf continues [OF split] finishes [OF split] by (auto split: progress.splits)
qed

lemma run_script_reach: "run_script beh as s = Some s' \<Longrightarrow> system_reach beh s \<Longrightarrow> system_reach beh s'"
proof (induction as arbitrary: s)
  case (Cons a as)
  then show ?case
    using run_action_step system_reach.step by (auto simp: bind_eq_Some_conv)
qed simp

end
