(* ===== verification/Lifecycle_Spec.thy ===== *)
theory Lifecycle_Spec
  imports Outbound_Manager Service_Trace "HOL-Library.Sublist"
begin

text \<open>
  Properties of the managers: the order in which outbounds start, the registry of every manager, the
  service manager under concurrent use, and the places where an operation leaves a manager in a state
  it does not mean to.
\<close>

subsection \<open>Committing\<close>

definition validate_calls :: "object list \<Rightarrow> trace" where
  "validate_calls obs = map (\<lambda>ob. (ob_id ob, Call_Validate)) (filter ob_activator obs)"

definition commit_calls :: "object list \<Rightarrow> trace" where
  "commit_calls obs = map (\<lambda>ob. (ob_id ob, Call_Commit)) obs"

definition rollback_calls :: "object list \<Rightarrow> trace" where
  "rollback_calls obs = map (\<lambda>ob. (ob_id ob, Call_Rollback)) obs"

definition to_commit :: "object option \<Rightarrow> object list \<Rightarrow> object list" where
  "to_commit before services = (case before of None \<Rightarrow> [] | Some ob \<Rightarrow> [ob]) @ filter ob_committer services"

lemmas call_lists = validate_calls_def commit_calls_def rollback_calls_def

text \<open>The calls of a list that all succeed, and the first call of a list that fails.\<close>

fun accepted :: "behaviour \<Rightarrow> trace \<Rightarrow> trace \<Rightarrow> bool" where
  "accepted beh tr [] \<longleftrightarrow> True"
| "accepted beh tr (c # cs) \<longleftrightarrow> beh tr (fst c) (snd c) = None \<and> accepted beh (tr @ [c]) cs"

definition fails_at :: "behaviour \<Rightarrow> trace \<Rightarrow> trace \<Rightarrow> trace \<Rightarrow> nat \<times> call \<Rightarrow> bool" where
  "fails_at beh tr calls passed failed \<longleftrightarrow>
     prefix (passed @ [failed]) calls \<and> accepted beh tr passed \<and> beh (tr @ passed) (fst failed) (snd failed) \<noteq> None"

lemma accepted_append [simp]: "accepted beh tr (cs @ ds) \<longleftrightarrow> accepted beh tr cs \<and> accepted beh (tr @ cs) ds"
  by (induction cs arbitrary: tr) auto

lemma fails_at_Nil: "beh tr (fst c) (snd c) \<noteq> None \<Longrightarrow> fails_at beh tr (c # cs) [] c"
  by (simp add: fails_at_def)

lemma fails_at_append:
  "accepted beh tr cs \<Longrightarrow> fails_at beh (tr @ cs) ds passed failed \<Longrightarrow> fails_at beh tr (cs @ ds) (cs @ passed) failed"
  by (simp add: fails_at_def)

lemma fails_at_prefix: "fails_at beh tr cs passed failed \<Longrightarrow> fails_at beh tr (cs @ ds) passed failed"
  by (auto simp: fails_at_def prefix_def)

lemma validate_each_trace:
  "validate_each beh obs tr = (r, tr') \<Longrightarrow>
   (case r of
      None \<Rightarrow> accepted beh tr (validate_calls obs) \<and> tr' = tr @ validate_calls obs
    | Some err \<Rightarrow> \<exists>ok failed. fails_at beh tr (validate_calls obs) ok failed \<and> tr' = tr @ ok @ [failed])"
proof (induction obs arbitrary: tr)
  case (Cons ob obs)
  show ?case
  proof (cases "ob_activator ob \<and> beh tr (ob_id ob) Call_Validate \<noteq> None")
    case True
    then have "fails_at beh tr (validate_calls (ob # obs)) [] (ob_id ob, Call_Validate)"
      by (auto simp: validate_calls_def intro!: fails_at_Nil)
    moreover have "tr' = tr @ [] @ [(ob_id ob, Call_Validate)]" "r \<noteq> None"
      using True Cons.prems by (auto simp: do_call_def)
    ultimately show ?thesis
      by (auto split: option.splits)
  next
    case False
    then have tr1: "validate_each beh obs (tr @ validate_calls [ob]) = (r, tr')"
      using Cons.prems by (auto simp: do_call_def validate_calls_def split: if_splits)
    have ok: "accepted beh tr (validate_calls [ob])"
      using False by (simp add: validate_calls_def)
    have all: "validate_calls (ob # obs) = validate_calls [ob] @ validate_calls obs"
      by (simp add: validate_calls_def)
    show ?thesis
    proof (cases r)
      case None
      then show ?thesis
        using Cons.IH [OF tr1] ok unfolding all by simp
    next
      case (Some err)
      then obtain ok' failed where "fails_at beh (tr @ validate_calls [ob]) (validate_calls obs) ok' failed"
        "tr' = (tr @ validate_calls [ob]) @ ok' @ [failed]"
        using Cons.IH [OF tr1] by auto
      then show ?thesis
        using fails_at_append [OF ok] unfolding all Some option.case by fastforce
    qed
  qed
qed (simp add: validate_calls_def)

lemma rollback_all_trace: "snd (rollback_all beh obs tr) = tr @ rollback_calls obs"
proof (induction obs arbitrary: tr)
  case (Cons ob obs)
  show ?case
    using Cons [of "tr @ [(ob_id ob, Call_Rollback)]"] by (auto simp: do_call_def call_lists split: prod.splits)
qed (simp add: call_lists)

lemma commit_each_trace:
  assumes "commit_each beh obs rbs tr = (r, tr')"
  shows "case r of
      Inr rbs' \<Rightarrow> rbs' = rbs @ filter ob_committer obs \<and>
        accepted beh tr (commit_calls (filter ob_committer obs)) \<and> tr' = tr @ commit_calls (filter ob_committer obs)
    | Inl errs \<Rightarrow> \<exists>committed failed rest. filter ob_committer obs = committed @ failed # rest \<and>
        accepted beh tr (commit_calls committed) \<and> beh (tr @ commit_calls committed) (ob_id failed) Call_Commit \<noteq> None \<and>
        tr' = tr @ commit_calls (committed @ [failed]) @ rollback_calls (rev (rbs @ committed))"
  using assms
proof (induction obs arbitrary: rbs tr)
  case (Cons ob obs)
  consider "\<not> ob_committer ob" | err where "ob_committer ob" "beh tr (ob_id ob) Call_Commit = Some err"
    | "ob_committer ob" "beh tr (ob_id ob) Call_Commit = None"
    by fastforce
  then show ?case
  proof cases
    case 1
    then have "filter ob_committer (ob # obs) = filter ob_committer obs" "commit_each beh obs rbs tr = (r, tr')"
      using Cons.prems by simp_all
    then show ?thesis
      using Cons.IH by presburger
  next
    case 2
    obtain errs tr2 where "rollback_all beh (rev rbs) (tr @ [(ob_id ob, Call_Commit)]) = (errs, tr2)"
      by fastforce
    moreover from this have "tr2 = (tr @ [(ob_id ob, Call_Commit)]) @ rollback_calls (rev rbs)"
      using rollback_all_trace [of beh "rev rbs" "tr @ [(ob_id ob, Call_Commit)]"] by simp
    ultimately have "r = Inl (E_Cause err (''commit runtime '' @ object_name ''service'' ob) # errs)"
      "tr' = tr @ commit_calls ([] @ [ob]) @ rollback_calls (rev (rbs @ []))"
      using Cons.prems 2 by (auto simp: do_call_def rollbackRuntimeCommits_def commit_calls_def)
    then show ?thesis
      using 2 by (auto simp: commit_calls_def intro!: exI [of _ "[]"])
  next
    case 3
    then have "commit_each beh obs (rbs @ [ob]) (tr @ commit_calls [ob]) = (r, tr')"
      using Cons.prems by (simp add: do_call_def commit_calls_def)
    note IH = Cons.IH [OF this]
    show ?thesis
    proof (cases r)
      case (Inr rbs')
      then show ?thesis
        using IH 3 by (simp add: commit_calls_def)
    next
      case (Inl errs)
      then obtain committed failed rest where "filter ob_committer obs = committed @ failed # rest"
        "accepted beh (tr @ commit_calls [ob]) (commit_calls committed)"
        "beh ((tr @ commit_calls [ob]) @ commit_calls committed) (ob_id failed) Call_Commit \<noteq> None"
        "tr' = (tr @ commit_calls [ob]) @ commit_calls (committed @ [failed]) @ rollback_calls (rev ((rbs @ [ob]) @ committed))"
        using IH by auto
      then have "filter ob_committer (ob # obs) = (ob # committed) @ failed # rest"
        "accepted beh tr (commit_calls (ob # committed))"
        "beh (tr @ commit_calls (ob # committed)) (ob_id failed) Call_Commit \<noteq> None"
        "tr' = tr @ commit_calls ((ob # committed) @ [failed]) @ rollback_calls (rev (rbs @ (ob # committed)))"
        using 3 by (simp_all add: commit_calls_def)
      then show ?thesis
        unfolding Inl sum.case by blast
    qed
  qed
qed (auto simp: commit_calls_def)


lemma deps_before_nth:
  "deps_before started obs \<Longrightarrow> i < length obs \<Longrightarrow> d \<in> set (ob_Dependencies (obs ! i)) \<Longrightarrow>
   d \<in> set started \<or> (\<exists>j<i. ob_Tag (obs ! j) = d)"
proof (induction obs arbitrary: started i)
  case (Cons ob obs)
  show ?case
  proof (cases i)
    case (Suc k)
    then have "d \<in> set (started @ [ob_Tag ob]) \<or> (\<exists>j<k. ob_Tag (obs ! j) = d)"
      using Cons.prems by (intro Cons.IH) auto
    then show ?thesis
      using Suc by (metis Un_iff in_set_conv_decomp list.set(1,2) not_less_eq nth_Cons_0 nth_Cons_Suc set_append
          singletonD zero_less_Suc Suc_less_eq)
  qed (use Cons.prems in auto)
qed simp

subsection \<open>Samples\<close>

definition sample_object :: "nat \<Rightarrow> string \<Rightarrow> string list \<Rightarrow> object" where
  "sample_object i tag deps =
     \<lparr>ob_id = i, ob_Type = ''test'', ob_Tag = tag, ob_Dependencies = deps, ob_starter = Has_Lifecycle, ob_closer = True,
      ob_committer = True, ob_activator = True\<rparr>"

definition well_behaved :: behaviour where
  "well_behaved tr i c = None"

definition sample_registry :: "(nat \<times> string list) registry" where
  "sample_registry tr tag ty opts = Inr (sample_object (fst opts) tag (snd opts))"

lemma well_behaved_starts [simp]: "starts_well well_behaved obs"
  by (simp add: starts_well_def LegacyStart_def do_call_def well_behaved_def split: option.split)

subsection \<open>Outbounds\<close>

text \<open>
  C16: When \<^verbatim>\<open>startOutbounds\<close> succeeds, it has called the start method of every outbound and
  endpoint exactly once, in an order in which each of them comes after everything it depends on.
\<close>

theorem outbound_start_order:
  assumes "startOutbounds beh byTag obs tr = (Done, tr')"
  shows "\<exists>order. set order = set obs \<and> length order = length obs \<and> distinct (map ob_Tag order) \<and>
    (\<forall>i<length order. \<forall>d\<in>set (ob_Dependencies (order ! i)). \<exists>j<i. ob_Tag (order ! j) = d) \<and>
    tr' = tr @ concat (map (stage_calls StartStateStart) order)"
proof -
  obtain order where order: "set order = set obs" "length order = length obs" "deps_before [] order"
    "tr' = tr @ started_calls order"
    using startOutbounds_order [OF assms] by blast
  moreover have "distinct (map ob_Tag order)"
    using deps_before_distinct [OF order(3)] by simp
  moreover have "\<exists>j<i. ob_Tag (order ! j) = d" if "i < length order" "d \<in> set (ob_Dependencies (order ! i))" for i d
    using deps_before_nth [OF order(3) that] by simp
  ultimately show ?thesis
    unfolding started_calls_def by blast
qed

definition chain :: "object list" where
  "chain = [sample_object 1 ''a'' [''b''], sample_object 2 ''b'' [''c''], sample_object 3 ''c'' []]"

theorem outbound_start_order_witness:
  "startOutbounds well_behaved [] chain [] =
     (Done, [(3, Call_Stage StartStateStart), (2, Call_Stage StartStateStart), (1, Call_Stage StartStateStart)]) \<and>
   (\<exists>order. set order = set chain \<and> length order = length chain \<and> distinct (map ob_Tag order) \<and>
    (\<forall>i<length order. \<forall>d\<in>set (ob_Dependencies (order ! i)). \<exists>j<i. ob_Tag (order ! j) = d) \<and>
    [(3, Call_Stage StartStateStart), (2, Call_Stage StartStateStart), (1, Call_Stage StartStateStart)]
      = [] @ concat (map (stage_calls StartStateStart) order))"
proof -
  have "startOutbounds well_behaved [] chain [] =
     (Done, [(3, Call_Stage StartStateStart), (2, Call_Stage StartStateStart), (1, Call_Stage StartStateStart)])"
    by code_simp
  then show ?thesis
    using outbound_start_order by blast
qed

text \<open>
  C17: For outbounds that are registered and endpoints with other tags, whose start methods do not
  fail, \<^verbatim>\<open>startOutbounds\<close> always ends; it succeeds exactly when the dependencies can be put
  in an order, and otherwise returns an error that names an existing chain of dependencies ending in
  a cycle, or a dependency of an existing object that is not a registered outbound.
\<close>

theorem outbound_start_complete:
  assumes "registered items byTag" "distinct (map ob_Tag (items @ endpoints))" "starts_well beh (items @ endpoints)"
  shows "(fst (startOutbounds beh byTag (items @ endpoints) tr) = Done \<longleftrightarrow>
      (\<exists>order. set order = set (items @ endpoints) \<and> deps_before [] order)) \<and>
    (fst (startOutbounds beh byTag (items @ endpoints) tr) = Done \<or>
      (\<exists>err. fst (startOutbounds beh byTag (items @ endpoints) tr) = Fail [err] \<and>
        (names_cycle (set (items @ endpoints)) err \<or> names_missing (set (items @ endpoints)) byTag err)))"
proof -
  have known: "tags_known (set (items @ endpoints)) byTag"
    using assms(1) unfolding registered_def tags_known_def by auto
  show ?thesis
    using startOutbounds_complete [OF assms(3) known assms(2)] by blast
qed

definition cyclic :: "object list" where
  "cyclic = [sample_object 1 ''a'' [''b''], sample_object 2 ''b'' [''a'']]"

theorem outbound_start_complete_witness:
  "fst (startOutbounds well_behaved [(''a'', cyclic ! 0), (''b'', cyclic ! 1)] (cyclic @ []) []) =
     Fail [E_New ''circular outbound dependency: a -> b -> a''] \<and>
   \<not> (\<exists>order. set order = set (cyclic @ []) \<and> deps_before [] order)"
proof -
  have reg: "registered cyclic [(''a'', cyclic ! 0), (''b'', cyclic ! 1)]"
    by (simp add: registered_def cyclic_def sample_object_def)
  have "fst (startOutbounds well_behaved [(''a'', cyclic ! 0), (''b'', cyclic ! 1)] (cyclic @ []) []) =
     Fail [E_New ''circular outbound dependency: a -> b -> a'']"
    by code_simp
  moreover have "distinct (map ob_Tag (cyclic @ []))"
    by code_simp
  ultimately show ?thesis
    using outbound_start_complete [OF reg, of "[]" well_behaved "[]"] by simp
qed

abbreviation outbound_reach ::
  "behaviour \<Rightarrow> 'opt registry \<Rightarrow> manager \<Rightarrow> (trace \<Rightarrow> object result) \<Rightarrow> string \<Rightarrow> outbound_manager \<Rightarrow> trace \<Rightarrow> bool" where
  "outbound_reach beh reg endpoint fallback defaultTag \<equiv>
     registry_manager.reach (outbound_exec beh reg endpoint) (outbound_allowed reg endpoint)
       (outbound_Initialize fallback (outbound_NewManager defaultTag))"

text \<open>
  C22: A new outbound manager may create, remove and start outbounds in any order, as long as no start
  stage runs a second time or after a later one, an object that the registry constructs has the tag
  asked for and is not in the slice already, and no tag is shared among the outbounds (with the
  fallback, if it is needed) and the endpoints when the \<^verbatim>\<open>Start\<close> stage begins. Then, up to
  \<^verbatim>\<open>Close\<close>, the slice and the map hold the same outbounds: a tag is found exactly for the
  outbound in the slice that has it, and otherwise among the endpoints; and no operation that keeps to
  these conditions panics. Without the last condition a start can panic.
\<close>

theorem outbound_registry:
  assumes "outbound_reach beh reg endpoint fallback defaultTag m tr"
  shows "(outbound_Outbound endpoint m tag = Some ob \<longleftrightarrow>
      ob \<in> set (mgr_items m) \<and> ob_Tag ob = tag \<or>
      tag \<notin> ob_Tag ` set (mgr_items m) \<and> endpoint_Get endpoint tag = Some ob) \<and>
    (outbound_allowed reg endpoint oper m tr \<longrightarrow> \<not> is_panic (fst (outbound_exec beh reg endpoint oper m tr)))"
proof
  show "outbound_Outbound endpoint m tag = Some ob \<longleftrightarrow>
      ob \<in> set (mgr_items m) \<and> ob_Tag ob = tag \<or>
      tag \<notin> ob_Tag ` set (mgr_items m) \<and> endpoint_Get endpoint tag = Some ob"
  proof (cases "map_of (mgr_byTag m) tag")
    case None
    then have "tag \<notin> ob_Tag ` set (mgr_items m)"
      using outbounds.reach_lookup [OF assms] by (metis image_iff option.distinct(1))
    then show ?thesis
      using None by (auto simp: outbound_Outbound_def)
  next
    case (Some x)
    then have "ob \<in> set (mgr_items m) \<and> ob_Tag ob = tag \<longleftrightarrow> ob = x" "tag \<in> ob_Tag ` set (mgr_items m)"
      using outbounds.reach_lookup [OF assms] by (metis image_eqI option.inject)+
    then show ?thesis
      using Some by (simp add: outbound_Outbound_def) blast
  qed
  show "outbound_allowed reg endpoint oper m tr \<longrightarrow> \<not> is_panic (fst (outbound_exec beh reg endpoint oper m tr))"
    using outbounds.reach_safe [OF assms] by blast
qed

definition sample_fallback :: "trace \<Rightarrow> object result" where
  "sample_fallback tr = Inr (sample_object 0 ''direct'' [])"

theorem outbound_registry_witness:
  "\<exists>m tr. outbound_reach well_behaved sample_registry NewManager sample_fallback [] m tr \<and>
     outbound_Outbound NewManager m ''a'' = Some (sample_object 7 ''a'' []) \<and>
     sample_object 7 ''a'' [] \<in> set (mgr_items m) \<and>
     \<not> is_panic (fst (outbound_exec well_behaved sample_registry NewManager (Op_Remove ''a'') m tr))"
proof -
  let ?m0 = "outbound_Initialize sample_fallback (outbound_NewManager [])"
  let ?op = "Op_Create ''a'' ''test'' (7, [])"
  obtain r m tr where step: "outbound_exec well_behaved sample_registry NewManager ?op ?m0 [] = (r, m, tr)"
    by (metis prod.collapse)
  have "outbound_allowed sample_registry NewManager ?op ?m0 []"
    by (simp add: sample_registry_def sample_object_def outbound_Initialize_def outbound_NewManager_def)
  then have reach: "outbound_reach well_behaved sample_registry NewManager sample_fallback [] m (tr @ [])"
    using step by (rule outbounds.reach.step [OF outbounds.reach.new])
  have "m = fst (snd (outbound_exec well_behaved sample_registry NewManager ?op ?m0 []))"
    using step by simp
  then have "outbound_Outbound NewManager m ''a'' = Some (sample_object 7 ''a'' [])"
    by (simp add: outbound_Create_def sample_registry_def outbound_Initialize_def outbound_NewManager_def outbound_put_def
        outbound_Outbound_def)
  then show ?thesis
    using reach outbound_registry [OF reach, of "''a''" "sample_object 7 ''a'' []" "Op_Remove ''a''"]
    by (auto simp: endpoint_Get_def NewManager_def)
qed

text \<open>
  C23: Removing an outbound that others depend on returns an error, but by then the outbound is
  gone: it is neither in the slice nor in the map, and it has not been closed.
\<close>

theorem outbound_Remove_depended:
  assumes "registered (mgr_items m) (mgr_byTag m)" "map_of (mgr_byTag m) tag = Some ob"
    "dependBy (om_dependByTag m) tag = d # ds"
  shows "\<exists>m'. outbound_Remove beh tag m tr =
      (Fail [E_New (''outbound['' @ tag @ ''] is depended by '' @ str_join '', '' (d # ds))], m', tr) \<and>
    map_of (mgr_byTag m') tag = None \<and> ob \<notin> set (mgr_items m') \<and> om_dependByTag m' = om_dependByTag m"
proof -
  obtain rest where "remove_object ob (mgr_items m) = Some rest"
    "rest = filter (\<lambda>x. ob_id x \<noteq> ob_id ob) (mgr_items m)"
    using registered_remove [OF assms(1,2)] by blast
  then show ?thesis
    using assms(2,3) by (auto simp: outbound_Remove_def Let_def delete_conv')
qed

definition two_outbounds :: outbound_manager where
  "two_outbounds =
     (let m0 = outbound_Initialize sample_fallback (outbound_NewManager []);
          m1 = fst (snd (outbound_Create well_behaved sample_registry ''a'' ''test'' (1, []) m0 []))
      in fst (snd (outbound_Create well_behaved sample_registry ''b'' ''test'' (2, [''a'']) m1 [])))"

lemma two_outbounds_eq:
  "two_outbounds =
     \<lparr>mgr_started = False, mgr_stage = StartStateInitialize,
      mgr_items = [sample_object 1 ''a'' [], sample_object 2 ''b'' [''a'']],
      mgr_byTag = [(''a'', sample_object 1 ''a'' []), (''b'', sample_object 2 ''b'' [''a''])],
      om_defaultTag = [], om_dependByTag = [(''a'', [''b''])], om_default = Some (sample_object 1 ''a'' []),
      om_fallback = Some sample_fallback\<rparr>"
  by (simp add: two_outbounds_def outbound_Create_def sample_registry_def outbound_Initialize_def
      outbound_NewManager_def outbound_put_def dependBy_def Let_def sample_object_def)

lemma two_outbounds_registered: "registered (mgr_items two_outbounds) (mgr_byTag two_outbounds)"
  by (simp add: two_outbounds_eq registered_def sample_object_def)

theorem outbound_Remove_depended_witness:
  "\<exists>m'. outbound_Remove well_behaved ''a'' two_outbounds [] =
      (Fail [E_New (''outbound['' @ ''a'' @ ''] is depended by '' @ str_join '', '' [''b''])], m', []) \<and>
    map_of (mgr_byTag m') ''a'' = None \<and> sample_object 1 ''a'' [] \<notin> set (mgr_items m') \<and>
    om_dependByTag m' = om_dependByTag two_outbounds"
  by (rule outbound_Remove_depended [OF two_outbounds_registered])
    (simp_all add: two_outbounds_eq dependBy_def)

text \<open>
  C24: When an outbound is created over the default outbound and its tag is not the configured
  default, it takes the place in the slice and the map, but the default stays the old outbound,
  which a running manager has closed.
\<close>

theorem outbound_Create_stale_default:
  assumes "registered (mgr_items m) (mgr_byTag m)" "map_of (mgr_byTag m) tag = Some old" "om_default m = Some old"
    "om_defaultTag m \<noteq> tag" "reg tr tag ty opts = Inr ob" "ob_id ob \<noteq> ob_id old" "ob_closer old"
    "outbound_Create beh reg tag ty opts m tr = (Done, m', tr')"
  shows "outbound_Default m' = Some old \<and> old \<notin> set (mgr_items m') \<and> map_of (mgr_byTag m') tag = Some ob \<and>
    (mgr_started m \<longrightarrow> (ob_id old, Call_Close) \<in> set tr')"
proof -
  obtain rest where rest: "remove_object old (mgr_items m) = Some rest"
    "rest = filter (\<lambda>x. ob_id x \<noteq> ob_id old) (mgr_items m)"
    using registered_remove [OF assms(1,2)] by blast
  obtain r1 tr1 where r1: "(if mgr_started m then start_stages ''outbound'' beh ob ListStartStages tr else (Done, tr)) = (r1, tr1)"
    by fastforce
  obtain r2 tr2 where r2: "(if mgr_started m then close_object beh old tr1 else (None, tr1)) = (r2, tr2)"
    by fastforce
  have "tag \<noteq> ''''"
    using assms(8) by (auto simp: outbound_Create_def)
  then have "m' = outbound_put tag ob rest m" "tr' = tr2"
    using assms(2,5,8) r1 r2 rest(1) by (cases r1; cases r2; auto simp: outbound_Create_def)+
  moreover have "(ob_id old, Call_Close) \<in> set tr2" if "mgr_started m"
    using r2 that assms(7) by (auto simp: close_object_def do_call_def)
  ultimately show ?thesis
    using assms(3,4,6) rest(2) by (auto simp: outbound_put_def outbound_Default_def update_conv')
qed

definition running_outbounds :: outbound_manager where
  "running_outbounds =
     foldl (\<lambda>m stage. fst (snd (outbound_Start well_behaved NewManager stage m []))) two_outbounds ListStartStages"

lemma running_outbounds_eq:
  "mgr_started running_outbounds" "mgr_items running_outbounds = mgr_items two_outbounds"
  "mgr_byTag running_outbounds = mgr_byTag two_outbounds" "om_default running_outbounds = Some (sample_object 1 ''a'' [])"
  "om_defaultTag running_outbounds = []"
  by code_simp+

theorem outbound_Create_stale_default_witness:
  "\<exists>m' tr'. outbound_Create well_behaved sample_registry ''a'' ''test'' (3, []) running_outbounds [] = (Done, m', tr') \<and>
     outbound_Default m' = Some (sample_object 1 ''a'' []) \<and> sample_object 1 ''a'' [] \<notin> set (mgr_items m') \<and>
     map_of (mgr_byTag m') ''a'' = Some (sample_object 3 ''a'' []) \<and> (1, Call_Close) \<in> set tr'"
proof -
  obtain r m' tr' where c: "outbound_Create well_behaved sample_registry ''a'' ''test'' (3, []) running_outbounds [] = (r, m', tr')"
    by (metis prod.collapse)
  have "fst (outbound_Create well_behaved sample_registry ''a'' ''test'' (3, []) running_outbounds []) = Done"
    by code_simp
  then have "r = Done"
    using c by simp
  moreover have "outbound_Default m' = Some (sample_object 1 ''a'' []) \<and> sample_object 1 ''a'' [] \<notin> set (mgr_items m') \<and>
      map_of (mgr_byTag m') ''a'' = Some (sample_object 3 ''a'' []) \<and>
      (mgr_started running_outbounds \<longrightarrow> (ob_id (sample_object 1 ''a'' []), Call_Close) \<in> set tr')"
    by (rule outbound_Create_stale_default [OF _ _ _ _ _ _ _ c [unfolded \<open>r = Done\<close>]])
      (use two_outbounds_registered in \<open>simp_all add: running_outbounds_eq two_outbounds_eq sample_registry_def sample_object_def\<close>)
  ultimately show ?thesis
    using c running_outbounds_eq(1) by (auto simp: sample_object_def)
qed

lemma start_rounds_Fail:
  assumes "starts_well beh obs" "start_rounds beh byTag obs started tr = (Fail errs, tr')"
  shows "\<exists>st. stuck (set obs) st \<and> \<not> ob_Tag ` set obs \<subseteq> set st"
  using assms
proof (induction beh byTag obs started tr rule: start_rounds.induct)
  case (1 beh byTag obs started tr)
  obtain r1 started1 cont tr1 where pass: "start_pass beh obs started False tr = (r1, started1, cont, tr1)"
    using prod_cases4 by blast
  have r1: "r1 = Done" using start_pass_well [OF "1.prems"(1) pass] .
  note step = "1.prems"(2) [unfolded start_rounds.simps [of beh byTag obs started tr] pass prod.case]
  have len: "length started1 \<noteq> length obs"
    using step r1 by auto
  show ?case
  proof (cases cont)
    case True
    show ?thesis
      by (rule "1.IH" [OF pass [symmetric] refl refl _ len True "1.prems"(1)]) (use step r1 len True in auto)
  next
    case False
    from pass obtain new where "new = []" "started1 = started"
      "new = [] \<longrightarrow> (\<forall>ob\<in>set obs. ob_Tag ob \<in> set started \<or> \<not> set (ob_Dependencies ob) \<subseteq> set started)"
      by (rule start_pass_ends) (use False in auto)
    then have "stuck (set obs) started1"
      by (simp add: stuck_def)
    moreover have "\<not> ob_Tag ` set obs \<subseteq> set started1"
      using step r1 len False find_None_iff [of "\<lambda>ob. ob_Tag ob \<notin> set started1" obs] by auto
    ultimately show ?thesis
      by blast
  qed
qed

text \<open>
  C25: With no outbound and no configured default, the manager creates the fallback outbound. If an
  endpoint has the tag of the fallback, the start ends in a nil dereference, although nothing fails
  and nothing depends on anything.
\<close>

theorem outbound_fallback_tag_clash:
  assumes "mgr_items m = []" "om_defaultTag m = ''''" "om_default m = None" "om_fallback m = Some fallback"
    "\<not> already_started m StartStateStart" "fallback tr = Inr direct" "ep \<in> set (mgr_items endpoint)" "ob_Tag ep = ob_Tag direct"
    "\<forall>ob\<in>set (direct # mgr_items endpoint). ob_Dependencies ob = []" "starts_well beh (direct # mgr_items endpoint)"
  shows "is_panic (fst (outbound_Start beh endpoint StartStateStart m tr))"
proof -
  define obs where "obs = direct # mgr_items endpoint"
  obtain byTag m2 where m2: "choose_default endpoint (m\<lparr>mgr_started := True, mgr_stage := StartStateStart\<rparr>) tr = (Done, m2)"
    "mgr_items m2 = [direct]" "mgr_byTag m2 = byTag"
    using assms(1-4,6) by (simp add: choose_default_def)
  obtain r tr' where r: "startOutbounds beh byTag obs tr = (r, tr')"
    by fastforce
  have "r \<noteq> Done"
  proof
    assume "r = Done"
    then obtain order where order: "set order = set obs" "length order = length obs" "deps_before [] order"
      using startOutbounds_order r by blast
    then have "card (ob_Tag ` set obs) = length obs"
      using deps_before_distinct [OF order(3)] distinct_card [of "map ob_Tag order"] by simp
    then have "distinct (map ob_Tag obs)"
      by (metis card_distinct length_map list.set_map)
    then show False
      using assms(7,8) by (simp add: obs_def) (metis imageI)
  qed
  moreover have "r \<noteq> Fail errs" for errs
  proof
    assume "r = Fail errs"
    then obtain st where "stuck (set obs) st" "\<not> ob_Tag ` set obs \<subseteq> set st"
      using start_rounds_Fail [of beh obs byTag "[]" tr errs tr'] r assms(10) by (auto simp: obs_def startOutbounds_def)
    then show False
      using assms(9) by (auto simp: stuck_def obs_def)
  qed
  ultimately have "is_panic r"
    by (cases r) auto
  then show ?thesis
    using r m2 assms(5) by (simp add: outbound_Start_def Let_def obs_def)
qed

theorem outbound_fallback_tag_clash_witness:
  "is_panic (fst (outbound_Start well_behaved (NewManager\<lparr>mgr_items := [sample_object 9 ''direct'' []]\<rparr>) StartStateStart
     (outbound_Initialize sample_fallback (outbound_NewManager [])) []))"
  by (rule outbound_fallback_tag_clash [of _ sample_fallback _ "sample_object 0 ''direct'' []" "sample_object 9 ''direct'' []"])
    (simp_all add: outbound_Initialize_def outbound_NewManager_def already_started_def sample_fallback_def NewManager_def
      sample_object_def)

subsection \<open>The other managers\<close>

lemma manager_Close_running:
  assumes "registered (mgr_items m) (mgr_byTag m)" "mgr_started m" "map_of (mgr_byTag m) tag = Some ob"
    "manager_Close kind beh m tr = (errs, m', tr')"
  shows "map_of (mgr_byTag m') tag = Some ob \<and> (ob_id ob, Call_Close) \<in> set tr' \<and>
    is_panic (fst (manager_Remove what beh tag m' tr'))"
proof -
  obtain es tr1 where c: "close_each kind (close_method beh) (mgr_items m) tr = (es, tr1)"
    by fastforce
  then have "tr1 = tr @ concat (map (\<lambda>ob. [(ob_id ob, Call_Close)]) (mgr_items m))"
    using close_each_trace [of "close_method beh" "\<lambda>ob. [(ob_id ob, Call_Close)]" kind "mgr_items m" tr]
    by (simp add: close_method_trace)
  moreover have "ob \<in> set (mgr_items m)"
    using assms(1,3) unfolding registered_def by blast
  moreover have "m' = m\<lparr>mgr_started := False, mgr_items := []\<rparr>" "tr' = tr1"
    using assms(2,4) c by (auto simp: manager_Close_def)
  ultimately show ?thesis
    using assms(3) by (auto simp: manager_Remove_def Let_def)
qed

text \<open>
  C26: After a running manager of inbounds has been closed, a tag still finds its closed inbound,
  removing it panics, and an error that closing the inbounds returned has been dropped. The managers
  of endpoints and certificate providers keep their tags in the same way.
\<close>

theorem manager_use_after_Close:
  assumes "registered (mgr_items m) (mgr_byTag m)" "mgr_started m" "map_of (mgr_byTag m) tag = Some ob"
  shows "(case inbound_Close beh m tr of (r, m', tr') \<Rightarrow>
      r = Done \<and> inbound_Get endpoint m' tag = Some ob \<and> (ob_id ob, Call_Close) \<in> set tr' \<and>
      is_panic (fst (inbound_Remove beh tag m' tr'))) \<and>
    (case endpoint_Close beh m tr of (r, m', tr') \<Rightarrow>
      r = Done \<and> endpoint_Get m' tag = Some ob \<and> (ob_id ob, Call_Close) \<in> set tr' \<and>
      is_panic (fst (endpoint_Remove beh tag m' tr'))) \<and>
    (case certificate_Close beh m tr of (r, m', tr') \<Rightarrow>
      certificate_Get m' tag = Some ob \<and> (ob_id ob, Call_Close) \<in> set tr' \<and>
      is_panic (fst (certificate_Remove beh tag m' tr')))"
  using manager_Close_running [OF assms]
  by (auto simp: inbound_Close_def endpoint_Close_def certificate_Close_def inbound_Get_def endpoint_Get_def
      certificate_Get_def manager_ops split: prod.splits)

definition running_inbounds :: manager where
  "running_inbounds = NewManager\<lparr>mgr_started := True, mgr_items := [sample_object 1 ''in'' []],
     mgr_byTag := [(''in'', sample_object 1 ''in'' [])]\<rparr>"

theorem manager_use_after_Close_witness:
  "case inbound_Close well_behaved running_inbounds [] of (r, m', tr') \<Rightarrow>
      r = Done \<and> inbound_Get NewManager m' ''in'' = Some (sample_object 1 ''in'' []) \<and>
      (ob_id (sample_object 1 ''in'' []), Call_Close) \<in> set tr' \<and>
      is_panic (fst (inbound_Remove well_behaved ''in'' m' tr'))"
  by (rule manager_use_after_Close [THEN conjunct1])
    (simp_all add: running_inbounds_def registered_def NewManager_def sample_object_def)

subsection \<open>Services\<close>

text \<open>
  C18: Whatever operations run at once on the service manager, no service is activated after a
  successful call of its \<^verbatim>\<open>Close\<close> method.
\<close>

theorem service_activated_open:
  assumes "system_reach beh s" "sys_trace s = calls @ (i, Call_Activate) # later"
  shows "\<not> closed_ok beh calls i"
  using tracedD(4) [OF reach_traced [OF assms(1)]] activated_open_at [of beh "[]" calls i later] assms(2) by simp

definition service_script :: "action list" where
  "service_script =
     [Call 1 (Rq_Create ''a'' (Inr (sample_object 5 ''a'' []))), Step 0, Step 0, Step 0, Step 0, Step 0,
      Call 1 (Rq_Start StartStateInitialize), Step 0, Step 0, Call 1 (Rq_Start StartStateStart), Step 0, Step 0,
      Call 1 (Rq_Start StartStatePostStart), Step 0, Step 0, Call 1 (Rq_Start StartStateStarted), Step 0, Step 0,
      Call 1 (Rq_Commit None), Step 0, Step 0, Step 0, Step 0]"

definition service_end :: system where
  "service_end = (case run_script well_behaved service_script system_New of Some s \<Rightarrow> s | None \<Rightarrow> system_New)"

lemma service_script_runs:
  "(case run_script well_behaved service_script system_New of None \<Rightarrow> False | Some s \<Rightarrow>
      sys_trace s = [(5, Call_Stage StartStateInitialize), (5, Call_Stage StartStateStart),
        (5, Call_Stage StartStatePostStart), (5, Call_Stage StartStateStarted),
        (5, Call_Validate), (5, Call_Commit), (5, Call_Activate)] \<and>
      sm_runtimeActive (sys_mgr s) \<and> sys_calls s = [] \<and> map ob_id (sm_services (sys_mgr s)) = [5])"
  by code_simp

lemma service_end_reach: "system_reach well_behaved service_end"
  using service_script_runs run_script_reach [OF _ system_reach.new]
  by (auto simp: service_end_def split: option.splits)

lemma service_end_trace:
  "sys_trace service_end = [(5, Call_Stage StartStateInitialize), (5, Call_Stage StartStateStart),
     (5, Call_Stage StartStatePostStart), (5, Call_Stage StartStateStarted),
     (5, Call_Validate), (5, Call_Commit)] @ (5, Call_Activate) # []"
  "sm_runtimeActive (sys_mgr service_end)" "sys_calls service_end = []"
  "map ob_id (sm_services (sys_mgr service_end)) = [5]"
  using service_script_runs by (auto simp: service_end_def split: option.splits)

theorem service_activated_open_witness:
  "system_reach well_behaved service_end \<and>
   \<not> closed_ok well_behaved [(5, Call_Stage StartStateInitialize), (5, Call_Stage StartStateStart),
     (5, Call_Stage StartStatePostStart), (5, Call_Stage StartStateStarted), (5, Call_Validate), (5, Call_Commit)] 5"
  using service_end_reach service_activated_open [OF service_end_reach service_end_trace(1)] by blast

text \<open>
  C19: When the runtime is active and no operation is under way, every registered service that can be
  activated has been.
\<close>

theorem service_runtime_complete:
  assumes "system_reach beh s" "sm_runtimeActive (sys_mgr s)" "sys_calls s = []"
    "ob \<in> set (sm_services (sys_mgr s))" "ob_activator ob"
  shows "(ob_id ob, Call_Activate) \<in> set (sys_trace s)"
  using tracedD(5) [OF reach_traced [OF assms(1)] assms(2,4,5)] assms(3) by simp

lemma service_end_object: "sm_services (sys_mgr service_end) = [sample_object 5 ''a'' []]"
proof -
  have "(case run_script well_behaved service_script system_New of None \<Rightarrow> False | Some s \<Rightarrow>
      sm_services (sys_mgr s) = [sample_object 5 ''a'' []])"
    by code_simp
  then show ?thesis
    by (auto simp: service_end_def split: option.splits)
qed

theorem service_runtime_complete_witness:
  "(ob_id (sample_object 5 ''a'' []), Call_Activate) \<in> set (sys_trace service_end)"
  by (rule service_runtime_complete [OF service_end_reach service_end_trace(2,3)])
    (simp_all add: service_end_object, simp add: sample_object_def)

text \<open>
  C20: While a runtime commit is under way, no service is being created and no start stage runs, no
  second commit runs, and the services it works on are exactly the registered ones; and a
  \<^verbatim>\<open>Close\<close> of the manager that has begun to close services finds no other operation on them
  but removals.
\<close>

theorem service_commit_alone:
  assumes "system_reach beh s" "sys_calls s = before @ (gid, f) # after"
  shows "(is_commit f \<longrightarrow> (\<forall>x\<in>set (before @ after). creating (snd x) = [] \<and> \<not> is_start (snd x) \<and> \<not> is_commit (snd x))) \<and>
    (\<forall>services b. f = Commit_preparing services b \<longrightarrow> services = sm_services (sys_mgr s)) \<and>
    (close_runs f \<longrightarrow> (\<forall>x\<in>set (before @ after). \<exists>ob. snd x = Remove_closing ob))"
proof -
  let ?m = "sys_mgr s"
  have ex: "exclusive ?m (map snd before @ f # map snd after)"
    using reach_exclusive [OF assms(1)] assms(2) by simp
  have other: "snd x \<in> set (map snd before @ map snd after)" if "x \<in> set (before @ after)" for x
    using that by auto
  have "creating (snd x) = [] \<and> \<not> is_start (snd x) \<and> \<not> is_commit (snd x)" if "is_commit f" "x \<in> set (before @ after)" for x
  proof -
    have "sm_runtimeCommitting ?m"
      using exclusive_no_commit [OF ex, of f] that(1) by auto
    then have "idle ?m" "number is_commit (map snd before @ map snd after) = 0"
      using ex that(1) by (auto simp: exclusive_def)
    then show ?thesis
      using exclusive_no_start [OF ex, of "snd x"] other [OF that(2)] unfolding number_0 by auto
  qed
  moreover have "\<exists>ob. snd x = Remove_closing ob" if "close_runs f" "x \<in> set (before @ after)" for x
  proof -
    have q: "idle ?m" "\<not> sm_runtimeCommitting ?m" "sm_closing ?m"
      using ex that(1) close_runs_is_close [OF that(1)] by (auto simp: exclusive_def split: if_splits)
    then have "number is_close (map snd before @ map snd after) = 0"
      using ex close_runs_is_close [OF that(1)] by (auto simp: exclusive_def)
    then have "\<not> is_close (snd x)" "\<not> is_commit (snd x)" "\<not> is_start (snd x)" "creating (snd x) = []"
      using exclusive_no_start [OF ex q(1), of "snd x"] exclusive_no_commit [OF ex q(2), of "snd x"] other [OF that(2)]
      unfolding number_0 by auto
    then show ?thesis
      by (cases "snd x") auto
  qed
  moreover have "current ?m f"
    using reach_located [OF assms(1)] assms(2) by (simp add: located_def)
  then have "\<forall>services b. f = Commit_preparing services b \<longrightarrow> services = sm_services ?m"
    by auto
  ultimately show ?thesis
    by blast
qed

text \<open>
  Two services are created and started. Then one goroutine removes the second service, whose
  \<^verbatim>\<open>Close\<close> method is still running when others commit the runtime and close the manager.
\<close>

definition two_started :: "action list" where
  "two_started =
     [Call 1 (Rq_Create ''a'' (Inr (sample_object 5 ''a'' []))), Step 0, Step 0, Step 0, Step 0, Step 0,
      Call 1 (Rq_Create ''b'' (Inr (sample_object 6 ''b'' []))), Step 0, Step 0, Step 0, Step 0, Step 0,
      Call 1 (Rq_Start StartStateInitialize), Step 0, Step 0, Step 0, Call 1 (Rq_Start StartStateStart), Step 0, Step 0, Step 0,
      Call 1 (Rq_Start StartStatePostStart), Step 0, Step 0, Step 0, Call 1 (Rq_Start StartStateStarted), Step 0, Step 0, Step 0]"

definition commit_running :: system where
  "commit_running =
     (case run_script well_behaved (two_started @ [Call 2 (Rq_Remove ''b''), Call 1 (Rq_Commit None), Call 3 Rq_Close]) system_New of
        Some s \<Rightarrow> s | None \<Rightarrow> system_New)"

definition close_running :: system where
  "close_running =
     (case run_script well_behaved (two_started @ [Call 2 (Rq_Remove ''b''), Call 3 Rq_Close, Step 0]) system_New of
        Some s \<Rightarrow> s | None \<Rightarrow> system_New)"

lemma commit_running_calls:
  "system_reach well_behaved commit_running"
  "sys_calls commit_running =
     [(3, Close_waiting)] @ (1, Commit_preparing [sample_object 5 ''a'' []] None) # [(2, Remove_closing (sample_object 6 ''b'' []))]"
proof -
  have *: "(case run_script well_behaved (two_started @ [Call 2 (Rq_Remove ''b''), Call 1 (Rq_Commit None), Call 3 Rq_Close])
        system_New of None \<Rightarrow> False | Some s \<Rightarrow>
      sys_calls s = [(3, Close_waiting), (1, Commit_preparing [sample_object 5 ''a'' []] None),
        (2, Remove_closing (sample_object 6 ''b'' []))])"
    by code_simp
  then show "system_reach well_behaved commit_running"
    using run_script_reach [OF _ system_reach.new] by (auto simp: commit_running_def split: option.splits)
  show "sys_calls commit_running =
     [(3, Close_waiting)] @ (1, Commit_preparing [sample_object 5 ''a'' []] None) # [(2, Remove_closing (sample_object 6 ''b'' []))]"
    using * by (auto simp: commit_running_def split: option.splits)
qed

lemma close_running_calls:
  "system_reach well_behaved close_running"
  "sys_calls close_running =
     [] @ (3, Close_running [sample_object 5 ''a'' []] []) # [(2, Remove_closing (sample_object 6 ''b'' []))]"
proof -
  have *: "(case run_script well_behaved (two_started @ [Call 2 (Rq_Remove ''b''), Call 3 Rq_Close, Step 0])
        system_New of None \<Rightarrow> False | Some s \<Rightarrow>
      sys_calls s = [(3, Close_running [sample_object 5 ''a'' []] []), (2, Remove_closing (sample_object 6 ''b'' []))])"
    by code_simp
  then show "system_reach well_behaved close_running"
    using run_script_reach [OF _ system_reach.new] by (auto simp: close_running_def split: option.splits)
  show "sys_calls close_running =
     [] @ (3, Close_running [sample_object 5 ''a'' []] []) # [(2, Remove_closing (sample_object 6 ''b'' []))]"
    using * by (auto simp: close_running_def split: option.splits)
qed

theorem service_commit_alone_witness:
  "sys_calls commit_running =
     [(3, Close_waiting)] @ (1, Commit_preparing [sample_object 5 ''a'' []] None) # [(2, Remove_closing (sample_object 6 ''b'' []))] \<and>
   list_all (\<lambda>x. creating (snd x) = [] \<and> \<not> is_start (snd x) \<and> \<not> is_commit (snd x))
     ([(3 :: gid, Close_waiting)] @ [(2, Remove_closing (sample_object 6 ''b'' []))]) \<and>
   [sample_object 5 ''a'' []] = sm_services (sys_mgr commit_running) \<and>
   sys_calls close_running =
     [] @ (3, Close_running [sample_object 5 ''a'' []] []) # [(2, Remove_closing (sample_object 6 ''b'' []))] \<and>
   list_all (\<lambda>x. \<exists>ob. snd x = Remove_closing ob) ([] @ [(2 :: gid, Remove_closing (sample_object 6 ''b'' []))])"
proof -
  note commit = service_commit_alone [OF commit_running_calls]
  note close = service_commit_alone [OF close_running_calls]
  have "list_all (\<lambda>x. creating (snd x) = [] \<and> \<not> is_start (snd x) \<and> \<not> is_commit (snd x))
      ([(3 :: gid, Close_waiting)] @ [(2, Remove_closing (sample_object 6 ''b'' []))])"
    unfolding list_all_iff by (rule commit [THEN conjunct1, THEN mp]) simp
  moreover have "[sample_object 5 ''a'' []] = sm_services (sys_mgr commit_running)"
    using commit [THEN conjunct2, THEN conjunct1] by blast
  moreover have "list_all (\<lambda>x. \<exists>ob. snd x = Remove_closing ob) ([] @ [(2 :: gid, Remove_closing (sample_object 6 ''b'' []))])"
    unfolding list_all_iff by (rule close [THEN conjunct2, THEN conjunct2, THEN mp]) simp
  ultimately show ?thesis
    using commit_running_calls(2) close_running_calls(2) by blast
qed

lemma commit_calls_only [simp]:
  "filter (\<lambda>c. snd c = Call_Commit) (commit_calls obs) = commit_calls obs"
  "filter (\<lambda>c. snd c = Call_Commit) (validate_calls obs) = []"
  by (simp_all add: call_lists)

text \<open>
  C21: \<^verbatim>\<open>PrepareRuntime\<close> commits all services or none. It makes the validating calls in order
  and then the commits in order. On success every one of them has succeeded, and a rollback is
  recorded for each service with a commit method. Otherwise it stops at the first call that fails;
  exactly the services whose commit succeeded before it are rolled back, in reverse order, so the one
  whose commit failed is not.
\<close>

theorem prepare_runtime_atomic:
  assumes "PrepareRuntime beh services before tr = (r, tr')"
  shows "case r of
      Inr rollbacks \<Rightarrow> rollbacks = filter ob_committer (to_commit before services) \<and>
        accepted beh tr (validate_calls services @ commit_calls (to_commit before services)) \<and>
        tr' = tr @ validate_calls services @ commit_calls (to_commit before services)
    | Inl errs \<Rightarrow> \<exists>ok failed committed.
        fails_at beh tr (validate_calls services @ commit_calls (to_commit before services)) ok failed \<and>
        prefix committed (to_commit before services) \<and> filter (\<lambda>c. snd c = Call_Commit) ok = commit_calls committed \<and>
        tr' = tr @ ok @ [failed] @ rollback_calls (rev (filter ob_committer committed))"
proof -
  obtain v tr1 where v: "validate_each beh services tr = (v, tr1)"
    by fastforce
  note validated = validate_each_trace [OF v]
  show ?thesis
  proof (cases v)
    case (Some err)
    then have r: "r = Inl [err]" "tr' = tr1"
      using assms v by (auto simp: PrepareRuntime_def)
    obtain ok failed where f: "fails_at beh tr (validate_calls services) ok failed" "tr' = tr @ ok @ [failed]"
      using validated r(2) unfolding Some by auto
    then have "set ok \<subseteq> set (validate_calls services)"
      unfolding fails_at_def by (meson append_prefixD set_mono_prefix)
    then have "filter (\<lambda>c. snd c = Call_Commit) ok = []"
      by (auto simp: filter_empty_conv validate_calls_def)
    then have "fails_at beh tr (validate_calls services @ commit_calls (to_commit before services)) ok failed \<and>
      prefix [] (to_commit before services) \<and> filter (\<lambda>c. snd c = Call_Commit) ok = commit_calls [] \<and>
      tr' = tr @ ok @ [failed] @ rollback_calls (rev (filter ob_committer []))"
      using f fails_at_prefix by (simp add: call_lists)
    then show ?thesis
      unfolding r(1) sum.case by blast
  next
    case None
    then have tr1: "tr1 = tr @ validate_calls services" "accepted beh tr (validate_calls services)"
      using validated by simp_all
    define first where "first = (case before of None \<Rightarrow> [] | Some ob \<Rightarrow> [ob])"
    have all: "to_commit before services = first @ filter ob_committer services"
      by (simp add: to_commit_def first_def)
    show ?thesis
    proof (cases "\<exists>b err. before = Some b \<and> beh tr1 (ob_id b) Call_Commit = Some err")
      case True
      then obtain b err where b: "before = Some b" "beh tr1 (ob_id b) Call_Commit = Some err" "r = Inl [err]"
        "tr' = tr1 @ commit_calls [b]"
        using assms v None by (auto simp: PrepareRuntime_def do_call_def commit_calls_def)
      have "fails_at beh tr (validate_calls services @ commit_calls (to_commit before services))
          (validate_calls services @ []) (ob_id b, Call_Commit)"
        using b tr1 by (intro fails_at_append) (simp_all add: fails_at_def to_commit_def commit_calls_def)
      then show ?thesis
        unfolding b(3) sum.case
        by (intro exI [of _ "validate_calls services"] exI [of _ "(ob_id b, Call_Commit)"] exI [of _ "[]"])
          (simp add: b tr1(1) commit_calls_def rollback_calls_def)
    next
      case False
      then have first: "accepted beh tr1 (commit_calls first)"
        by (cases before) (auto simp: first_def commit_calls_def)
      have "commit_each beh services (filter ob_committer first) (tr1 @ commit_calls first) = (r, tr')"
        using assms v None False
        by (cases before) (auto simp: PrepareRuntime_def do_call_def commit_calls_def first_def)
      note result = commit_each_trace [OF this]
      have app: "commit_calls (xs @ ys) = commit_calls xs @ commit_calls ys" for xs ys
        by (simp add: commit_calls_def)
      show ?thesis
      proof (cases r)
        case (Inr rbs)
        then show ?thesis
          using result tr1 first by (simp add: all app)
      next
        case (Inl errs)
        then obtain ok failed rest where f: "filter ob_committer services = ok @ failed # rest"
          "accepted beh (tr1 @ commit_calls first) (commit_calls ok)"
          "beh ((tr1 @ commit_calls first) @ commit_calls ok) (ob_id failed) Call_Commit \<noteq> None"
          "tr' = (tr1 @ commit_calls first) @ commit_calls (ok @ [failed]) @ rollback_calls (rev (filter ob_committer first @ ok))"
          using result by auto
        have "ob_committer x" if "x \<in> set ok" for x
          using arg_cong [OF f(1), of set] that by auto
        then have "filter ob_committer ok = ok"
          by (simp add: filter_id_conv)
        moreover have "fails_at beh tr (validate_calls services @ commit_calls (to_commit before services))
            (validate_calls services @ commit_calls (first @ ok)) (ob_id failed, Call_Commit)"
          using f(1-3) tr1 first
          by (intro fails_at_append) (simp_all add: fails_at_def all app commit_calls_def)
        ultimately show ?thesis
          using f(1,4) tr1 unfolding Inl sum.case all
          by (intro exI [of _ "validate_calls services @ commit_calls (first @ ok)"] exI [of _ "(ob_id failed, Call_Commit)"]
              exI [of _ "first @ ok"]) (simp add: app commit_calls_def)
      qed
    qed
  qed
qed

definition failing :: behaviour where
  "failing tr i c = (if i = 3 \<and> c = Call_Commit then Some (E_New ''disk full'') else None)"

definition three_services :: "object list" where
  "three_services = [sample_object 1 ''a'' [], sample_object 2 ''b'' [], sample_object 3 ''c'' []]"

theorem prepare_runtime_atomic_witness:
  "\<exists>ok failed committed.
     fails_at failing [] (validate_calls three_services @ commit_calls (to_commit None three_services)) ok failed \<and>
     prefix committed (to_commit None three_services) \<and> filter (\<lambda>c. snd c = Call_Commit) ok = commit_calls committed \<and>
     [(1, Call_Validate), (2, Call_Validate), (3, Call_Validate), (1, Call_Commit), (2, Call_Commit), (3, Call_Commit),
      (2, Call_Rollback), (1, Call_Rollback)] =
       [] @ ok @ [failed] @ rollback_calls (rev (filter ob_committer committed))"
proof -
  have "snd (PrepareRuntime failing three_services None []) =
      [(1, Call_Validate), (2, Call_Validate), (3, Call_Validate), (1, Call_Commit), (2, Call_Commit), (3, Call_Commit),
       (2, Call_Rollback), (1, Call_Rollback)]" "isl (fst (PrepareRuntime failing three_services None []))"
    by code_simp+
  then obtain errs where r: "PrepareRuntime failing three_services None [] =
      (Inl errs, [(1, Call_Validate), (2, Call_Validate), (3, Call_Validate), (1, Call_Commit), (2, Call_Commit),
        (3, Call_Commit), (2, Call_Rollback), (1, Call_Rollback)])"
    by (cases "PrepareRuntime failing three_services None []") (auto simp: isl_def)
  show ?thesis
    using prepare_runtime_atomic [OF r] by (simp only: sum.case)
qed

text \<open>
  C27: \<^verbatim>\<open>Remove\<close> does not wait for a start stage that is running: there is an interleaving
  in which a service is closed by \<^verbatim>\<open>Remove\<close> and then started by the stage.
\<close>

theorem service_started_after_Remove:
  "\<exists>s. system_reach well_behaved s \<and> closed_ok well_behaved (take 1 (sys_trace s)) 5 \<and>
     sys_trace s = [(5, Call_Close), (5, Call_Stage StartStateInitialize)] \<and> sm_services (sys_mgr s) = []"
proof -
  let ?script = "[Call 1 (Rq_Create ''a'' (Inr (sample_object 5 ''a'' []))), Step 0, Step 0, Step 0, Step 0, Step 0,
    Call 1 (Rq_Start StartStateInitialize), Call 2 (Rq_Remove ''a''), Step 0, Step 0]"
  have *: "(case run_script well_behaved ?script system_New of None \<Rightarrow> False | Some s \<Rightarrow>
      closed_ok well_behaved (take 1 (sys_trace s)) 5 \<and>
      sys_trace s = [(5, Call_Close), (5, Call_Stage StartStateInitialize)] \<and> sm_services (sys_mgr s) = [])"
    by code_simp
  then obtain s where s: "run_script well_behaved ?script system_New = Some s"
    by (auto split: option.splits)
  then have "system_reach well_behaved s"
    using run_script_reach [OF s system_reach.new] by blast
  moreover note * [unfolded s option.case]
  ultimately show ?thesis
    by blast
qed

end
