(* ===== verification/Tls_Hello.thy ===== *)
theory Tls_Hello
  imports Binary_Io
begin

text \<open>
  The TLS ClientHello parser of \<^verbatim>\<open>common/ja3\<close>, which the QUIC sniffer runs on the
  bytes of an unauthenticated peer. Every length field of the input is a word of its width, so
  the arithmetic on them wraps as in the source. Running a function ends with a value, with a
  panic (a slice or index out of range), or not at all.
\<close>

datatype 'a exec = Returns 'a | Panics | Diverges

fun exec_bind :: "'a exec \<Rightarrow> ('a \<Rightarrow> 'b exec) \<Rightarrow> 'b exec" where
  "exec_bind (Returns x) f = f x"
| "exec_bind Panics f = Panics"
| "exec_bind Diverges f = Diverges"

record ClientHello =
  ch_Version :: "16 word"
  ch_CipherSuites :: "16 word list"
  ch_Extensions :: "16 word list"
  ch_EllipticCurves :: "16 word list"
  ch_EllipticCurvePF :: "byte list"
  ch_Versions :: "16 word list"
  ch_SignatureAlgorithms :: "16 word list"
  ch_ServerName :: string

definition hello_zero :: ClientHello where
  "hello_zero = \<lparr>ch_Version = 0, ch_CipherSuites = [], ch_Extensions = [], ch_EllipticCurves = [],
     ch_EllipticCurvePF = [], ch_Versions = [], ch_SignatureAlgorithms = [], ch_ServerName = []\<rparr>"

subsection \<open>Errors\<close>

definition LengthErr :: "nat \<Rightarrow> error" where
  "LengthErr check = E_New (''length check '' @ show_nat check @ '' failed'')"

definition VersionErr :: "nat \<Rightarrow> error" where
  "VersionErr check = E_New (''version check '' @ show_nat check @ '' failed'')"

definition ContentTypeErr :: error where
  "ContentTypeErr = E_New ''content type not matching''"

definition HandshakeTypeErr :: error where
  "HandshakeTypeErr = E_New ''handshake type not matching''"

definition SNITypeErr :: error where
  "SNITypeErr = E_New ''SNI type not supported''"

subsection \<open>Extensions\<close>

text \<open>\<^verbatim>\<open>uint16(bs[i])<<8 | uint16(bs[i+1])\<close>\<close>

definition u16_at :: "byte list \<Rightarrow> nat \<Rightarrow> 16 word" where
  "u16_at bs i = be_word [bs ! i, bs ! Suc i]"

definition tls_version_ok :: "16 word \<Rightarrow> bool" where
  "tls_version_ok v = (v AND 0xFFFC = 0x0300 \<or> v = 0x0304)"

text \<open>
  The loop \<^verbatim>\<open>for i := 0; i < n; i += 2\<close> over \<^verbatim>\<open>binary.BigEndian.Uint16(bs[i:])\<close>,
  which panics when fewer than two bytes are left.
\<close>

fun read_pairs :: "nat \<Rightarrow> byte list \<Rightarrow> 16 word list exec" where
  "read_pairs n bs =
     (if n = 0 then Returns []
      else case bs of
             a # b # bs \<Rightarrow> exec_bind (read_pairs (n - 2) bs) (\<lambda>ws. Returns (be_word [a, b] # ws))
           | _ \<Rightarrow> Panics)"

declare read_pairs.simps [simp del]

text \<open>
  One iteration of the loop of \<^verbatim>\<open>parseExtensions\<close> on an extension of type
  \<open>exType\<close> with the bytes \<open>sex\<close>; the record holds the local variables of that loop.
\<close>

definition parse_extension :: "16 word \<Rightarrow> byte list \<Rightarrow> ClientHello \<Rightarrow> (error option \<times> ClientHello) exec" where
  "parse_extension exType sex acc =
     (if exType = 0 then
        if length sex < 5 then Returns (Some (LengthErr 13), acc)
        else if length (drop 5 sex) \<noteq> unat (u16_at sex 3) then Returns (Some (LengthErr 14), acc)
        else if sex ! 2 = 0 then Returns (None, acc\<lparr>ch_ServerName := string_of (drop 5 sex)\<rparr>)
        else Returns (Some SNITypeErr, acc)
      else if exType = 10 then
        if length sex < 2 then Returns (Some (LengthErr 15), acc)
        else if length (drop 2 sex) \<noteq> unat (u16_at sex 0) then Returns (Some (LengthErr 16), acc\<lparr>ch_EllipticCurves := []\<rparr>)
        else Returns (None, acc\<lparr>ch_EllipticCurves :=
               map (\<lambda>i. u16_at (drop 2 sex) (i * 2)) [0..<unat (u16_at sex 0) div 2]\<rparr>)
      else if exType = 11 then
        if length sex < 1 then Returns (Some (LengthErr 17), acc)
        else if length (drop 1 sex) \<noteq> unat (sex ! 0)
        then Returns (Some (LengthErr 18), acc\<lparr>ch_EllipticCurvePF := replicate (unat (sex ! 0)) 0\<rparr>)
        else Returns (None, acc\<lparr>ch_EllipticCurvePF := drop 1 sex\<rparr>)
      else if exType = 43 then
        if length sex < 1 then Returns (Some (LengthErr 19), acc)
        else exec_bind (read_pairs (unat (sex ! 0)) (drop 1 sex))
               (\<lambda>ws. Returns (None, acc\<lparr>ch_Versions := ch_Versions acc @ ws\<rparr>))
      else if exType = 13 then
        if length sex < 2 then Returns (Some (LengthErr 20), acc)
        else exec_bind (read_pairs (unat (u16_at sex 0)) (drop 2 sex))
               (\<lambda>ws. Returns (None, acc\<lparr>ch_SignatureAlgorithms := ch_SignatureAlgorithms acc @ ws\<rparr>))
      else Returns (None, acc))"

text \<open>
  The loop; \<^verbatim>\<open>exs = exs[4+exLen:]\<close> adds in 16 bits. The first argument bounds the number
  of iterations.
\<close>

fun extensions_loop :: "nat \<Rightarrow> byte list \<Rightarrow> ClientHello \<Rightarrow> (error option \<times> ClientHello) exec" where
  "extensions_loop fuel exs acc =
     (if exs = [] then Returns (None, acc)
      else case fuel of
             0 \<Rightarrow> Diverges
           | Suc fuel \<Rightarrow>
               if length exs < 4 then Returns (Some (LengthErr 11), acc)
               else let exType = u16_at exs 0;
                        exLen = u16_at exs 2;
                        acc = acc\<lparr>ch_Extensions := ch_Extensions acc @ [exType]\<rparr>
                    in if length exs < 4 + unat exLen then Returns (Some (LengthErr 12), acc)
                       else exec_bind (parse_extension exType (take (unat exLen) (drop 4 exs)) acc)
                              (\<lambda>(err, acc). case err of
                                 Some e \<Rightarrow> Returns (Some e, acc)
                               | None \<Rightarrow> extensions_loop fuel (drop (unat (4 + exLen)) exs) acc))"

declare extensions_loop.simps [simp del]

text \<open>
  On success the local variables are assigned to the hello, else it is left alone. An
  iteration that makes progress drops at least four bytes, so the length of the input bounds
  the number of iterations of a loop that ends.
\<close>

definition parseExtensions :: "byte list \<Rightarrow> ClientHello \<Rightarrow> (error option \<times> ClientHello) exec" where
  "parseExtensions exs j =
     (if length exs = 0 then Returns (None, j)
      else if length exs < 2 then Returns (Some (LengthErr 9), j)
      else if length (drop 2 exs) < unat (u16_at exs 0) then Returns (Some (LengthErr 10), j)
      else exec_bind (extensions_loop (length exs) (drop 2 exs) hello_zero) (\<lambda>(err, acc).
             case err of
               Some e \<Rightarrow> Returns (Some e, j)
             | None \<Rightarrow> Returns (None, j\<lparr>ch_ServerName := ch_ServerName acc,
                 ch_Extensions := ch_Extensions acc, ch_EllipticCurves := ch_EllipticCurves acc,
                 ch_EllipticCurvePF := ch_EllipticCurvePF acc, ch_Versions := ch_Versions acc,
                 ch_SignatureAlgorithms := ch_SignatureAlgorithms acc\<rparr>)))"

subsection \<open>Handshake and record\<close>

definition parse_ciphers :: "byte list \<Rightarrow> ClientHello \<Rightarrow> (error option \<times> ClientHello) exec" where
  "parse_ciphers cs j =
     (if length cs < 2 then Returns (Some (LengthErr 6), j)
      else let csLen = unat (u16_at cs 0) in
        if length cs < 2 + csLen + 1 then Returns (Some (LengthErr 7), j)
        else let j = j\<lparr>ch_CipherSuites := map (\<lambda>i. u16_at cs (2 + 2 * i)) [0..<csLen div 2]\<rparr>;
                 compressMethodLen = unat (cs ! (2 + csLen))
             in if length cs < 2 + csLen + 1 + compressMethodLen then Returns (Some (LengthErr 8), j)
                else parseExtensions (drop (2 + csLen + 1 + compressMethodLen) cs) j)"

definition parseHandshake :: "byte list \<Rightarrow> ClientHello \<Rightarrow> (error option \<times> ClientHello) exec" where
  "parseHandshake hs j =
     (if length hs < 6 + 32 + 1 then Returns (Some (LengthErr 3), j)
      else if hs ! 0 \<noteq> 1 then Returns (Some HandshakeTypeErr, j)
      else if length (drop 4 hs) \<noteq> unat (be_word [hs ! 1, hs ! 2, hs ! 3] :: 32 word)
      then Returns (Some (LengthErr 4), j)
      else if \<not> tls_version_ok (u16_at hs 4) then Returns (Some (VersionErr 2), j)
      else let j = j\<lparr>ch_Version := u16_at hs 4\<rparr>;
               sessionIDLen = unat (hs ! 38)
           in if length hs < 6 + 32 + 1 + sessionIDLen then Returns (Some (LengthErr 5), j)
              else parse_ciphers (drop (6 + 32 + 1 + sessionIDLen) hs) j)"

definition parseSegment :: "byte list \<Rightarrow> ClientHello \<Rightarrow> (error option \<times> ClientHello) exec" where
  "parseSegment segment j =
     (if length segment < 5 then Returns (Some (LengthErr 1), j)
      else if segment ! 0 \<noteq> 22 then Returns (Some ContentTypeErr, j)
      else if \<not> tls_version_ok (u16_at segment 1) then Returns (Some (VersionErr 1), j)
      else let segmentLen = unat (u16_at segment 3) in
        if length (drop 5 segment) < segmentLen then Returns (Some (LengthErr 2), j)
        else parseHandshake (take segmentLen (drop 5 segment)) j)"

definition Compute :: "byte list \<Rightarrow> (error option \<times> ClientHello) exec" where
  "Compute payload = parseSegment payload hello_zero"

subsection \<open>The parser always ends\<close>

lemma exec_bind_eq_Diverges [simp]:
  "exec_bind m f = Diverges \<longleftrightarrow> m = Diverges \<or> (\<exists>x. m = Returns x \<and> f x = Diverges)"
  by (cases m) simp_all

lemma exec_bind_eq_Panics [simp]:
  "exec_bind m f = Panics \<longleftrightarrow> m = Panics \<or> (\<exists>x. m = Returns x \<and> f x = Panics)"
  by (cases m) simp_all

lemma exec_bind_eq_Returns [simp]:
  "exec_bind m f = Returns y \<longleftrightarrow> (\<exists>x. m = Returns x \<and> f x = Returns y)"
  by (cases m) simp_all

lemma read_pairs_ends: "read_pairs n bs \<noteq> Diverges"
proof (induction n bs rule: read_pairs.induct)
  case (1 n bs)
  then show ?case by (subst read_pairs.simps) (auto split: list.splits)
qed

lemma parse_extension_ends: "parse_extension t sex acc \<noteq> Diverges"
  by (simp add: parse_extension_def read_pairs_ends Let_def)

text \<open>A length that leaves room for its own header in 65535 bytes does not wrap around.\<close>

lemma skip_no_wrap:
  fixes exLen :: "16 word"
  assumes "4 + unat exLen \<le> n" and "n \<le> 65535"
  shows "unat (4 + exLen) = 4 + unat exLen"
proof -
  have "unat (4 + exLen) = (4 + unat exLen) mod 65536"
    by (simp add: unat_word_ariths)
  then show ?thesis using assms by simp
qed

lemma extensions_loop_ends:
  "length exs \<le> fuel \<Longrightarrow> length exs \<le> 65535 \<Longrightarrow> extensions_loop fuel exs acc \<noteq> Diverges"
proof (induction fuel arbitrary: exs acc)
  case 0
  then show ?case by (simp add: extensions_loop.simps)
next
  case (Suc fuel)
  show ?case
  proof (cases "exs = [] \<or> length exs < 4 \<or> length exs < 4 + unat (u16_at exs 2)")
    case True
    then show ?thesis by (subst extensions_loop.simps) (auto simp: Let_def)
  next
    case False
    then have "4 + unat (u16_at exs 2) \<le> length exs" by simp
    then have skip: "unat (4 + u16_at exs 2) = 4 + unat (u16_at exs 2)"
      using Suc.prems(2) by (rule skip_no_wrap)
    have "extensions_loop fuel (drop (4 + unat (u16_at exs 2)) exs) acc' \<noteq> Diverges" for acc'
      using Suc.prems False by (intro Suc.IH) auto
    with False skip show ?thesis
      by (subst extensions_loop.simps) (auto simp: Let_def parse_extension_ends split: option.splits)
  qed
qed

lemma parseExtensions_ends: "length exs \<le> 65535 \<Longrightarrow> parseExtensions exs j \<noteq> Diverges"
  using extensions_loop_ends [of "drop 2 exs" "length exs" hello_zero]
  by (auto simp: parseExtensions_def split: option.splits)

lemma parseHandshake_ends: "length hs \<le> 65535 \<Longrightarrow> parseHandshake hs j \<noteq> Diverges"
  by (auto simp: parseHandshake_def parse_ciphers_def Let_def parseExtensions_ends)

lemma parseSegment_ends: "parseSegment segment j \<noteq> Diverges"
proof -
  have "unat (u16_at segment 3) < 65536" by (rule order_less_le_trans [OF unsigned_less]) simp
  then show ?thesis
    by (auto simp: parseSegment_def Let_def parseHandshake_ends)
qed

text \<open>Without the bound of the record layer the 16-bit addition wraps and the loop stands still.\<close>

lemma extensions_loop_stuck:
  "length bs = 65532 \<Longrightarrow> extensions_loop fuel ([0xAA, 0xAA, 0xFF, 0xFC] @ bs) acc = Diverges"
proof (induction fuel arbitrary: acc)
  case 0
  then show ?case by (subst extensions_loop.simps) simp
next
  case (Suc fuel)
  have t: "u16_at (0xAA # 0xAA # 0xFF # 0xFC # bs) 0 = 0xAAAA"
    and l: "u16_at (0xAA # 0xAA # 0xFF # 0xFC # bs) 2 = 0xFFFC"
    by (simp_all add: u16_at_def)
  have p: "parse_extension 0xAAAA sex a = Returns (None, a)" for sex a
    by (simp add: parse_extension_def)
  show ?case
    by (subst extensions_loop.simps) (simp add: t l p Let_def Suc.prems Suc.IH [OF Suc.prems, simplified])
qed

subsection \<open>What a well-formed hello is parsed to\<close>

text \<open>
  The wire format of RFC 8446, written down as an encoder: extensions are pairs of a type and
  a body.
\<close>

definition ext_bytes :: "16 word \<times> byte list \<Rightarrow> byte list" where
  "ext_bytes ext = write_be 2 (fst ext) @ write_be 2 (of_nat (length (snd ext)) :: 16 word) @ snd ext"

definition hello_body ::
  "16 word \<Rightarrow> byte list \<Rightarrow> byte list \<Rightarrow> 16 word list \<Rightarrow> byte list \<Rightarrow> (16 word \<times> byte list) list \<Rightarrow> byte list" where
  "hello_body v random sid ciphers methods exts =
     write_be 2 v @ random @ [of_nat (length sid)] @ sid
     @ write_be 2 (of_nat (2 * length ciphers) :: 16 word) @ write_uint16s ciphers
     @ [of_nat (length methods)] @ methods
     @ write_be 2 (of_nat (length (concat (map ext_bytes exts))) :: 16 word) @ concat (map ext_bytes exts)"

definition hello_record :: "16 word \<Rightarrow> byte list \<Rightarrow> byte list" where
  "hello_record rv body =
     [22] @ write_be 2 rv @ write_be 2 (of_nat (4 + length body) :: 16 word)
     @ [1] @ write_be 3 (of_nat (length body) :: 32 word) @ body"

text \<open>The extensions one after the other, without offsets and lengths.\<close>

fun read_extensions :: "(16 word \<times> byte list) list \<Rightarrow> ClientHello \<Rightarrow> (error option \<times> ClientHello) exec" where
  "read_extensions [] acc = Returns (None, acc)"
| "read_extensions ((t, body) # exts) acc =
     exec_bind (parse_extension t body (acc\<lparr>ch_Extensions := ch_Extensions acc @ [t]\<rparr>))
       (\<lambda>(err, acc). case err of Some e \<Rightarrow> Returns (Some e, acc) | None \<Rightarrow> read_extensions exts acc)"

lemma u16_write_be [simp]: "u16_at (write_be 2 w @ bs) 0 = w"
proof -
  have "u16_at (write_be 2 w @ bs) 0 = be_word (write_be 2 w)"
    by (simp add: u16_at_def numeral_2_eq_2)
  then show ?thesis by (simp add: be_word_write_be take_bit_word_eq_self)
qed

lemma u16_at_shift: "u16_at bs (i + n) = u16_at (drop n bs) i" if "Suc (i + n) < length bs"
  using that by (simp add: u16_at_def add.commute)

lemma u16_at_drop: "n \<le> length bs \<Longrightarrow> u16_at bs n = u16_at (drop n bs) 0" if "Suc n < length bs"
  using that by (simp add: u16_at_def)

lemma unat_of_nat_16: "n \<le> 65535 \<Longrightarrow> unat (of_nat n :: 16 word) = n"
  by (simp add: unat_of_nat take_bit_eq_mod)

lemma unat_of_nat_8: "n \<le> 255 \<Longrightarrow> unat (of_nat n :: byte) = n"
  by (simp add: unat_of_nat take_bit_eq_mod)

lemma unat_take_bit_24: "n < 2 ^ 24 \<Longrightarrow> unat (take_bit 24 (of_nat n :: 32 word)) = n"
  by (simp only: unsigned_take_bit_eq unat_of_nat) (simp add: take_bit_nat_eq_self)

lemma drop_prefix: "length p = n \<Longrightarrow> drop n (p @ q) = q"
  by simp

lemma take_prefix: "length p = n \<Longrightarrow> take n (p @ q) = p"
  by simp

lemma length_ext_bytes [simp]: "length (ext_bytes ext) = 4 + length (snd ext)"
  by (simp add: ext_bytes_def)

lemma extensions_loop_encoded:
  "length (concat (map ext_bytes exts)) \<le> fuel \<Longrightarrow> length (concat (map ext_bytes exts)) \<le> 65535 \<Longrightarrow>
   extensions_loop fuel (concat (map ext_bytes exts)) acc = read_extensions exts acc"
proof (induction exts arbitrary: fuel acc)
  case Nil
  then show ?case by (simp add: extensions_loop.simps)
next
  case (Cons ext exts)
  obtain t body where ext: "ext = (t, body)" by (cases ext)
  obtain n where n: "fuel = Suc n" using Cons.prems(1) by (cases fuel) simp_all
  let ?rest = "concat (map ext_bytes exts)"
  let ?exs = "ext_bytes ext @ ?rest"
  have body: "length body \<le> 65531" using Cons.prems(2) by (simp add: ext)
  have type: "u16_at ?exs 0 = t" by (simp add: ext ext_bytes_def)
  have "u16_at ?exs 2 = u16_at (drop 2 ?exs) 0" by (rule u16_at_drop) (simp_all add: ext)
  also have "\<dots> = of_nat (length body)" by (simp add: ext ext_bytes_def)
  finally have len: "u16_at ?exs 2 = of_nat (length body)" .
  have ulen: "unat (of_nat (length body) :: 16 word) = length body"
    using body by (simp add: unat_of_nat_16)
  have skip: "unat (4 + of_nat (length body) :: 16 word) = 4 + length body"
    using skip_no_wrap [of "of_nat (length body)" 65535] body ulen by simp
  have sex: "take (length body) (drop 4 ?exs) = body" by (simp add: ext ext_bytes_def)
  have rest: "drop (4 + length body) ?exs = ?rest" by (simp add: ext ext_bytes_def)
  have IH: "extensions_loop n ?rest acc' = read_extensions exts acc'" for acc'
    using Cons.prems n by (intro Cons.IH) (simp_all add: ext)
  have "?exs \<noteq> []" by (simp add: ext ext_bytes_def numeral_2_eq_2)
  moreover have "\<not> length ?exs < 4" "\<not> length ?exs < 4 + length body" by (simp_all add: ext)
  ultimately have "extensions_loop fuel ?exs acc =
     exec_bind (parse_extension t body (acc\<lparr>ch_Extensions := ch_Extensions acc @ [t]\<rparr>))
       (\<lambda>(err, acc). case err of Some e \<Rightarrow> Returns (Some e, acc) | None \<Rightarrow> extensions_loop n ?rest acc)"
    unfolding n by (subst extensions_loop.simps) (simp only: type len ulen skip sex rest Let_def if_False nat.case)
  moreover have "(\<lambda>(err, acc). case err of Some e \<Rightarrow> Returns (Some e, acc) | None \<Rightarrow> extensions_loop n ?rest acc)
      = (\<lambda>(err, acc). case err of Some e \<Rightarrow> Returns (Some e, acc) | None \<Rightarrow> read_extensions exts acc)"
    by (simp add: IH fun_eq_iff split: option.split)
  ultimately show ?case by (simp add: ext)
qed

lemma parseExtensions_encoded:
  assumes "length (concat (map ext_bytes exts)) \<le> 65533"
  shows "parseExtensions (write_be 2 (of_nat (length (concat (map ext_bytes exts))) :: 16 word)
           @ concat (map ext_bytes exts)) j =
     exec_bind (read_extensions exts hello_zero) (\<lambda>(err, acc).
       case err of
         Some e \<Rightarrow> Returns (Some e, j)
       | None \<Rightarrow> Returns (None, j\<lparr>ch_ServerName := ch_ServerName acc,
           ch_Extensions := ch_Extensions acc, ch_EllipticCurves := ch_EllipticCurves acc,
           ch_EllipticCurvePF := ch_EllipticCurvePF acc, ch_Versions := ch_Versions acc,
           ch_SignatureAlgorithms := ch_SignatureAlgorithms acc\<rparr>))"
proof -
  let ?exs = "concat (map ext_bytes exts)"
  have "extensions_loop (2 + length ?exs) ?exs hello_zero = read_extensions exts hello_zero"
    using assms by (intro extensions_loop_encoded) simp_all
  moreover have "unat (of_nat (length ?exs) :: 16 word) = length ?exs"
    using assms by (simp add: unat_of_nat_16)
  ultimately show ?thesis
    by (simp add: parseExtensions_def)
qed

lemma u16_at_uint16s:
  "i < length ws \<Longrightarrow> u16_at (write_uint16s ws @ bs) (2 * i) = ws ! i"
proof (induction ws arbitrary: i)
  case (Cons w ws)
  show ?case
  proof (cases i)
    case 0
    then show ?thesis by (simp add: write_uint16s_def)
  next
    case (Suc j)
    have "u16_at (write_be 2 w @ write_uint16s ws @ bs) (2 * j + 2) = u16_at (write_uint16s ws @ bs) (2 * j)"
      using u16_at_shift [of "2 * j" 2 "write_be 2 w @ write_uint16s ws @ bs"] Cons.prems Suc
      by (simp add: write_uint16s_def length_concat sum_list_triv o_def)
    then show ?thesis using Cons Suc by (simp add: write_uint16s_def)
  qed
qed simp

lemma length_uint16s [simp]: "length (write_uint16s ws) = 2 * length ws"
  by (induction ws) (simp_all add: write_uint16s_def)

lemma parse_ciphers_encoded:
  assumes ciphers: "2 * length ciphers \<le> 65535" and methods: "length methods \<le> 255"
  shows "parse_ciphers (write_be 2 (of_nat (2 * length ciphers) :: 16 word) @ write_uint16s ciphers
           @ [of_nat (length methods)] @ methods @ exs) j =
     parseExtensions exs (j\<lparr>ch_CipherSuites := ciphers\<rparr>)"
proof -
  let ?cs = "write_be 2 (of_nat (2 * length ciphers) :: 16 word) @ write_uint16s ciphers
    @ [of_nat (length methods)] @ methods @ exs"
  let ?n = "2 * length ciphers"
  have len: "unat (u16_at ?cs 0) = ?n"
    using ciphers by (simp only: u16_write_be unat_of_nat_16)
  have "u16_at ?cs (2 + 2 * i) = ciphers ! i" if "i < length ciphers" for i
    using u16_at_shift [of "2 * i" 2 ?cs] u16_at_uint16s [OF that] that by (simp add: add.commute)
  then have suites: "map (\<lambda>i. u16_at ?cs (2 + 2 * i)) [0..<?n div 2] = ciphers"
    by (intro nth_equalityI) simp_all
  have "?cs ! (2 + ?n) = of_nat (length methods)"
    by (simp add: nth_append)
  then have mlen: "unat (?cs ! (2 + ?n)) = length methods"
    using methods by (simp only: unat_of_nat_8)
  have rest: "drop (2 + ?n + 1 + length methods) ?cs = exs" by simp
  have "\<not> length ?cs < 2" "\<not> length ?cs < 2 + ?n + 1" "\<not> length ?cs < 2 + ?n + 1 + length methods" by simp_all
  then show ?thesis
    unfolding parse_ciphers_def Let_def len suites mlen rest by (simp only: if_False)
qed

lemma parseHandshake_encoded:
  assumes v: "tls_version_ok v" and random: "length random = 32" and sid: "length sid \<le> 255"
    and len: "length (write_be 2 v @ random @ [of_nat (length sid)] @ sid @ cs) < 2 ^ 24"
  shows "parseHandshake ([1] @ write_be 3 (of_nat (length (write_be 2 v @ random @ [of_nat (length sid)] @ sid @ cs)) :: 32 word)
           @ write_be 2 v @ random @ [of_nat (length sid)] @ sid @ cs) j =
     parse_ciphers cs (j\<lparr>ch_Version := v\<rparr>)"
proof -
  let ?body = "write_be 2 v @ random @ [of_nat (length sid)] @ sid @ cs"
  let ?w = "of_nat (length ?body) :: 32 word"
  let ?hs = "[1] @ write_be 3 ?w @ ?body"
  have "be_word [?hs ! 1, ?hs ! 2, ?hs ! 3] = be_word (write_be 3 ?w)"
    by (simp add: numeral_3_eq_3)
  also have "\<dots> = take_bit 24 ?w" by (simp add: be_word_write_be)
  also have "unat \<dots> = length ?body"
    using len by (rule unat_take_bit_24)
  finally have hlen: "unat (be_word [?hs ! 1, ?hs ! 2, ?hs ! 3] :: 32 word) = length (drop 4 ?hs)"
    by simp
  have "u16_at ?hs 4 = u16_at (drop 4 ?hs) 0" by (rule u16_at_drop) (simp_all add: random)
  then have ver: "u16_at ?hs 4 = v" by simp
  have "?hs ! 38 = of_nat (length sid)"
    using random by (simp add: nth_append nth_Cons')
  then have slen: "unat (?hs ! 38) = length sid"
    using sid by (simp only: unat_of_nat_8)
  have "drop (6 + 32 + 1 + length sid)
      (([1] @ write_be 3 ?w @ write_be 2 v @ random @ [of_nat (length sid)] @ sid) @ cs) = cs"
    using random by (intro drop_prefix) simp
  then have rest: "drop (6 + 32 + 1 + length sid) ?hs = cs" by (simp only: append_assoc)
  have "\<not> length ?hs < 6 + 32 + 1" "\<not> length ?hs < 6 + 32 + 1 + length sid" "\<not> ?hs ! 0 \<noteq> 1"
    using random by simp_all
  then show ?thesis
    unfolding parseHandshake_def Let_def hlen ver slen rest if_False by (simp add: v)
qed

lemma hello_assign:
  "hello_zero\<lparr>ch_Version := v, ch_CipherSuites := ciphers, ch_ServerName := ch_ServerName acc,
     ch_Extensions := ch_Extensions acc, ch_EllipticCurves := ch_EllipticCurves acc,
     ch_EllipticCurvePF := ch_EllipticCurvePF acc, ch_Versions := ch_Versions acc,
     ch_SignatureAlgorithms := ch_SignatureAlgorithms acc\<rparr>
   = acc\<lparr>ch_Version := v, ch_CipherSuites := ciphers\<rparr>" for acc :: ClientHello
  by (cases acc) (simp add: hello_zero_def)

lemma Compute_encoded:
  assumes "tls_version_ok rv" and "tls_version_ok v" and "length random = 32" and "length sid \<le> 255"
    and "length methods \<le> 255" and "length (hello_body v random sid ciphers methods exts) \<le> 65531"
  shows "Compute (hello_record rv (hello_body v random sid ciphers methods exts) @ rest) =
     exec_bind (read_extensions exts hello_zero) (\<lambda>(err, acc).
       case err of
         Some e \<Rightarrow> Returns (Some e, hello_zero\<lparr>ch_Version := v, ch_CipherSuites := ciphers\<rparr>)
       | None \<Rightarrow> Returns (None, acc\<lparr>ch_Version := v, ch_CipherSuites := ciphers\<rparr>))"
proof -
  let ?body = "hello_body v random sid ciphers methods exts"
  let ?hs = "[1] @ write_be 3 (of_nat (length ?body) :: 32 word) @ ?body"
  let ?seg = "hello_record rv ?body @ rest"
  have hs: "length ?hs = 4 + length ?body" by simp
  have "u16_at ?seg 1 = u16_at (drop 1 ?seg) 0" by (rule u16_at_drop) (simp_all add: hello_record_def)
  then have rv: "u16_at ?seg 1 = rv" by (simp add: hello_record_def)
  have "u16_at ?seg 3 = u16_at (drop 3 ?seg) 0" by (rule u16_at_drop) (simp_all add: hello_record_def)
  also have "\<dots> = of_nat (4 + length ?body)" by (simp add: hello_record_def del: of_nat_add)
  finally have slen: "unat (u16_at ?seg 3) = length ?hs"
    using assms(6) hs by (simp only: unat_of_nat_16)
  have payload: "drop 5 ?seg = ?hs @ rest" by (simp add: hello_record_def)
  have "\<not> length ?seg < 5" "\<not> ?seg ! 0 \<noteq> 22" by (simp_all add: hello_record_def)
  moreover have "\<not> length (?hs @ rest) < length ?hs" by simp
  moreover have "take (length ?hs) (?hs @ rest) = ?hs" by (rule take_prefix) (rule refl)
  ultimately have "Compute ?seg = parseHandshake ?hs hello_zero"
    unfolding Compute_def parseSegment_def Let_def rv slen payload
    by (simp only: if_False assms(1) not_True_eq_False)
  also have "\<dots> = parse_ciphers (write_be 2 (of_nat (2 * length ciphers) :: 16 word) @ write_uint16s ciphers
           @ [of_nat (length methods)] @ methods
           @ write_be 2 (of_nat (length (concat (map ext_bytes exts))) :: 16 word) @ concat (map ext_bytes exts))
         (hello_zero\<lparr>ch_Version := v\<rparr>)"
    unfolding hello_body_def using assms by (intro parseHandshake_encoded) (simp_all add: hello_body_def)
  also have "\<dots> = parseExtensions (write_be 2 (of_nat (length (concat (map ext_bytes exts))) :: 16 word)
           @ concat (map ext_bytes exts)) (hello_zero\<lparr>ch_Version := v, ch_CipherSuites := ciphers\<rparr>)"
    using assms by (subst parse_ciphers_encoded) (simp_all add: hello_body_def)
  also have "\<dots> = exec_bind (read_extensions exts hello_zero) (\<lambda>(err, acc).
       case err of
         Some e \<Rightarrow> Returns (Some e, hello_zero\<lparr>ch_Version := v, ch_CipherSuites := ciphers\<rparr>)
       | None \<Rightarrow> Returns (None, acc\<lparr>ch_Version := v, ch_CipherSuites := ciphers\<rparr>))"
    using assms(6) by (subst parseExtensions_encoded, simp add: hello_body_def)
      (cases "read_extensions exts hello_zero", auto simp: hello_assign split: option.split)
  finally show ?thesis .
qed

subsection \<open>Extensions that panic\<close>

text \<open>
  The lists of supported versions and signature algorithms are read up to their declared
  length without a look at the bytes that are there, two bytes at a time: for an odd length the
  last entry takes one byte more than declared.
\<close>

definition ext_lies :: "16 word \<Rightarrow> byte list \<Rightarrow> bool" where
  "ext_lies t body \<longleftrightarrow>
     t = 43 \<and> 1 \<le> length body \<and> length body - 1 < 2 * ((unat (body ! 0) + 1) div 2) \<or>
     t = 13 \<and> 2 \<le> length body \<and> length body - 2 < 2 * ((unat (u16_at body 0) + 1) div 2)"

text \<open>The length and type checks of the parser.\<close>

definition ext_ok :: "16 word \<Rightarrow> byte list \<Rightarrow> bool" where
  "ext_ok t body \<longleftrightarrow>
     (t = 0 \<longrightarrow> 5 \<le> length body \<and> length body - 5 = unat (u16_at body 3) \<and> body ! 2 = 0) \<and>
     (t = 10 \<longrightarrow> 2 \<le> length body \<and> length body - 2 = unat (u16_at body 0)) \<and>
     (t = 11 \<longrightarrow> length body = 1 + unat (body ! 0)) \<and>
     (t = 43 \<longrightarrow> 1 \<le> length body) \<and> (t = 13 \<longrightarrow> 2 \<le> length body) \<and> \<not> ext_lies t body"

lemma read_pairs_Panics: "read_pairs n bs = Panics \<longleftrightarrow> length bs < 2 * ((n + 1) div 2)"
proof (induction n bs rule: read_pairs.induct)
  case (1 n bs)
  show ?case
  proof (cases "n = 0")
    case False
    consider "length bs < 2" | a b cs where "bs = a # b # cs"
      by (cases bs; cases "tl bs") auto
    then show ?thesis
    proof cases
      case 1
      moreover have "1 < 2 * ((n + 1) div 2)" using False by presburger
      ultimately show ?thesis using False by (subst read_pairs.simps) (auto split: list.splits)
    next
      case (2 a b cs)
      have "read_pairs (n - 2) cs = Panics \<longleftrightarrow> length cs < 2 * ((n - 2 + 1) div 2)"
        using 1 [of a "b # cs" b cs] False 2 by simp
      moreover have "length cs < 2 * ((n - 2 + 1) div 2) \<longleftrightarrow> length cs + 2 < 2 * ((n + 1) div 2)"
        using False by presburger
      ultimately show ?thesis using False 2 by (subst read_pairs.simps) simp
    qed
  qed (subst read_pairs.simps, simp)
qed

lemma read_pairs_Returns: "(\<exists>ws. read_pairs n bs = Returns ws) \<longleftrightarrow> \<not> length bs < 2 * ((n + 1) div 2)"
  using read_pairs_ends [of n bs] read_pairs_Panics [of n bs] by (cases "read_pairs n bs") simp_all

lemma parse_extension_Panics: "parse_extension t body acc = Panics \<longleftrightarrow> ext_lies t body"
  by (cases "t = 43"; cases "t = 13")
    (simp_all add: parse_extension_def ext_lies_def read_pairs_Panics Suc_le_eq not_less)

lemma parse_extension_ok:
  "ext_ok t body \<longleftrightarrow> (\<exists>acc'. parse_extension t body acc = Returns (None, acc'))"
proof -
  consider "t = 43" | "t = 13" | "t \<noteq> 43" "t \<noteq> 13" by blast
  then show ?thesis
  proof cases
    case 1
    then show ?thesis
      using read_pairs_Returns [of "unat (body ! 0)" "drop 1 body"]
      by (cases "body = []") (simp_all add: ext_ok_def ext_lies_def parse_extension_def Suc_le_eq)
  next
    case 2
    then show ?thesis
      using read_pairs_Returns [of "unat (u16_at body 0)" "drop 2 body"]
      by (cases "length body < 2") (simp_all add: ext_ok_def ext_lies_def parse_extension_def)
  next
    case 3
    moreover have "length body = 1 + n \<longleftrightarrow> body \<noteq> [] \<and> length body - 1 = n" for n
      by (cases body) auto
    ultimately show ?thesis
      by (cases "t = 0"; cases "t = 10"; cases "t = 11")
        (auto simp: ext_ok_def ext_lies_def parse_extension_def not_less)
  qed
qed

text \<open>The first extension that fails a check decides.\<close>

definition panicking :: "(16 word \<times> byte list) list \<Rightarrow> bool" where
  "panicking exts \<longleftrightarrow> (case dropWhile (\<lambda>(t, body). ext_ok t body) exts of
     [] \<Rightarrow> False | (t, body) # _ \<Rightarrow> ext_lies t body)"

lemma read_extensions_Panics: "read_extensions exts acc = Panics \<longleftrightarrow> panicking exts"
proof (induction exts arbitrary: acc)
  case Nil
  then show ?case by (simp add: panicking_def)
next
  case (Cons ext exts)
  obtain t body where ext: "ext = (t, body)" by (cases ext)
  let ?acc = "acc\<lparr>ch_Extensions := ch_Extensions acc @ [t]\<rparr>"
  show ?case
  proof (cases "ext_ok t body")
    case True
    then obtain acc' where "parse_extension t body ?acc = Returns (None, acc')"
      using parse_extension_ok by blast
    then show ?thesis using True by (simp add: ext Cons.IH panicking_def)
  next
    case False
    then have "parse_extension t body ?acc \<noteq> Returns (None, acc')" for acc'
      using parse_extension_ok by blast
    then have "read_extensions (ext # exts) acc = Panics \<longleftrightarrow> parse_extension t body ?acc = Panics"
      by (auto simp: ext split: option.split)
    then show ?thesis using False by (simp add: ext parse_extension_Panics panicking_def)
  qed
qed

subsection \<open>The extensions of interest\<close>

text \<open>The bodies of RFC 6066 and RFC 8446 and what they add to the hello.\<close>

datatype hello_ext = Server_Name string | Supported_Groups "16 word list" | Point_Formats "byte list"
  | Supported_Versions "16 word list" | Signature_Algorithms "16 word list" | Unknown_Ext "16 word" "byte list"

fun hello_ext_type :: "hello_ext \<Rightarrow> 16 word" where
  "hello_ext_type (Server_Name _) = 0"
| "hello_ext_type (Supported_Groups _) = 10"
| "hello_ext_type (Point_Formats _) = 11"
| "hello_ext_type (Supported_Versions _) = 43"
| "hello_ext_type (Signature_Algorithms _) = 13"
| "hello_ext_type (Unknown_Ext t _) = t"

fun hello_ext_body :: "hello_ext \<Rightarrow> byte list" where
  "hello_ext_body (Server_Name name) =
     write_be 2 (of_nat (3 + length name) :: 16 word) @ [0] @ write_be 2 (of_nat (length name) :: 16 word) @ bytes_of name"
| "hello_ext_body (Supported_Groups ws) = write_be 2 (of_nat (2 * length ws) :: 16 word) @ write_uint16s ws"
| "hello_ext_body (Point_Formats bs) = of_nat (length bs) # bs"
| "hello_ext_body (Supported_Versions ws) = of_nat (2 * length ws) # write_uint16s ws"
| "hello_ext_body (Signature_Algorithms ws) = write_be 2 (of_nat (2 * length ws) :: 16 word) @ write_uint16s ws"
| "hello_ext_body (Unknown_Ext t body) = body"

fun hello_ext_wf :: "hello_ext \<Rightarrow> bool" where
  "hello_ext_wf (Server_Name name) = (length name \<le> 65530)"
| "hello_ext_wf (Supported_Groups ws) = (length ws \<le> 32766)"
| "hello_ext_wf (Point_Formats bs) = (length bs \<le> 255)"
| "hello_ext_wf (Supported_Versions ws) = (length ws \<le> 127)"
| "hello_ext_wf (Signature_Algorithms ws) = (length ws \<le> 32766)"
| "hello_ext_wf (Unknown_Ext t body) = (t \<notin> {0, 10, 11, 43, 13})"

fun hello_add :: "ClientHello \<Rightarrow> hello_ext \<Rightarrow> ClientHello" where
  "hello_add h (Server_Name name) = h\<lparr>ch_Extensions := ch_Extensions h @ [0], ch_ServerName := name\<rparr>"
| "hello_add h (Supported_Groups ws) = h\<lparr>ch_Extensions := ch_Extensions h @ [10], ch_EllipticCurves := ws\<rparr>"
| "hello_add h (Point_Formats bs) = h\<lparr>ch_Extensions := ch_Extensions h @ [11], ch_EllipticCurvePF := bs\<rparr>"
| "hello_add h (Supported_Versions ws) = h\<lparr>ch_Extensions := ch_Extensions h @ [43], ch_Versions := ch_Versions h @ ws\<rparr>"
| "hello_add h (Signature_Algorithms ws) =
     h\<lparr>ch_Extensions := ch_Extensions h @ [13], ch_SignatureAlgorithms := ch_SignatureAlgorithms h @ ws\<rparr>"
| "hello_add h (Unknown_Ext t body) = h\<lparr>ch_Extensions := ch_Extensions h @ [t]\<rparr>"

lemma read_pairs_uint16s: "read_pairs (2 * length ws) (write_uint16s ws) = Returns ws"
proof (induction ws)
  case Nil
  then show ?case by (simp add: read_pairs.simps)
next
  case (Cons w ws)
  obtain a b where ab: "write_be 2 w = [a, b]" by (simp add: numeral_2_eq_2)
  have "be_word [a, b] = w"
    using be_word_write_be [of 2 w] by (simp add: ab take_bit_word_eq_self)
  then show ?case
    using Cons by (subst read_pairs.simps) (simp add: write_uint16s_def ab)
qed

lemma parse_extension_encoded:
  assumes "hello_ext_wf ext"
  shows "parse_extension (hello_ext_type ext) (hello_ext_body ext)
      (h\<lparr>ch_Extensions := ch_Extensions h @ [hello_ext_type ext]\<rparr>) = Returns (None, hello_add h ext)"
proof (cases ext)
  case (Server_Name name)
  let ?body = "hello_ext_body ext"
  have "u16_at ?body 3 = u16_at (drop 3 ?body) 0" by (rule u16_at_drop) (simp_all add: Server_Name)
  also have "\<dots> = of_nat (length name)" by (simp add: Server_Name)
  finally have "unat (u16_at ?body 3) = length name" using assms Server_Name by (simp add: unat_of_nat_16)
  moreover have "?body ! 2 = 0" by (simp add: Server_Name nth_append)
  moreover have "drop 5 ?body = bytes_of name" by (simp add: Server_Name)
  moreover have "length ?body = 5 + length name" by (simp add: Server_Name)
  ultimately show ?thesis by (simp only: parse_extension_def) (simp add: Server_Name del: hello_ext_body.simps)
next
  case (Supported_Groups ws)
  let ?body = "hello_ext_body ext"
  have len: "unat (u16_at ?body 0) = 2 * length ws"
    using assms Supported_Groups by (simp add: unat_of_nat_16 del: of_nat_mult)
  have rest: "drop 2 ?body = write_uint16s ws" by (simp add: Supported_Groups)
  have "u16_at (write_uint16s ws) (i * 2) = ws ! i" if "i < length ws" for i
    using u16_at_uint16s [OF that, of "[]"] by (simp add: mult.commute)
  then have "map (\<lambda>i. u16_at (write_uint16s ws) (i * 2)) [0..<2 * length ws div 2] = ws"
    by (intro nth_equalityI) simp_all
  moreover have "length ?body = 2 + 2 * length ws" by (simp add: Supported_Groups)
  ultimately show ?thesis
    by (simp only: parse_extension_def len rest) (simp add: Supported_Groups del: hello_ext_body.simps)
next
  case (Point_Formats bs)
  then show ?thesis using assms by (simp add: parse_extension_def unat_of_nat_8)
next
  case (Supported_Versions ws)
  then have "unat (of_nat (2 * length ws) :: byte) = 2 * length ws"
    using assms by (intro unat_of_nat_8) simp
  then show ?thesis
    by (simp add: Supported_Versions parse_extension_def read_pairs_uint16s del: of_nat_mult)
next
  case (Signature_Algorithms ws)
  then have "unat (of_nat (2 * length ws) :: 16 word) = 2 * length ws"
    using assms by (intro unat_of_nat_16) simp
  then show ?thesis
    by (simp add: Signature_Algorithms parse_extension_def read_pairs_uint16s del: of_nat_mult)
next
  case (Unknown_Ext t body)
  then show ?thesis using assms by (simp add: parse_extension_def)
qed

lemma read_extensions_encoded:
  "list_all hello_ext_wf exts \<Longrightarrow>
   read_extensions (map (\<lambda>ext. (hello_ext_type ext, hello_ext_body ext)) exts) h
     = Returns (None, foldl hello_add h exts)"
  by (induction exts arbitrary: h) (simp_all add: parse_extension_encoded)

subsection \<open>Comparing and printing\<close>

definition sortedExtensions :: "ClientHello \<Rightarrow> 16 word list" where
  "sortedExtensions j = sort (ch_Extensions j)"

definition ClientHello_Equals :: "ClientHello \<Rightarrow> ClientHello \<Rightarrow> bool \<Rightarrow> bool" where
  "ClientHello_Equals j another ignoreExtensionsSequence =
     (if ch_Version j \<noteq> ch_Version another then False
      else if ch_CipherSuites j \<noteq> ch_CipherSuites another then False
      else if \<not> ignoreExtensionsSequence \<and> ch_Extensions j \<noteq> ch_Extensions another then False
      else if ignoreExtensionsSequence \<and> ch_Extensions j \<noteq> sortedExtensions another then False
      else if ch_EllipticCurves j \<noteq> ch_EllipticCurves another then False
      else if ch_EllipticCurvePF j \<noteq> ch_EllipticCurvePF another then False
      else if ch_SignatureAlgorithms j \<noteq> ch_SignatureAlgorithms another then False
      else True)"

definition GreaseBitmask :: "16 word" where
  "GreaseBitmask = 0x0F0F"

text \<open>One of the three comma-terminated lists of \<^verbatim>\<open>marshalJA3\<close>.\<close>

fun append_dashed :: "16 word list \<Rightarrow> string \<Rightarrow> string" where
  "append_dashed [] byteString = byteString"
| "append_dashed (val # vals) byteString =
     (if val AND GreaseBitmask \<noteq> 0x0A0A then append_dashed vals byteString
      else append_dashed vals (byteString @ show_nat (unat val) @ ''-''))"

definition append_list :: "16 word list \<Rightarrow> string \<Rightarrow> string" where
  "append_list vals byteString =
     (if vals \<noteq> [] then let byteString = append_dashed vals byteString in byteString[length byteString - 1 := CHR '','']
      else byteString @ '','')"

definition marshalJA3 :: "ClientHello \<Rightarrow> string" where
  "marshalJA3 j =
     (let byteString = show_nat (unat (ch_Version j)) @ '','';
          byteString = append_list (ch_CipherSuites j) byteString;
          byteString = append_list (ch_Extensions j) byteString;
          byteString = append_list (ch_EllipticCurves j) byteString
      in if ch_EllipticCurvePF j \<noteq> []
         then butlast (byteString @ concat (map (\<lambda>val. show_nat (unat val) @ ''-'') (ch_EllipticCurvePF j)))
         else byteString)"

lemma Equals_refl [simp]: "ClientHello_Equals j j False"
  by (simp add: ClientHello_Equals_def)

text \<open>Ignoring the order of extensions sorts only one of the two lists.\<close>

lemma Equals_ignoring_order: "ClientHello_Equals j j True \<longleftrightarrow> sorted (ch_Extensions j)"
  by (auto simp: ClientHello_Equals_def sortedExtensions_def sorted_sort_id)
    (metis sorted_sort)

text \<open>Only GREASE values are printed, the ones JA3 leaves out.\<close>

lemma append_dashed_no_grease:
  "list_all (\<lambda>val. val AND GreaseBitmask \<noteq> 0x0A0A) vals \<Longrightarrow> append_dashed vals s = s"
  by (induction vals) simp_all

lemma append_list_no_grease:
  assumes "vals \<noteq> []" and "list_all (\<lambda>val. val AND GreaseBitmask \<noteq> 0x0A0A) vals"
  shows "append_list vals (s @ '','') = s @ '',''"
  using assms by (simp add: append_list_def append_dashed_no_grease list_update_append)

lemma marshalJA3_no_grease:
  assumes "ch_CipherSuites j \<noteq> []" "ch_Extensions j \<noteq> []" "ch_EllipticCurves j \<noteq> []"
    and "list_all (\<lambda>val. val AND GreaseBitmask \<noteq> 0x0A0A) (ch_CipherSuites j @ ch_Extensions j @ ch_EllipticCurves j)"
    and "ch_EllipticCurvePF j = []"
  shows "marshalJA3 j = show_nat (unat (ch_Version j)) @ '',''"
  using assms by (simp add: marshalJA3_def append_list_no_grease)

end
