(* ===== verification/Quic.thy ===== *)
theory Quic
  imports Tls_Hello Metadata
begin

text \<open>
  The QUIC sniffer, \<^verbatim>\<open>common/sniff/quic.go\<close> with the varints and key derivation of
  \<^verbatim>\<open>common/sniff/internal/qtls\<close>: it removes header protection and encryption of an
  Initial packet, collects the CRYPTO frames over several packets and parses the client hello
  they carry. HKDF, AES and GCM are parameters. \<^verbatim>\<open>int\<close> has 64 bits and a varint is
  below \<open>2 ^ 62\<close>, so lengths and offsets are natural numbers.
\<close>

subsection \<open>Varints\<close>

text \<open>\<^verbatim>\<open>qtls.ReadUvarint\<close>: the two top bits of the first byte give the length.\<close>

definition varint_len :: "byte \<Rightarrow> nat" where
  "varint_len firstByte = 2 ^ unat (drop_bit 6 (firstByte AND 0xc0))"

definition qtls_ReadUvarint :: "64 word reader" where
  "qtls_ReadUvarint bs =
     bind_result (ReadByte bs) (\<lambda>(firstByte, bs).
       let n = varint_len firstByte;
           b1 = firstByte AND (0xff - 0xc0)
       in if n = 1 then Inr (ucast b1, bs)
          else bind_result (read_n ReadByte (n - 1) bs) (\<lambda>(more, bs). Inr (be_word (b1 # more), bs)))"

fun skip_uvarints :: "nat \<Rightarrow> byte list \<Rightarrow> byte list result" where
  "skip_uvarints n bs =
     (if n = 0 then Inr bs
      else bind_result (qtls_ReadUvarint bs) (\<lambda>(_, bs). skip_uvarints (n - 1) bs))"

declare skip_uvarints.simps [simp del]

subsection \<open>Keys\<close>

record quic_env =
  qx_Extract :: "byte list \<Rightarrow> byte list \<Rightarrow> byte list"
  qx_Expand :: "byte list \<Rightarrow> byte list \<Rightarrow> nat \<Rightarrow> byte list"
  qx_Encrypt :: "byte list \<Rightarrow> byte list \<Rightarrow> byte list"
  qx_Open :: "byte list \<Rightarrow> byte list \<Rightarrow> byte list \<Rightarrow> byte list \<Rightarrow> byte list result"

definition HKDFExpandLabel :: "quic_env \<Rightarrow> byte list \<Rightarrow> byte list \<Rightarrow> string \<Rightarrow> nat \<Rightarrow> byte list" where
  "HKDFExpandLabel qx secret label_context label n =
     qx_Expand qx secret
       (write_be 2 (of_nat n :: 16 word) @ [of_nat (6 + length label)] @ bytes_of ''tls13 '' @ bytes_of label
        @ [of_nat (length label_context)] @ label_context) n"

definition VersionDraft29 :: "32 word" where "VersionDraft29 = 0xff00001d"
definition Version1 :: "32 word" where "Version1 = 0x1"
definition Version2 :: "32 word" where "Version2 = 0x6b3343cf"

definition SaltOld :: "byte list" where
  "SaltOld = [0xaf, 0xbf, 0xec, 0x28, 0x99, 0x93, 0xd2, 0x4c, 0x9e, 0x97, 0x86, 0xf1, 0x9c, 0x61, 0x11, 0xe0, 0x43, 0x90, 0xa8, 0x99]"
definition SaltV1 :: "byte list" where
  "SaltV1 = [0x38, 0x76, 0x2c, 0xf7, 0xf5, 0x59, 0x34, 0xb3, 0x4d, 0x17, 0x9a, 0xe6, 0xa4, 0xc8, 0x0c, 0xad, 0xcc, 0xbb, 0x7f, 0x0a]"
definition SaltV2 :: "byte list" where
  "SaltV2 = [0x0d, 0xed, 0xe3, 0xde, 0xf7, 0x00, 0xa6, 0xdb, 0x81, 0x93, 0x81, 0xbe, 0x6e, 0x26, 0x9d, 0xcb, 0xf9, 0xbd, 0x2e, 0xd9]"

text \<open>
  \<^verbatim>\<open>xorNonceAEAD\<close>: the 8 bytes of the nonce are xored into the last 8 of the 12 bytes
  of the mask for the time of the call.
\<close>

definition aead_Open :: "quic_env \<Rightarrow> byte list \<Rightarrow> byte list \<Rightarrow> byte list \<Rightarrow> byte list \<Rightarrow> byte list \<Rightarrow> byte list result" where
  "aead_Open qx key nonceMask nonce ciphertext additionalData =
     qx_Open qx key (take 4 nonceMask @ map2 (XOR) (drop 4 nonceMask) nonce) ciphertext additionalData"

subsection \<open>The protected packet\<close>

text \<open>\<^verbatim>\<open>io.CopyN(io.Discard, reader, n)\<close> is \<^verbatim>\<open>EOF\<close> when fewer bytes are left.\<close>

definition discard :: "nat \<Rightarrow> byte list \<Rightarrow> byte list result" where
  "discard n bs = (if n \<le> length bs then Inr (drop n bs) else Inl EOF)"

record quic_header =
  qh_typeByte :: byte
  qh_version :: "32 word"
  qh_destConnID :: "byte list"
  qh_hdrLen :: nat
  qh_packetLen :: nat
  qh_pnBytes :: "byte list"

text \<open>The unprotected part of the header, and the sample for header protection.\<close>

definition parse_quic_header :: "byte list \<Rightarrow> quic_header result" where
  "parse_quic_header packet =
     bind_result (ReadByte packet) (\<lambda>(typeByte, bs).
     if typeByte AND 0x40 = 0 then Inl (E_New ''bad type byte'')
     else bind_result (ReadFull 4 bs) (\<lambda>(versionBytes, bs).
     let versionNumber = (be_word versionBytes :: 32 word) in
     if versionNumber \<noteq> VersionDraft29 \<and> versionNumber \<noteq> Version1 \<and> versionNumber \<noteq> Version2
     then Inl (E_New ''bad version'')
     else let packetType = drop_bit 4 (typeByte AND 0x30) in
     if packetType = 0 \<and> versionNumber = Version2 \<or> packetType = 2 \<and> versionNumber \<noteq> Version2 \<or> packetType > 2
     then Inl (E_New ''bad packet type'')
     else bind_result (ReadByte bs) (\<lambda>(destConnIDLen, bs).
     if destConnIDLen = 0 \<or> destConnIDLen > 20 then Inl (E_New ''bad destination connection id length'')
     else bind_result (ReadFull (unat destConnIDLen) bs) (\<lambda>(destConnID, bs).
     bind_result (ReadByte bs) (\<lambda>(srcConnIDLen, bs).
     bind_result (discard (unat srcConnIDLen) bs) (\<lambda>bs.
     bind_result (qtls_ReadUvarint bs) (\<lambda>(tokenLen, bs).
     bind_result (discard (unat tokenLen) bs) (\<lambda>bs.
     bind_result (qtls_ReadUvarint bs) (\<lambda>(packetLen, bs).
     let hdrLen = length packet - length bs in
     if hdrLen + unat packetLen > length packet then Inl ErrInvalid
     else bind_result (discard 4 bs) (\<lambda>bs.
     bind_result (ReadFull 16 bs) (\<lambda>(pnBytes, bs).
     Inr \<lparr>qh_typeByte = typeByte, qh_version = versionNumber, qh_destConnID = destConnID, qh_hdrLen = hdrLen,
          qh_packetLen = unat packetLen, qh_pnBytes = pnBytes\<rparr>)))))))))))"

text \<open>
  Removing protection gives the plaintext of the payload, decrypted in place: the slice is
  followed in memory by the bytes of the packet behind it, the second component.
\<close>

definition quic_decrypt :: "quic_env \<Rightarrow> quic_header \<Rightarrow> byte list \<Rightarrow> (byte list \<times> byte list) result" where
  "quic_decrypt qx h packet =
     (let v2 = (qh_version h = Version2);
          salt = (if qh_version h = Version1 then SaltV1 else if v2 then SaltV2 else SaltOld);
          initialSecret = qx_Extract qx (qh_destConnID h) salt;
          secret = HKDFExpandLabel qx initialSecret [] ''client in'' 32;
          hpKey = HKDFExpandLabel qx secret [] (if v2 then ''quicv2 hp'' else ''quic hp'') 16;
          mask = qx_Encrypt qx hpKey (qh_pnBytes h);
          hdrLen = qh_hdrLen h;
          newPacket = packet[0 := (packet ! 0) XOR ((mask ! 0) AND 0xf)];
          newPacket = take hdrLen newPacket @ map2 (XOR) (take 4 (drop hdrLen newPacket)) (take 4 (drop 1 mask))
                        @ drop (hdrLen + 4) newPacket;
          packetNumberLength = unat ((newPacket ! 0) AND 0x3) + 1
      in if hdrLen + packetNumberLength > qh_packetLen h + hdrLen then Inl ErrInvalid
         else let packetNumber = (be_word (take packetNumberLength (drop hdrLen newPacket)) :: 32 word);
                  extHdrLen = hdrLen + packetNumberLength;
                  newPacket = take extHdrLen newPacket @ drop extHdrLen packet;
                  data = take (qh_packetLen h + hdrLen - extHdrLen) (drop extHdrLen newPacket);
                  key = HKDFExpandLabel qx secret [] (if v2 then ''quicv2 key'' else ''quic key'') 16;
                  iv = HKDFExpandLabel qx secret [] (if v2 then ''quicv2 iv'' else ''quic iv'') 12;
                  nonce = write_be 8 (ucast packetNumber :: 64 word)
              in bind_result (aead_Open qx key iv nonce data (take extHdrLen newPacket)) (\<lambda>decrypted.
                   Inr (decrypted, drop (extHdrLen + length decrypted) newPacket)))"

subsection \<open>Frames\<close>

text \<open>A CRYPTO fragment: offset, length and payload.\<close>

type_synonym qCryptoFragment = "nat \<times> nat \<times> byte list"

definition frameTypePadding :: byte where "frameTypePadding = 0"
definition frameTypePing :: byte where "frameTypePing = 1"
definition frameTypeCrypto :: byte where "frameTypeCrypto = 6"

text \<open>
  One frame after its type byte. The payload of a CRYPTO frame is a slice of the plaintext,
  which panics only if it reaches beyond the memory of the plaintext, \<open>behind\<close> included.
\<close>

definition read_frame :: "byte \<Rightarrow> byte list \<Rightarrow> byte list \<Rightarrow> (qCryptoFragment list \<times> byte list) result exec" where
  "read_frame frameType behind bs =
     (if frameType = 0 \<or> frameType = 1 then Returns (Inr ([], bs))
      else if frameType = 2 \<or> frameType = 3 then
        Returns (bind_result (skip_uvarints 2 bs) (\<lambda>bs.
                 bind_result (qtls_ReadUvarint bs) (\<lambda>(ackRangeCount, bs).
                 bind_result (skip_uvarints (1 + 2 * unat ackRangeCount) bs) (\<lambda>bs.
                 bind_result (skip_uvarints (if frameType = 3 then 3 else 0) bs) (\<lambda>bs. Inr ([], bs))))))
      else if frameType = 6 then
        (case bind_result (qtls_ReadUvarint bs) (\<lambda>(offset, bs).
              bind_result (qtls_ReadUvarint bs) (\<lambda>(n, bs). Inr (unat offset, unat n, bs))) of
           Inl err \<Rightarrow> Returns (Inl err)
         | Inr (offset, n, bs) \<Rightarrow>
             if n > length (bs @ behind) then Panics
             else Returns (Inr ([(offset, n, take n (bs @ behind))], drop n bs)))
      else if frameType = 0x1c then
        Returns (bind_result (skip_uvarints 2 bs) (\<lambda>bs.
                 bind_result (qtls_ReadUvarint bs) (\<lambda>(n, bs). Inr ([], drop (unat n) bs))))
      else Returns (Inl ErrInvalid))"

text \<open>
  The loop over the frames; it consumes a byte per iteration, so the number of bytes bounds the
  iterations.
\<close>

fun frames_loop :: "nat \<Rightarrow> byte list \<Rightarrow> byte list \<Rightarrow> byte list \<Rightarrow> qCryptoFragment list
   \<Rightarrow> (byte list \<times> qCryptoFragment list) result exec" where
  "frames_loop fuel behind bs frameTypeList fragments =
     (case bs of
        [] \<Rightarrow> Returns (Inr (frameTypeList, fragments))
      | frameType # bs \<Rightarrow>
          (case fuel of
             0 \<Rightarrow> Diverges
           | Suc fuel \<Rightarrow>
               exec_bind (read_frame frameType behind bs) (\<lambda>r. case r of
                 Inl err \<Rightarrow> Returns (Inl err)
               | Inr (new, bs) \<Rightarrow> frames_loop fuel behind bs (frameTypeList @ [frameType]) (fragments @ new))))"

declare frames_loop.simps [simp del]

definition parse_frames :: "byte list \<Rightarrow> byte list \<Rightarrow> (byte list \<times> qCryptoFragment list) result exec" where
  "parse_frames decrypted behind = frames_loop (length decrypted) behind decrypted [] []"

subsection \<open>Reassembly\<close>

text \<open>
  The loop \<^verbatim>\<open>find\<close> appends the first fragment that starts at \<open>index\<close> and goes on at
  its end. It is run for a number of iterations; \<open>None\<close> says that they were not enough.
\<close>

fun find_loop :: "nat \<Rightarrow> qCryptoFragment list \<Rightarrow> nat \<Rightarrow> byte list option" where
  "find_loop fuel fragments index =
     (case find (\<lambda>fragment. fst fragment = index) fragments of
        None \<Rightarrow> Some []
      | Some (offset, n, payload) \<Rightarrow>
          (case fuel of
             0 \<Rightarrow> None
           | Suc fuel \<Rightarrow> map_option ((@) payload) (find_loop fuel fragments (offset + n))))"

declare find_loop.simps [simp del]

text \<open>
  As many iterations as there are fragments are enough for every loop that ends
  (\<open>find_loop_enough\<close> below).
\<close>

definition hello_input :: "qCryptoFragment list \<Rightarrow> byte list option" where
  "hello_input fragments =
     (let frameLen = sum_list (map (\<lambda>fragment. fst (snd fragment)) fragments) in
      map_option (\<lambda>body. [0x16] @ write_be 2 (0x0303 :: 16 word) @ write_be 2 (of_nat frameLen :: 16 word) @ body)
        (find_loop (length fragments) fragments 0))"

subsection \<open>Fingerprints\<close>

definition isZero :: "byte list \<Rightarrow> bool" where
  "isZero slices = list_all (\<lambda>slice. slice = 0) slices"

definition count_byte :: "byte list \<Rightarrow> byte \<Rightarrow> nat" where
  "count_byte slices val = length (filter (\<lambda>slice. slice = val) slices)"

definition isQUICGo :: "ClientHello \<Rightarrow> bool" where
  "isQUICGo fingerprint =
     (if 0x11EC \<in> set (ch_EllipticCurves fingerprint) then True else 0xFF01 \<in> set (ch_Extensions fingerprint))"

text \<open>The body of \<^verbatim>\<open>for metadata.Client == ""\<close>, which always breaks.\<close>

definition quic_client :: "byte list \<Rightarrow> ClientHello \<Rightarrow> string" where
  "quic_client frameTypeList fingerprint =
     (if length frameTypeList = 1 then ''firefox''
      else if frameTypeList ! 0 = frameTypeCrypto \<and> isZero (drop 1 frameTypeList) \<and>
        (length (ch_Versions fingerprint) = 2 \<and> (ch_Versions fingerprint ! 0) AND GreaseBitmask = 0x0A0A \<and>
         length (ch_EllipticCurves fingerprint) = 5 \<and> (ch_EllipticCurves fingerprint ! 0) AND GreaseBitmask = 0x0A0A \<or>
         ch_CipherSuites fingerprint = [0x1302] \<and> ch_EllipticCurves fingerprint = [29] \<and>
         ch_SignatureAlgorithms fingerprint = [0x0403]) then ''safari''
      else if last frameTypeList = frameTypeCrypto \<and> isZero (butlast frameTypeList) then ''quic-go''
      else if count_byte frameTypeList frameTypeCrypto > 1 \<or> count_byte frameTypeList frameTypePing > 0
      then if isQUICGo fingerprint then ''quic-go'' else ''chromium''
      else ''unknown'')"

subsection \<open>The sniffer\<close>

abbreviation ErrNeedMoreData :: error where
  "ErrNeedMoreData \<equiv> E_Sentinel ''need more data''"

text \<open>From the collected frames on.\<close>

definition quic_finish ::
  "byte list \<Rightarrow> qCryptoFragment list \<Rightarrow> inbound_context \<Rightarrow> (error option \<times> inbound_context) exec" where
  "quic_finish frameTypeList fragments metadata =
     (let fragments = fragments @ (case mc_SniffContext metadata of Some old \<Rightarrow> old | None \<Rightarrow> []);
          metadata = metadata\<lparr>mc_SniffContext := None\<rparr>
      in case hello_input fragments of
           None \<Rightarrow> Diverges
         | Some payload \<Rightarrow>
             let metadata = metadata\<lparr>mc_Protocol := ''quic''\<rparr> in
             exec_bind (Compute payload) (\<lambda>(err, fingerprint).
               case err of
                 Some err \<Rightarrow> Returns (Some (Cause1 ErrNeedMoreData err), metadata\<lparr>mc_SniffContext := Some fragments\<rparr>)
               | None \<Rightarrow>
                   let metadata = metadata\<lparr>mc_Domain := ch_ServerName fingerprint\<rparr> in
                   if mc_Client metadata \<noteq> [] then Returns (None, metadata)
                   else if frameTypeList = [] then Panics
                   else Returns (None, metadata\<lparr>mc_Client := quic_client frameTypeList fingerprint\<rparr>)))"

definition quic_plaintext :: "quic_env \<Rightarrow> byte list \<Rightarrow> (byte list \<times> byte list) result" where
  "quic_plaintext qx packet = bind_result (parse_quic_header packet) (\<lambda>h. quic_decrypt qx h packet)"

definition QUICClientHello_sniff ::
  "quic_env \<Rightarrow> inbound_context \<Rightarrow> byte list \<Rightarrow> (error option \<times> inbound_context) exec" where
  "QUICClientHello_sniff qx metadata packet =
     (case quic_plaintext qx packet of
        Inl err \<Rightarrow> Returns (Some err, metadata)
      | Inr (decrypted, behind) \<Rightarrow>
          exec_bind (parse_frames decrypted behind) (\<lambda>r.
            case r of
              Inl err \<Rightarrow> Returns (Some err, metadata)
            | Inr (frameTypeList, fragments) \<Rightarrow> quic_finish frameTypeList fragments metadata))"

subsection \<open>Varints are read back and stay below 2 ^ 62\<close>

text \<open>RFC 9000: a value below \<open>2 ^ (8 * 2 ^ k - 2)\<close> in \<open>2 ^ k\<close> bytes.\<close>

definition put_varint :: "nat \<Rightarrow> 64 word \<Rightarrow> byte list" where
  "put_varint k w = write_be (2 ^ k) (w OR push_bit (8 * 2 ^ k - 2) (of_nat k))"

lemma bit_be_word: "bit (be_word bs :: 'a::len word) i \<Longrightarrow> i < 8 * length bs"
proof (induction bs)
  case (Cons b bs)
  then show ?case
    by (auto simp: bit_or_iff bit_push_bit_iff bit_ucast_iff dest: bit_imp_le_length)
qed simp

lemma be_word_mask:
  "be_word ((b AND 0x3f) # ds) = (take_bit (8 * length ds + 6) (be_word (b # ds)) :: 64 word)"
proof (rule bit_word_eqI)
  fix i assume "i < LENGTH(64)"
  have m: "b AND 0x3f = take_bit 6 b" by (simp add: take_bit_eq_mask mask_eq_exp_minus_1)
  show "bit (be_word ((b AND 0x3f) # ds) :: 64 word) i
    = bit (take_bit (8 * length ds + 6) (be_word (b # ds)) :: 64 word) i"
    unfolding m using bit_be_word [of ds i, where 'a = 64]
    by (auto simp: bit_or_iff bit_push_bit_iff bit_ucast_iff bit_take_bit_iff)
qed

lemma read_bytes: "read_n ReadByte n bs = (if n \<le> length bs then Inr (take n bs, drop n bs) else Inl EOF)"
proof (induction n arbitrary: bs)
  case (Suc n)
  then show ?case by (cases bs) (simp_all add: ReadByte_def)
qed simp

lemma varint_len_top: "varint_len b = 2 ^ unat (take_bit 2 (drop_bit 6 b))"
proof -
  have "drop_bit 6 (b AND 0xc0) = take_bit 2 (drop_bit 6 b)"
    by (simp add: take_bit_eq_mask mask_eq_exp_minus_1)
  then show ?thesis by (simp only: varint_len_def)
qed

lemma varint_len_bounds: "1 \<le> varint_len b" "varint_len b \<le> 8"
proof -
  have "unat (take_bit 2 (drop_bit 6 b)) < 4" by (simp only: unsigned_take_bit_eq) (simp add: take_bit_eq_mod)
  then have "(2::nat) ^ unat (take_bit 2 (drop_bit 6 b)) \<le> 2 ^ 3" by (intro power_increasing) simp_all
  then show "varint_len b \<le> 8" by (simp add: varint_len_top)
qed (simp add: varint_len_def)

text \<open>The two branches of \<^verbatim>\<open>ReadUvarint\<close> in one: the bytes without the length bits.\<close>

lemma ReadUvarint_eq:
  "qtls_ReadUvarint (b # bs) =
     (let n = varint_len b - 1 in
      if n \<le> length bs then Inr (take_bit (8 * n + 6) (be_word (b # take n bs)), drop n bs) else Inl EOF)"
  using be_word_mask [of b "take (varint_len b - 1) bs"] varint_len_bounds [of b]
  by (auto simp: qtls_ReadUvarint_def ReadByte_def read_bytes Let_def)

lemma ReadUvarint_Nil: "qtls_ReadUvarint [] = Inl EOF"
  by (simp add: qtls_ReadUvarint_def ReadByte_def)

lemma uvarint_rest: "qtls_ReadUvarint bs = Inr (w, rest) \<Longrightarrow> length rest < length bs"
  by (cases bs) (auto simp: ReadUvarint_eq ReadUvarint_Nil Let_def split: if_splits)

lemma uvarint_bound:
  assumes "qtls_ReadUvarint bs = Inr (w, rest)"
  shows "unat w < 2 ^ 62"
proof (cases bs)
  case Nil
  then show ?thesis using assms by (simp add: ReadUvarint_Nil)
next
  case (Cons b bs')
  let ?n = "varint_len b - 1"
  have n: "8 * ?n + 6 \<le> 62" using varint_len_bounds [of b] by simp
  have "w = take_bit (8 * ?n + 6) (be_word (b # take ?n bs'))"
    using assms by (simp add: Cons ReadUvarint_eq Let_def split: if_splits)
  then have "unat w < 2 ^ (8 * ?n + 6)" by (simp only: unsigned_take_bit_eq) (rule take_bit_nat_less_exp)
  also have "\<dots> \<le> 2 ^ 62" using n by (rule power_increasing) simp
  finally show ?thesis .
qed

lemma varint_round_trip:
  assumes k: "k \<le> 3" and w: "unat w < 2 ^ (8 * 2 ^ k - 2)"
  shows "qtls_ReadUvarint (put_varint k w @ rest) = Inr (w, rest)"
proof -
  define n where "n = (2::nat) ^ k - 1"
  let ?v = "w OR push_bit (8 * n + 6) (of_nat k) :: 64 word"
  let ?b = "ucast (drop_bit (8 * n) ?v) :: byte"
  have n: "2 ^ k = Suc n" by (simp add: n_def)
  have "8 * n + 8 \<le> 64"
    using power_increasing [OF k, of "2::nat"] n by simp
  note n8 = this
  have e: "8 * 2 ^ k - 2 = 8 * n + 6" using n by simp
  have "take_bit (8 * n + 6) w = w"
  proof (rule word_unat_eq_iff [THEN iffD2])
    show "unat (take_bit (8 * n + 6) w) = unat w"
      using w n by (simp add: unsigned_take_bit_eq take_bit_nat_eq_self add.commute)
  qed
  note low = this
  then have high: "\<not> bit w i" if "8 * n + 6 \<le> i" for i
    using that by (metis bit_take_bit_iff not_less)
  have "take_bit 2 (drop_bit 6 ?b) = of_nat k"
  proof (rule bit_word_eqI)
    fix i assume "i < LENGTH(8)"
    have "take_bit 2 k = k" using k by (simp add: take_bit_nat_eq_self)
    then have "bit k i \<longrightarrow> i < 2" by (metis bit_take_bit_iff)
    then show "bit (take_bit 2 (drop_bit 6 ?b)) i = bit (of_nat k :: byte) i"
      using \<open>i < LENGTH(8)\<close> high [of "8 * n + (6 + i)"] n8
      by (auto simp: bit_take_bit_iff bit_drop_bit_eq bit_ucast_iff bit_or_iff bit_push_bit_iff bit_of_nat_iff add.assoc)
  qed
  moreover have "unat (of_nat k :: byte) = k" using k by (simp add: unat_of_nat_8)
  ultimately have len: "varint_len ?b = Suc n" by (simp only: varint_len_top n)
  have bytes: "put_varint k w = ?b # write_be n ?v"
    unfolding put_varint_def e by (simp only: n write_be.simps)
  have "take_bit (8 * n + 6) (be_word (?b # write_be n ?v) :: 64 word) = take_bit (8 * n + 6) (be_word (write_be (Suc n) ?v))"
    by simp
  also have "\<dots> = take_bit (8 * n + 6) ?v"
    by (simp only: be_word_write_be take_bit_take_bit) (simp add: min_def)
  also have "\<dots> = w" by (simp only: take_bit_or low) (simp add: take_bit_push_bit)
  finally have "take_bit (8 * n + 6) (be_word (?b # write_be n ?v)) = w" .
  then show ?thesis
    unfolding bytes append_Cons ReadUvarint_eq len Let_def by (simp del: be_word.simps)
qed

interpretation varint8: codec "put_varint 3" qtls_ReadUvarint "\<lambda>w. unat w < 2 ^ 62"
  by unfold_locales (simp add: varint_round_trip)

subsection \<open>Frames are read to the end\<close>

lemma skip_uvarints_rest: "skip_uvarints n bs = Inr rest \<Longrightarrow> length rest \<le> length bs"
proof (induction n arbitrary: bs)
  case 0
  then show ?case by (simp add: skip_uvarints.simps)
next
  case (Suc n)
  from Suc.prems obtain w bs' where "qtls_ReadUvarint bs = Inr (w, bs')" "skip_uvarints n bs' = Inr rest"
    by (subst (asm) skip_uvarints.simps) auto
  with Suc.IH [of bs'] uvarint_rest [of bs w bs'] show ?case by simp
qed

lemma read_frame_ends: "read_frame t behind bs \<noteq> Diverges"
  by (auto simp: read_frame_def split: sum.splits)

lemma read_frame_rest: "read_frame t behind bs = Returns (Inr (new, rest)) \<Longrightarrow> length rest \<le> length bs"
  by (auto simp: read_frame_def split: if_splits sum.splits prod.splits
      dest!: uvarint_rest skip_uvarints_rest)

lemma frames_loop_ends: "length bs \<le> fuel \<Longrightarrow> frames_loop fuel behind bs types frags \<noteq> Diverges"
proof (induction fuel arbitrary: bs types frags)
  case 0
  then show ?case by (simp add: frames_loop.simps)
next
  case (Suc fuel)
  show ?case
  proof (cases bs)
    case Nil
    then show ?thesis by (simp add: frames_loop.simps)
  next
    case (Cons t bs')
    have "frames_loop fuel behind rest types' frags' \<noteq> Diverges"
      if "read_frame t behind bs' = Returns (Inr (new, rest))" for new rest types' frags'
      using read_frame_rest [OF that] Suc.prems Cons by (intro Suc.IH) simp
    then show ?thesis
      using read_frame_ends [of t behind bs']
      by (subst frames_loop.simps) (auto simp: Cons split: sum.splits)
  qed
qed

lemma parse_frames_ends: "parse_frames decrypted behind \<noteq> Diverges"
  by (simp add: parse_frames_def frames_loop_ends)

text \<open>Padding and pings before a frame do not matter.\<close>

definition idle :: "byte list \<Rightarrow> bool" where
  "idle bs = list_all (\<lambda>t. t = 0 \<or> t = 1) bs"

lemma frames_loop_idle:
  "idle pad \<Longrightarrow> frames_loop (length pad + fuel) behind (pad @ bs) types frags
     = frames_loop fuel behind bs (types @ pad) frags"
proof (induction pad arbitrary: types)
  case (Cons t pad)
  then have "read_frame t behind (pad @ bs) = Returns (Inr ([], pad @ bs))"
    by (auto simp: idle_def read_frame_def)
  then show ?case
    using Cons by (subst frames_loop.simps) (simp add: idle_def)
qed simp

text \<open>A CRYPTO frame whose length reaches beyond the memory of the packet panics.\<close>

definition crypto_frame :: "64 word \<Rightarrow> 64 word \<Rightarrow> byte list \<Rightarrow> byte list" where
  "crypto_frame offset n payload = frameTypeCrypto # put_varint 3 offset @ put_varint 3 n @ payload"

lemma read_crypto_frame:
  assumes "unat offset < 2 ^ 62" and "unat n < 2 ^ 62"
  shows "read_frame frameTypeCrypto behind (put_varint 3 offset @ put_varint 3 n @ bs) =
     (if unat n > length (bs @ behind) then Panics
      else Returns (Inr ([(unat offset, unat n, take (unat n) (bs @ behind))], drop (unat n) bs)))"
  using assms by (simp add: read_frame_def frameTypeCrypto_def varint8.round_trip)

lemma crypto_frame_panics:
  assumes "idle pad" and "unat offset < 2 ^ 62" and "unat n < 2 ^ 62" and "unat n > length (bs @ behind)"
  shows "parse_frames (pad @ crypto_frame offset n bs) behind = Panics"
proof -
  obtain m where m: "length (crypto_frame offset n bs) = Suc m" by (simp add: crypto_frame_def)
  have "frames_loop (Suc m) behind (crypto_frame offset n bs) types frags = Panics" for types frags
    using assms by (subst frames_loop.simps) (simp add: crypto_frame_def read_crypto_frame)
  then show ?thesis
    using frames_loop_idle [OF assms(1), of "Suc m"] by (simp add: parse_frames_def m)
qed

lemma crypto_frames_read:
  assumes "idle pad" and "unat offset < 2 ^ 62" and "unat n < 2 ^ 62" and "unat n = length payload" and "idle rest"
  shows "parse_frames (pad @ crypto_frame offset n payload @ rest) behind =
     Returns (Inr (pad @ [frameTypeCrypto] @ rest, [(unat offset, unat n, payload)]))"
proof -
  let ?frame = "crypto_frame offset n payload"
  obtain m where m: "length (?frame @ rest) = Suc m" by (simp add: crypto_frame_def)
  have "length rest \<le> m" using m by (simp add: crypto_frame_def)
  then obtain l where l: "m = length rest + l" using le_Suc_ex by blast
  have "frames_loop (Suc m) behind (?frame @ rest) pad [] =
      frames_loop m behind rest (pad @ [frameTypeCrypto]) [(unat offset, unat n, payload)]"
    using assms by (subst frames_loop.simps) (simp add: crypto_frame_def read_crypto_frame)
  also have "\<dots> = Returns (Inr (pad @ [frameTypeCrypto] @ rest, [(unat offset, unat n, payload)]))"
    using frames_loop_idle [OF assms(5), of l behind "[]"] by (simp add: l frames_loop.simps)
  finally show ?thesis
    using frames_loop_idle [OF assms(1), of "Suc m" behind "?frame @ rest"] m
    by (simp add: parse_frames_def)
qed

subsection \<open>Reassembly\<close>

lemma find_loop_more: "find_loop n fs i = Some r \<Longrightarrow> find_loop (n + k) fs i = Some r"
proof (induction n arbitrary: i r)
  case 0
  then show ?case
    by (subst (asm) find_loop.simps, subst find_loop.simps) (auto split: option.splits)
next
  case (Suc n)
  show ?case
  proof (cases "find (\<lambda>fragment. fst fragment = i) fs")
    case None
    then show ?thesis using Suc.prems by (subst (asm) find_loop.simps, subst find_loop.simps) simp
  next
    case (Some f)
    obtain off len payload where f: "f = (off, len, payload)" by (cases f)
    from Suc.prems obtain r' where "find_loop n fs (off + len) = Some r'" "r = payload @ r'"
      by (subst (asm) find_loop.simps) (auto simp: Some f)
    then show ?thesis
      using Suc.IH by (subst find_loop.simps) (simp add: Some f)
  qed
qed

lemma find_offset:
  assumes "find (\<lambda>fragment. fst fragment = i) fs = Some (off, len, payload)"
  shows "off = i" and "(off, len, payload) \<in> set fs"
proof -
  from assms obtain k where k: "k < length fs" "fst (fs ! k) = i" "(off, len, payload) = fs ! k"
    unfolding find_Some_iff by blast
  from k(2) show "off = i" unfolding k(3) [symmetric] by simp
  from k(1) show "(off, len, payload) \<in> set fs" unfolding k(3) by (rule nth_mem)
qed

text \<open>An empty fragment at the index reached is found again and again.\<close>

lemma find_loop_stuck:
  assumes "find (\<lambda>fragment. fst fragment = i) fs = Some (i, 0, payload)"
  shows "find_loop n fs i = None"
proof (induction n)
  case 0
  then show ?case using assms by (subst find_loop.simps) simp
next
  case (Suc n)
  then show ?case using assms by (subst find_loop.simps) simp
qed

text \<open>The indices the loop passes through.\<close>

inductive visits :: "qCryptoFragment list \<Rightarrow> nat \<Rightarrow> nat \<Rightarrow> bool" for fs where
  visits_refl: "visits fs i i"
| visits_step: "find (\<lambda>fragment. fst fragment = i) fs = Some (i, len, payload) \<Longrightarrow> visits fs (i + len) j
    \<Longrightarrow> visits fs i j"

definition stuck_at :: "qCryptoFragment list \<Rightarrow> nat \<Rightarrow> bool" where
  "stuck_at fs i \<longleftrightarrow> (\<exists>payload. find (\<lambda>fragment. fst fragment = i) fs = Some (i, 0, payload))"

lemma find_loop_visits:
  assumes "visits fs i j" and "\<And>n. find_loop n fs j = None"
  shows "find_loop n fs i = None"
  using assms
proof (induction arbitrary: n rule: visits.induct)
  case (visits_step i len payload j)
  then have "find_loop k fs (i + len) = None" for k by blast
  with visits_step.hyps(1) show ?case by (cases n) (subst find_loop.simps, simp)+
qed simp

text \<open>Otherwise every fragment is appended at most once.\<close>

lemma find_loop_enough:
  assumes "\<not> (\<exists>j. visits fs i j \<and> stuck_at fs j)"
  shows "\<exists>r. find_loop (length (filter (\<lambda>fragment. i \<le> fst fragment) fs)) fs i = Some r"
  using assms
proof (induction "length (filter (\<lambda>fragment. i \<le> fst fragment) fs)" arbitrary: i rule: less_induct)
  case less
  let ?n = "\<lambda>i. length (filter (\<lambda>fragment. i \<le> fst fragment) fs)"
  show ?case
  proof (cases "find (\<lambda>fragment. fst fragment = i) fs")
    case None
    then show ?thesis by (subst find_loop.simps) simp
  next
    case (Some f)
    then obtain len payload where f: "find (\<lambda>fragment. fst fragment = i) fs = Some (i, len, payload)"
      using find_offset(1) by (metis prod_cases3)
    have "\<not> stuck_at fs i" using less.prems visits_refl by blast
    then have "len \<noteq> 0" using f by (auto simp: stuck_at_def)
    have mem: "(i, len, payload) \<in> set fs" using f by (rule find_offset)
    have "filter (\<lambda>fragment. i + len \<le> fst fragment) fs =
        filter (\<lambda>fragment. i + len \<le> fst fragment) (filter (\<lambda>fragment. i \<le> fst fragment) fs)"
      by (simp add: filter_filter) (metis (no_types, lifting) add_leD1)
    also have "length \<dots> < ?n i"
      using mem \<open>len \<noteq> 0\<close> by (intro length_filter_less [of "(i, len, payload)"]) simp_all
    finally have fewer: "?n (i + len) < ?n i" .
    have "visits fs i j" if "visits fs (i + len) j" for j
      using f that by (rule visits_step)
    then obtain r where "find_loop (?n (i + len)) fs (i + len) = Some r"
      using less.hyps [OF fewer] less.prems by blast
    moreover obtain k where "?n i = Suc (?n (i + len) + k)"
      using fewer less_iff_Suc_add by blast
    ultimately show ?thesis
      using find_loop_more by (subst find_loop.simps) (simp add: f)
  qed
qed

text \<open>The number of fragments is fuel enough, and running out of it means running forever.\<close>

lemma find_loop_None_iff:
  "find_loop (length fs) fs i = None \<longleftrightarrow> (\<exists>j. visits fs i j \<and> stuck_at fs j)"
proof
  assume none: "find_loop (length fs) fs i = None"
  show "\<exists>j. visits fs i j \<and> stuck_at fs j"
  proof (rule ccontr)
    assume "\<not> ?thesis"
    then obtain r where r: "find_loop (length (filter (\<lambda>fragment. i \<le> fst fragment) fs)) fs i = Some r"
      using find_loop_enough by blast
    obtain k where "length fs = length (filter (\<lambda>fragment. i \<le> fst fragment) fs) + k"
      using length_filter_le le_Suc_ex by blast
    with find_loop_more [OF r, of k] none show False by simp
  qed
next
  assume "\<exists>j. visits fs i j \<and> stuck_at fs j"
  then show "find_loop (length fs) fs i = None"
    using find_loop_visits find_loop_stuck by (metis stuck_at_def)
qed

lemma find_loop_forever: "find_loop (length fs) fs i = None \<Longrightarrow> find_loop n fs i = None"
  using find_loop_visits find_loop_stuck by (metis find_loop_None_iff stuck_at_def)

subsection \<open>Fragments of one stream\<close>

text \<open>The pieces of a stream with their offsets.\<close>

fun pieces :: "nat \<Rightarrow> byte list list \<Rightarrow> qCryptoFragment list" where
  "pieces i [] = []"
| "pieces i (p # ps) = (i, length p, p) # pieces (i + length p) ps"

lemma pieces_offset: "(off, len, p) \<in> set (pieces i ps) \<Longrightarrow> i \<le> off"
  by (induction ps arbitrary: i) fastforce+

lemma pieces_append: "pieces i (ps @ qs) = pieces i ps @ pieces (i + length (concat ps)) qs"
  by (induction ps arbitrary: i) (simp_all add: add.assoc)

lemma pieces_unique:
  "list_all (\<lambda>p. p \<noteq> []) ps \<Longrightarrow> (off, len, p) \<in> set (pieces i ps) \<Longrightarrow> (off, len', p') \<in> set (pieces i ps)
   \<Longrightarrow> len = len' \<and> p = p'"
proof (induction ps arbitrary: i)
  case (Cons q ps)
  have "i < i + length q" using Cons.prems(1) by simp
  then show ?case
    using Cons pieces_offset [of off len p "i + length q" ps] pieces_offset [of off len' p' "i + length q" ps]
    by auto
qed simp

lemma pieces_end:
  "(off, len, p) \<in> set (pieces i ps) \<Longrightarrow> list_all (\<lambda>p. p \<noteq> []) ps
   \<Longrightarrow> off + len \<le> i + length (concat ps) \<and> 0 < len"
  by (induction ps arbitrary: i) fastforce+

lemma find_loop_pieces:
  assumes fs: "set fs = set (pieces 0 (pre @ post))" and pos: "list_all (\<lambda>p. p \<noteq> []) (pre @ post)"
    and n: "length post \<le> n"
  shows "find_loop n fs (length (concat pre)) = Some (concat post)"
  using assms
proof (induction post arbitrary: pre n)
  case Nil
  have "off < length (concat pre)" if "(off, len, p) \<in> set (pieces 0 pre)" for off len p
  proof -
    have "off + len \<le> length (concat pre) \<and> 0 < len"
      using that Nil.prems(2) pieces_end [of off len p 0 pre] by simp
    then show ?thesis by simp
  qed
  then have "find (\<lambda>fragment. fst fragment = length (concat pre)) fs = None"
    using Nil.prems(1) by (auto simp: find_None_iff)
  then show ?case by (subst find_loop.simps) simp
next
  case (Cons p post)
  let ?i = "length (concat pre)"
  have mem: "(?i, length p, p) \<in> set fs" using Cons.prems(1) by (simp add: pieces_append)
  obtain f where f: "find (\<lambda>fragment. fst fragment = ?i) fs = Some f"
    using mem by (cases "find (\<lambda>fragment. fst fragment = ?i) fs") (auto simp: find_None_iff)
  obtain off len payload where ff: "f = (off, len, payload)" by (cases f)
  have "off = ?i" "(off, len, payload) \<in> set fs"
    using f ff find_offset [of ?i fs off len payload] by simp_all
  with mem Cons.prems(1,2) pieces_unique [of "pre @ p # post" ?i len payload 0 "length p" p]
  have "len = length p" "payload = p" by auto
  then have f: "find (\<lambda>fragment. fst fragment = ?i) fs = Some (?i, length p, p)"
    using f ff \<open>off = ?i\<close> by simp
  obtain m where m: "n = Suc m" using Cons.prems(3) by (cases n) simp_all
  have "find_loop m fs (length (concat (pre @ [p]))) = Some (concat post)"
    using Cons.prems m by (intro Cons.IH) simp_all
  then show ?case by (subst find_loop.simps) (simp add: f m)
qed

end
