(* ===== verification/Sniff.thy ===== *)
theory Sniff
  imports Quic Rule_Action
begin

text \<open>
  Protocol detection, \<^verbatim>\<open>common/sniff\<close>: the sniffers for streams and packets and the two
  loops that run them, \<^verbatim>\<open>PeekStream\<close> and \<^verbatim>\<open>PeekPacket\<close>. TLS handshakes, HTTP
  requests and DNS messages are decoded by code outside the repository, a parameter. A stream
  sniffer reads an \<^verbatim>\<open>io.MultiReader\<close> over byte slices: a list of byte lists, since a
  single \<^verbatim>\<open>Read\<close> does not cross from one slice to the next.
\<close>

subsection \<open>Readers\<close>

type_synonym multi_reader = "byte list list"

text \<open>\<^verbatim>\<open>reader.Read(p)\<close> with \<open>n\<close> bytes of room, and what it leaves.\<close>

fun mr_Read :: "nat \<Rightarrow> multi_reader \<Rightarrow> byte list \<times> error option" where
  "mr_Read n [] = ([], Some EOF)"
| "mr_Read n (b # rs) = (if b = [] then mr_Read n rs else (take n b, None))"

fun mr_drop :: "nat \<Rightarrow> multi_reader \<Rightarrow> multi_reader" where
  "mr_drop n [] = []"
| "mr_drop n (b # rs) = (if n < length b then drop n b # rs else mr_drop (n - length b) rs)"

definition mr_ReadFull :: "nat \<Rightarrow> multi_reader \<Rightarrow> (byte list \<times> multi_reader) result" where
  "mr_ReadFull n rs =
     (if n \<le> length (concat rs) then Inr (take n (concat rs), mr_drop n rs)
      else if concat rs = [] then Inl EOF else Inl UnexpectedEOF)"

subsection \<open>Stream sniffers\<close>

record sniff_env =
  sx_quic :: quic_env
  sx_Unpack :: "byte list \<Rightarrow> dns_msg result"
  sx_Handshake :: "byte list \<Rightarrow> string option \<times> error option"
  sx_ReadRequest :: "byte list \<Rightarrow> string result"
  sx_AddrString :: "string \<Rightarrow> string"

type_synonym sniffed = "(error option \<times> inbound_context) exec"

abbreviation need_more :: "inbound_context \<Rightarrow> error \<Rightarrow> sniffed" where
  "need_more metadata err \<equiv> Returns (Some (Cause1 ErrNeedMoreData err), metadata)"

abbreviation invalid :: "inbound_context \<Rightarrow> sniffed" where
  "invalid metadata \<equiv> Returns (Some ErrInvalid, metadata)"

definition BitTorrent_sniff :: "inbound_context \<Rightarrow> multi_reader \<Rightarrow> sniffed" where
  "BitTorrent_sniff metadata reader =
     (case mr_ReadFull 1 reader of
        Inl err \<Rightarrow> need_more metadata err
      | Inr (first, reader) \<Rightarrow>
          if first \<noteq> [19] then invalid metadata
          else case mr_Read 19 reader of (protocol, err) \<Rightarrow>
            if string_of protocol \<noteq> take (length protocol) ''BitTorrent protocol'' then invalid metadata
            else (case err of
                    Some err \<Rightarrow> need_more metadata err
                  | None \<Rightarrow>
                      if length protocol < 19 then Returns (Some ErrNeedMoreData, metadata)
                      else Returns (None, metadata\<lparr>mc_Protocol := ''bittorrent''\<rparr>)))"

text \<open>One field of the RDP header: \<open>n\<close> bytes which have to satisfy a condition.\<close>

definition rdp_field ::
  "nat \<Rightarrow> (byte list \<Rightarrow> bool) \<Rightarrow> inbound_context \<Rightarrow> multi_reader \<Rightarrow> (multi_reader \<Rightarrow> sniffed) \<Rightarrow> sniffed" where
  "rdp_field n good metadata reader k =
     (case mr_ReadFull n reader of
        Inl err \<Rightarrow> need_more metadata err
      | Inr (field, reader) \<Rightarrow> if good field then k reader else invalid metadata)"

definition RDP_sniff :: "inbound_context \<Rightarrow> multi_reader \<Rightarrow> sniffed" where
  "RDP_sniff metadata reader =
     rdp_field 1 (\<lambda>tpktVersion. tpktVersion = [0x03]) metadata reader (\<lambda>reader.
     rdp_field 1 (\<lambda>tpktReserved. tpktReserved = [0x00]) metadata reader (\<lambda>reader.
     rdp_field 2 (\<lambda>tpktLength. be_word tpktLength = (19 :: 16 word)) metadata reader (\<lambda>reader.
     rdp_field 1 (\<lambda>cotpLength. cotpLength = [14]) metadata reader (\<lambda>reader.
     rdp_field 1 (\<lambda>cotpTpduType. cotpTpduType = [0xE0]) metadata reader (\<lambda>reader.
     rdp_field 5 (\<lambda>_. True) metadata reader (\<lambda>reader.
     rdp_field 1 (\<lambda>rdpType. rdpType = [0x01]) metadata reader (\<lambda>reader.
     rdp_field 1 (\<lambda>rdpFlags. True) metadata reader (\<lambda>reader.
     rdp_field 1 (\<lambda>rdpLength. rdpLength = [8]) metadata reader (\<lambda>reader.
     Returns (None, metadata\<lparr>mc_Protocol := ''rdp''\<rparr>))))))))))"

text \<open>
  \<^verbatim>\<open>bufio.Reader.ReadLine\<close> with the default buffer of 4096 bytes, on a stream that has at
  least one byte: a line without its end, the full buffer, or what is left.
\<close>

definition strip_cr :: "byte list \<Rightarrow> byte list" where
  "strip_cr line = (if line \<noteq> [] \<and> last line = 13 then butlast line else line)"

definition ReadLine :: "byte list \<Rightarrow> byte list" where
  "ReadLine bs =
     (let window = take 4096 bs;
          line = takeWhile (\<lambda>b. b \<noteq> 10) window
      in if length line < length window \<or> length window = 4096 then strip_cr line else line)"

definition SSH_sniff :: "inbound_context \<Rightarrow> multi_reader \<Rightarrow> sniffed" where
  "SSH_sniff metadata reader =
     (let bs = concat reader;
          prefix = string_of (take 8 bs)
      in if prefix \<noteq> take (length prefix) ''SSH-2.0-'' then invalid metadata
         else if length prefix < 8 then need_more metadata EOF
         else let fistLine = ReadLine bs in
           if length fistLine < 8 then Panics
           else Returns (None, metadata\<lparr>mc_Protocol := ''ssh'', mc_Client := drop 8 (string_of fistLine)\<rparr>))"

text \<open>
  A message that decodes but is a response, or has no question, returns the error of
  \<^verbatim>\<open>Unpack\<close>, which is nil then.
\<close>

definition DomainNameQuery_sniff :: "sniff_env \<Rightarrow> inbound_context \<Rightarrow> byte list \<Rightarrow> sniffed" where
  "DomainNameQuery_sniff sx metadata packet =
     (case sx_Unpack sx packet of
        Inl err \<Rightarrow> Returns (Some err, metadata)
      | Inr msg \<Rightarrow>
          if msg_Response msg \<or> length (msg_Question msg) = 0 \<or> length (msg_Answer msg) > 0 \<or> length (msg_Ns msg) > 0
          then Returns (None, metadata)
          else Returns (None, metadata\<lparr>mc_Protocol := ''dns''\<rparr>))"

definition StreamDomainNameQuery_sniff :: "sniff_env \<Rightarrow> inbound_context \<Rightarrow> multi_reader \<Rightarrow> sniffed" where
  "StreamDomainNameQuery_sniff sx metadata reader =
     (case mr_ReadFull 2 reader of
        Inl err \<Rightarrow> need_more metadata err
      | Inr (d, reader) \<Rightarrow>
          let n = unat (be_word d :: 16 word) in
          if n < 12 then invalid metadata
          else let packet = take n (concat reader) in
            if length packet > 2 \<and> (packet ! 2) AND 0x80 \<noteq> 0 then invalid metadata
            else if length packet > 5 \<and> packet ! 4 = 0 \<and> packet ! 5 = 0 then invalid metadata
            else if list_ex (\<lambda>i. length packet > i \<and> packet ! i \<noteq> 0) [6..<10] then invalid metadata
            else if length packet < n
            then need_more metadata (if packet = [] then EOF else UnexpectedEOF)
            else DomainNameQuery_sniff sx metadata packet)"

definition HTTPHost_sniff :: "sniff_env \<Rightarrow> inbound_context \<Rightarrow> multi_reader \<Rightarrow> sniffed" where
  "HTTPHost_sniff sx metadata reader =
     (case sx_ReadRequest sx (concat reader) of
        Inl err \<Rightarrow> if error_Is err UnexpectedEOF then need_more metadata err else Returns (Some err, metadata)
      | Inr host \<Rightarrow> Returns (None, metadata\<lparr>mc_Protocol := ''http'', mc_Domain := sx_AddrString sx host\<rparr>))"

definition TLSClientHello_sniff :: "sniff_env \<Rightarrow> inbound_context \<Rightarrow> multi_reader \<Rightarrow> sniffed" where
  "TLSClientHello_sniff sx metadata reader =
     (case sx_Handshake sx (concat reader) of
        (Some serverName, _) \<Rightarrow> Returns (None, metadata\<lparr>mc_Protocol := ''tls'', mc_Domain := serverName\<rparr>)
      | (None, None) \<Rightarrow> Returns (None, metadata)
      | (None, Some err) \<Rightarrow> if error_Is err UnexpectedEOF then need_more metadata err else Returns (Some err, metadata))"

fun StreamSniffer :: "sniff_env \<Rightarrow> stream_sniffer \<Rightarrow> inbound_context \<Rightarrow> multi_reader \<Rightarrow> sniffed" where
  "StreamSniffer sx TLSClientHello = TLSClientHello_sniff sx"
| "StreamSniffer sx HTTPHost = HTTPHost_sniff sx"
| "StreamSniffer sx StreamDomainNameQuery = StreamDomainNameQuery_sniff sx"
| "StreamSniffer sx BitTorrent = BitTorrent_sniff"
| "StreamSniffer sx SSH = SSH_sniff"
| "StreamSniffer sx RDP = RDP_sniff"

subsection \<open>Packet sniffers\<close>

text \<open>\<^verbatim>\<open>binary.BigEndian\<close> on a slice of the packet.\<close>

definition u32_at :: "byte list \<Rightarrow> nat \<Rightarrow> 32 word" where
  "u32_at packet i = be_word (take 4 (drop i packet))"

definition u64_at :: "byte list \<Rightarrow> nat \<Rightarrow> 64 word" where
  "u64_at packet i = be_word (take 8 (drop i packet))"

fun utp_extensions :: "byte \<Rightarrow> byte list \<Rightarrow> error option" where
  "utp_extensions extension bs =
     (if extension = 0 then None
      else case bs of
             [] \<Rightarrow> Some EOF
           | extension # bs \<Rightarrow>
               if extension > 4 then Some ErrInvalid
               else case bs of
                      [] \<Rightarrow> Some EOF
                    | n # bs \<Rightarrow> utp_extensions extension (drop (unat n) bs))"

declare utp_extensions.simps [simp del]

definition UTP_sniff :: "inbound_context \<Rightarrow> byte list \<Rightarrow> sniffed" where
  "UTP_sniff metadata packet =
     (if length packet < 20 then invalid metadata
      else let version = (packet ! 0) AND 0x0F;
               ty = drop_bit 4 (packet ! 0)
           in if version \<noteq> 1 \<or> ty > 4 then invalid metadata
              else case utp_extensions (packet ! 1) (drop 20 packet) of
                     Some err \<Rightarrow> Returns (Some err, metadata)
                   | None \<Rightarrow> Returns (None, metadata\<lparr>mc_Protocol := ''bittorrent''\<rparr>))"

definition UDPTracker_sniff :: "inbound_context \<Rightarrow> byte list \<Rightarrow> sniffed" where
  "UDPTracker_sniff metadata packet =
     (if length packet < 16 then invalid metadata
      else if u64_at packet 0 \<noteq> 0x41727101980 then invalid metadata
      else if u32_at packet 8 \<noteq> 0 then invalid metadata
      else Returns (None, metadata\<lparr>mc_Protocol := ''bittorrent''\<rparr>))"

definition DTLSRecord_sniff :: "inbound_context \<Rightarrow> byte list \<Rightarrow> sniffed" where
  "DTLSRecord_sniff metadata packet =
     (if length packet < 13 then invalid metadata
      else if packet ! 0 \<notin> {20, 21, 22, 23, 25} then invalid metadata
      else if packet ! 1 \<noteq> 0xfe then invalid metadata
      else if packet ! 2 \<noteq> 0xff \<and> packet ! 2 \<noteq> 0xfd then invalid metadata
      else Returns (None, metadata\<lparr>mc_Protocol := ''dtls''\<rparr>))"

definition STUNMessage_sniff :: "inbound_context \<Rightarrow> byte list \<Rightarrow> sniffed" where
  "STUNMessage_sniff metadata packet =
     (if length packet < 20 then invalid metadata
      else if u32_at packet 4 \<noteq> 0x2112A442 then invalid metadata
      else if length packet < 20 + unat (u16_at packet 2) then invalid metadata
      else Returns (None, metadata\<lparr>mc_Protocol := ''stun''\<rparr>))"

text \<open>A division by 65536 of a 32-bit number is exact in \<^verbatim>\<open>float64\<close>.\<close>

definition NTP_sniff :: "inbound_context \<Rightarrow> byte list \<Rightarrow> sniffed" where
  "NTP_sniff metadata packet =
     (if length packet < 48 then invalid metadata
      else let firstByte = packet ! 0;
               li = drop_bit 6 firstByte AND 0x03;
               vn = drop_bit 3 firstByte AND 0x07;
               mode = firstByte AND 0x07
           in if li > 3 then invalid metadata
              else if vn \<noteq> 3 \<and> vn \<noteq> 4 then invalid metadata
              else if mode \<noteq> 3 then invalid metadata
              else if unat (u32_at packet 4) > 16 * 65536 then invalid metadata
              else if unat (u32_at packet 8) > 16 * 65536 then invalid metadata
              else Returns (None, metadata\<lparr>mc_Protocol := ''ntp''\<rparr>))"

fun PacketSniffer :: "sniff_env \<Rightarrow> packet_sniffer \<Rightarrow> inbound_context \<Rightarrow> byte list \<Rightarrow> sniffed" where
  "PacketSniffer sx QUICClientHello = QUICClientHello_sniff (sx_quic sx)"
| "PacketSniffer sx DomainNameQuery = DomainNameQuery_sniff sx"
| "PacketSniffer sx STUNMessage = STUNMessage_sniff"
| "PacketSniffer sx UTP = UTP_sniff"
| "PacketSniffer sx UDPTracker = UDPTracker_sniff"
| "PacketSniffer sx DTLSRecord = DTLSRecord_sniff"
| "PacketSniffer sx NTP = NTP_sniff"

subsection \<open>Running the sniffers\<close>

definition Skip :: "inbound_context \<Rightarrow> bool" where
  "Skip metadata = (sa_Port (mc_Destination metadata) \<in> {25, 465, 587, 143, 993, 110, 995})"

fun PeekPacket_loop ::
  "sniff_env \<Rightarrow> inbound_context \<Rightarrow> byte list \<Rightarrow> packet_sniffer list \<Rightarrow> error list \<Rightarrow> sniffed" where
  "PeekPacket_loop sx metadata packet [] sniffError = Returns (Errors sniffError, metadata)"
| "PeekPacket_loop sx metadata packet (sniffer # sniffers) sniffError =
     exec_bind (PacketSniffer sx sniffer metadata packet) (\<lambda>(err, metadata).
       case err of
         None \<Rightarrow> Returns (None, metadata)
       | Some err \<Rightarrow> PeekPacket_loop sx metadata packet sniffers (sniffError @ [err]))"

definition PeekPacket :: "sniff_env \<Rightarrow> inbound_context \<Rightarrow> byte list \<Rightarrow> packet_sniffer list \<Rightarrow> sniffed" where
  "PeekPacket sx metadata packet sniffers = PeekPacket_loop sx metadata packet sniffers []"

text \<open>
  What a connection gives, one event per read: the bytes read, with an error if the read had
  one, or the failure to set the deadline. When the events are used up every further read runs
  into the deadline without a byte. The room of the packet buffer is not modelled: a read of a
  full buffer is an event with an error.
\<close>

datatype read_event = Read_returns "byte list" "error option" | Deadline_fails error

type_synonym stream = "read_event list"

definition ErrTimeout :: error where
  "ErrTimeout = E_Sentinel ''i/o timeout''"

text \<open>The sniffers on the buffers read so far: the first success, or the joined errors.\<close>

fun try_sniffers ::
  "sniff_env \<Rightarrow> inbound_context \<Rightarrow> multi_reader \<Rightarrow> stream_sniffer list \<Rightarrow> error option
   \<Rightarrow> (bool \<times> error option \<times> inbound_context) exec" where
  "try_sniffers sx metadata reader [] sniffError = Returns (False, sniffError, metadata)"
| "try_sniffers sx metadata reader (sniffer # sniffers) sniffError =
     exec_bind (StreamSniffer sx sniffer metadata reader) (\<lambda>(err, metadata).
       case err of
         None \<Rightarrow> Returns (True, None, metadata)
       | Some err \<Rightarrow>
           try_sniffers sx metadata reader sniffers (Errors (case sniffError of None \<Rightarrow> [err] | Some e \<Rightarrow> [e, err])))"

text \<open>\<open>sniffError\<close> is \<open>None\<close> in the first iteration only, where \<open>first\<close> holds.\<close>

fun PeekStream_loop ::
  "sniff_env \<Rightarrow> multi_reader \<Rightarrow> stream_sniffer list \<Rightarrow> bool \<Rightarrow> error option
   \<Rightarrow> inbound_context \<Rightarrow> byte list \<Rightarrow> stream
   \<Rightarrow> (error option \<times> inbound_context \<times> byte list \<times> stream) exec" where
  "PeekStream_loop sx buffers sniffers first sniffError metadata buffer [] =
     Returns (if first then Some (E_Cause ErrTimeout ''read payload'') else sniffError, metadata, buffer, [])"
| "PeekStream_loop sx buffers sniffers first sniffError metadata buffer (Deadline_fails err # conn) =
     Returns (Some (E_Cause err ''set read deadline''), metadata, buffer, conn)"
| "PeekStream_loop sx buffers sniffers first sniffError metadata buffer (Read_returns bs (Some err) # conn) =
     Returns (if first then Some (E_Cause err ''read payload'') else sniffError, metadata, buffer @ bs, conn)"
| "PeekStream_loop sx buffers sniffers first sniffError metadata buffer (Read_returns bs None # conn) =
     exec_bind (try_sniffers sx metadata (buffers @ [buffer @ bs]) sniffers None) (\<lambda>(found, sniffError, metadata).
       if found then Returns (None, metadata, buffer @ bs, conn)
       else if \<not> (case sniffError of None \<Rightarrow> False | Some e \<Rightarrow> error_Is e ErrNeedMoreData)
       then Returns (sniffError, metadata, buffer @ bs, conn)
       else PeekStream_loop sx buffers sniffers False sniffError metadata (buffer @ bs) conn)"

definition PeekStream ::
  "sniff_env \<Rightarrow> inbound_context \<Rightarrow> stream \<Rightarrow> multi_reader \<Rightarrow> stream_sniffer list
   \<Rightarrow> (error option \<times> inbound_context \<times> byte list \<times> stream) exec" where
  "PeekStream sx metadata conn buffers sniffers = PeekStream_loop sx buffers sniffers True None metadata [] conn"

end
