(* ===== verification/Sniff_Spec.thy ===== *)
theory Sniff_Spec
  imports Sniff "HOL-Library.Multiset"
begin

text \<open>
  What the sniffers promise: a fragmented QUIC client hello is found in any order of its
  fragments, the parsers end on every input a packet can carry, and the verdict of a sniffer is
  stable. The inputs on which the sniffers panic or never return are characterised.
\<close>

subsection \<open>The QUIC client hello\<close>

lemma mset_pieces_sum:
  assumes "mset fs = mset (pieces i ps)"
  shows "sum_list (map (\<lambda>fragment. fst (snd fragment)) fs) = length (concat ps)"
proof -
  have "sum_list (map (\<lambda>fragment. fst (snd fragment)) xs)
      = sum_mset (image_mset (\<lambda>fragment. fst (snd fragment)) (mset xs))" for xs :: "qCryptoFragment list"
    by (simp flip: sum_mset_sum_list)
  then have "sum_list (map (\<lambda>fragment. fst (snd fragment)) fs)
      = sum_list (map (\<lambda>fragment. fst (snd fragment)) (pieces i ps))"
    using assms by simp
  also have "\<dots> = length (concat ps)" by (induction ps arbitrary: i) simp_all
  finally show ?thesis .
qed

lemma length_pieces [simp]: "length (pieces i ps) = length ps"
  by (induction ps arbitrary: i) simp_all

text \<open>The handshake message of a hello, without the record header.\<close>

definition hello_message ::
  "16 word \<Rightarrow> byte list \<Rightarrow> byte list \<Rightarrow> 16 word list \<Rightarrow> byte list \<Rightarrow> hello_ext list \<Rightarrow> byte list" where
  "hello_message v random sid ciphers methods exts =
     (let body = hello_body v random sid ciphers methods (map (\<lambda>ext. (hello_ext_type ext, hello_ext_body ext)) exts)
      in [1] @ write_be 3 (of_nat (length body) :: 32 word) @ body)"

lemma hello_input_pieces:
  assumes "mset fs = mset (pieces 0 ps)" and "list_all (\<lambda>p. p \<noteq> []) ps"
    and "concat ps = [1] @ write_be 3 (of_nat (length body) :: 32 word) @ body"
  shows "hello_input fs = Some (hello_record 0x0303 body)"
proof -
  have set: "set fs = set (pieces 0 ([] @ ps))" using assms(1) by (metis append_Nil set_mset_mset)
  have "length fs = length ps" using assms(1) by (metis length_pieces size_mset)
  then have "find_loop (length fs) fs 0 = Some (concat ps)"
    using find_loop_pieces [OF set] assms(2) by simp
  moreover have "sum_list (map (\<lambda>fragment. fst (snd fragment)) fs) = 4 + length body"
    using mset_pieces_sum [OF assms(1)] assms(3) by simp
  ultimately show ?thesis
    using assms(3) by (simp add: hello_input_def hello_record_def del: of_nat_add)
qed

definition quic_hello_limits :: "byte list \<Rightarrow> byte list \<Rightarrow> byte list \<Rightarrow> byte list \<Rightarrow> bool" where
  "quic_hello_limits random sid methods message \<longleftrightarrow>
     length random = 32 \<and> length sid \<le> 255 \<and> length methods \<le> 255 \<and> length message \<le> 65535"

lemma quic_finish_pieces:
  assumes "tls_version_ok v" and "quic_hello_limits random sid methods (hello_message v random sid ciphers methods exts)"
    and "list_all hello_ext_wf exts"
    and "mset (new @ (case mc_SniffContext m of Some old \<Rightarrow> old | None \<Rightarrow> [])) = mset (pieces 0 ps)"
    and "list_all (\<lambda>p. p \<noteq> []) ps" and "concat ps = hello_message v random sid ciphers methods exts"
    and "types \<noteq> []"
  shows "quic_finish types new m =
     (let hello = (foldl hello_add hello_zero exts)\<lparr>ch_Version := v, ch_CipherSuites := ciphers\<rparr>;
          m = m\<lparr>mc_SniffContext := None, mc_Protocol := ''quic'', mc_Domain := ch_ServerName hello\<rparr>
      in Returns (None, if mc_Client m = [] then m\<lparr>mc_Client := quic_client types hello\<rparr> else m))"
proof -
  let ?exts = "map (\<lambda>ext. (hello_ext_type ext, hello_ext_body ext)) exts"
  let ?body = "hello_body v random sid ciphers methods ?exts"
  let ?fs = "new @ (case mc_SniffContext m of Some old \<Rightarrow> old | None \<Rightarrow> [])"
  have input: "hello_input ?fs = Some (hello_record 0x0303 ?body)"
    using assms(4-6) by (intro hello_input_pieces) (simp_all add: hello_message_def Let_def)
  have "Compute (hello_record 0x0303 ?body @ []) =
      Returns (None, (foldl hello_add hello_zero exts)\<lparr>ch_Version := v, ch_CipherSuites := ciphers\<rparr>)"
    using assms(1-3)
    by (subst Compute_encoded)
      (simp_all add: quic_hello_limits_def hello_message_def Let_def tls_version_ok_def read_extensions_encoded)
  then show ?thesis
    using assms(7) by (simp add: quic_finish_def input Let_def)
qed
lemma Compute_short:
  assumes "length body < n" and "n \<le> 65535"
  shows "Compute ([0x16] @ write_be 2 (0x0303 :: 16 word) @ write_be 2 (of_nat n :: 16 word) @ body)
     = Returns (Some (LengthErr 2), hello_zero)"
proof -
  let ?seg = "[0x16] @ write_be 2 (0x0303 :: 16 word) @ write_be 2 (of_nat n :: 16 word) @ body"
  have "u16_at ?seg 1 = u16_at (drop 1 ?seg) 0" by (rule u16_at_drop) simp_all
  then have v: "u16_at ?seg 1 = 0x0303" by simp
  have "u16_at ?seg 3 = u16_at (drop 3 ?seg) 0" by (rule u16_at_drop) simp_all
  then have "u16_at ?seg 3 = of_nat n" by simp
  then have n: "unat (u16_at ?seg 3) = n" using assms(2) by (simp only: unat_of_nat_16)
  have "\<not> length ?seg < 5" "\<not> ?seg ! 0 \<noteq> 22" "tls_version_ok 0x0303" "length (drop 5 ?seg) < n"
    using assms(1) by (simp_all add: tls_version_ok_def)
  then show ?thesis
    unfolding Compute_def parseSegment_def Let_def v n by (simp only: if_False if_True not_True_eq_False)
qed

text \<open>A concrete cipher, a message split in two and a packet that carries one half.\<close>

definition sample_quic :: quic_env where
  "sample_quic = \<lparr>qx_Extract = (\<lambda>_ _. []), qx_Expand = (\<lambda>_ _ n. replicate n 0), qx_Encrypt = (\<lambda>_ _. replicate 16 0),
     qx_Open = (\<lambda>_ _ ciphertext _. Inr (take (length ciphertext - 16) ciphertext))\<rparr>"

definition sample_packet :: "byte list \<Rightarrow> byte list" where
  "sample_packet plain =
     [0xC0, 0, 0, 0, 1, 1, 7, 0, 0] @ put_varint 1 (of_nat (1 + length plain + 16)) @ [0] @ plain @ replicate 16 0"

definition sample_message :: "byte list" where
  "sample_message = hello_message 0x0303 (replicate 32 0) [] [0x1301] [0] [Server_Name ''a.b'']"

definition sample_context :: inbound_context where
  "sample_context = context_zero\<lparr>mc_SniffContext := Some [(20, 39, drop 20 sample_message)]\<rparr>"

lemma length_sample_message: "length sample_message = 59"
  by (simp add: sample_message_def hello_message_def hello_body_def ext_bytes_def Let_def)

lemma sample_plaintext:
  "quic_plaintext sample_quic (sample_packet (crypto_frame 0 20 (take 20 sample_message)))
     = Inr (crypto_frame 0 20 (take 20 sample_message), replicate 16 0)"
  by code_simp

text \<open>
  C28: The QUIC sniffer finds the client hello however it was fragmented. When the CRYPTO
  fragments of a packet and those kept from earlier packets are together the pieces of a client
  hello message, each of them once and in any order, the sniffer returns nil, forgets the
  fragments, sets the protocol and takes the domain of the context from the server name
  extension of the message.
\<close>

theorem quic_hello_found:
  assumes "quic_plaintext qx packet = Inr (plain, behind)"
    and "parse_frames plain behind = Returns (Inr (types, new))"
    and "mset (new @ (case mc_SniffContext m of Some old \<Rightarrow> old | None \<Rightarrow> [])) = mset (pieces 0 ps)"
    and "list_all (\<lambda>p. p \<noteq> []) ps" and "concat ps = hello_message v random sid ciphers methods exts"
    and "tls_version_ok v" and "quic_hello_limits random sid methods (concat ps)" and "list_all hello_ext_wf exts"
    and "types \<noteq> []"
  shows "\<exists>m'. QUICClientHello_sniff qx m packet = Returns (None, m') \<and>
     mc_Protocol m' = ''quic'' \<and> mc_Domain m' = ch_ServerName (foldl hello_add hello_zero exts) \<and>
     mc_SniffContext m' = None \<and> mc_Destination m' = mc_Destination m"
proof -
  have "QUICClientHello_sniff qx m packet = quic_finish types new m"
    using assms(1,2) by (simp add: QUICClientHello_sniff_def)
  then show ?thesis
    using quic_finish_pieces [OF assms(6) _ assms(8,3,4,5,9)] assms(5,7) by (simp add: Let_def)
qed

theorem quic_hello_found_witness:
  "\<exists>m'. QUICClientHello_sniff sample_quic sample_context
       (sample_packet (crypto_frame 0 20 (take 20 sample_message))) = Returns (None, m') \<and>
     mc_Protocol m' = ''quic'' \<and> mc_Domain m' = ''a.b'' \<and> mc_SniffContext m' = None \<and>
     mc_Destination m' = mc_Destination sample_context"
proof -
  have frames: "parse_frames (crypto_frame 0 20 (take 20 sample_message)) (replicate 16 0)
      = Returns (Inr ([frameTypeCrypto], [(0, 20, take 20 sample_message)]))"
    by code_simp
  have pieces: "mset ([(0, 20, take 20 sample_message)]
      @ (case mc_SniffContext sample_context of Some old \<Rightarrow> old | None \<Rightarrow> []))
      = mset (pieces 0 [take 20 sample_message, drop 20 sample_message])"
    by (simp add: sample_context_def length_sample_message)
  have limits: "quic_hello_limits (replicate 32 0) [] [0] (concat [take 20 sample_message, drop 20 sample_message])"
    by (simp add: quic_hello_limits_def length_sample_message)
  have "ch_ServerName (foldl hello_add hello_zero [Server_Name ''a.b'']) = ''a.b''" by code_simp
  moreover have "list_all (\<lambda>p. p \<noteq> []) [take 20 sample_message, drop 20 sample_message]" by code_simp
  moreover have "tls_version_ok 0x0303" "list_all hello_ext_wf [Server_Name ''a.b'']"
    by (simp_all add: tls_version_ok_def)
  ultimately show ?thesis
    using quic_hello_found [OF sample_plaintext frames pieces _ _ _ limits,
      where v = "0x0303" and ciphers = "[0x1301]" and exts = "[Server_Name ''a.b'']"]
    by (simp add: sample_message_def)
qed

text \<open>One call with a fragment held twice.\<close>

lemma quic_finish_again:
  assumes "fs = new @ (case mc_SniffContext m of Some old \<Rightarrow> old | None \<Rightarrow> [])"
    and "mset fs = mset (pieces 0 ps) + mset again" and "set again \<subseteq> set (pieces 0 ps)" and "again \<noteq> []"
    and "list_all (\<lambda>p. p \<noteq> []) ps" and "sum_list (map (\<lambda>fragment. fst (snd fragment)) fs) \<le> 65535"
  shows "quic_finish types new m = Returns (Some (Cause1 ErrNeedMoreData (LengthErr 2)),
     m\<lparr>mc_SniffContext := Some fs, mc_Protocol := ''quic''\<rparr>)"
proof -
  let ?sum = "\<lambda>xs. sum_list (map (\<lambda>fragment. fst (snd fragment)) xs)"
  have "set fs = set (pieces 0 ([] @ ps))"
    using assms(2,3) by (metis Un_absorb2 append_Nil set_mset_mset set_mset_union)
  moreover have "length ps \<le> length fs"
    using arg_cong [OF assms(2), of size] by simp
  ultimately have body: "find_loop (length fs) fs 0 = Some (concat ps)"
    using find_loop_pieces [of fs "[]" ps "length fs"] assms(5) by simp
  have "mset fs = mset (pieces 0 ps @ again)" using assms(2) by simp
  then have "image_mset (\<lambda>fragment. fst (snd fragment)) (mset fs)
      = image_mset (\<lambda>fragment. fst (snd fragment)) (mset (pieces 0 ps @ again))" by (rule arg_cong)
  then have "mset (map (\<lambda>fragment. fst (snd fragment)) fs)
      = mset (map (\<lambda>fragment. fst (snd fragment)) (pieces 0 ps @ again))" by (simp only: mset_map)
  then have "?sum fs = ?sum (pieces 0 ps @ again)"
    using sum_mset_sum_list by metis
  then have sum: "?sum fs = length (concat ps) + ?sum again"
    using mset_pieces_sum [OF refl, of 0 ps] by simp
  obtain f rest where again: "again = f # rest" using assms(4) by (cases again) simp_all
  obtain off len p where f: "f = (off, len, p)" by (cases f)
  have "0 < len" using pieces_end [of off len p 0 ps] assms(3,5) again f by simp
  then have "length (concat ps) < ?sum fs" using sum again f by simp
  then have "Compute ([0x16] @ write_be 2 (0x0303 :: 16 word) @ write_be 2 (of_nat (?sum fs) :: 16 word) @ concat ps)
      = Returns (Some (LengthErr 2), hello_zero)"
    using assms(6) by (rule Compute_short)
  moreover have "hello_input fs = Some ([0x16] @ write_be 2 (0x0303 :: 16 word) @ write_be 2 (of_nat (?sum fs) :: 16 word) @ concat ps)"
    by (simp add: hello_input_def body)
  ultimately show ?thesis
    by (simp add: quic_finish_def assms(1) [symmetric] Let_def)
qed

text \<open>The packets of a flow one after the other: each call starts from the context the last one left.\<close>

fun quic_calls ::
  "(byte list \<times> qCryptoFragment list) list \<Rightarrow> inbound_context \<Rightarrow> (error option list \<times> inbound_context) exec" where
  "quic_calls [] m = Returns ([], m)"
| "quic_calls ((types, new) # packets) m =
     exec_bind (quic_finish types new m) (\<lambda>(err, m1).
       exec_bind (quic_calls packets m1) (\<lambda>(errs, m2). Returns (err # errs, m2)))"

text \<open>
  C29: A retransmitted fragment makes the hello unreadable. Suppose all pieces of a message have
  arrived and at least one of them twice. The declared record length counts that piece twice, the
  parser finds the record too short, and the sniffer asks for more data and keeps all fragments. It
  does so again for every later packet with pieces of the message, as long as the lengths of all the
  fragments it holds sum to at most 65535. Beyond that the 16-bit length of the record wraps around,
  and nothing is stated.
\<close>

theorem quic_retransmission:
  assumes "mset (new @ (case mc_SniffContext m of Some old \<Rightarrow> old | None \<Rightarrow> [])) = mset (pieces 0 ps) + mset again"
    and "set again \<subseteq> set (pieces 0 ps)" and "again \<noteq> []" and "list_all (\<lambda>p. p \<noteq> []) ps"
    and "\<forall>packet\<in>set packets. set (snd packet) \<subseteq> set (pieces 0 ps)"
    and "fs = concat (rev (map snd packets)) @ new @ (case mc_SniffContext m of Some old \<Rightarrow> old | None \<Rightarrow> [])"
    and "sum_list (map (\<lambda>fragment. fst (snd fragment)) fs) \<le> 65535"
  shows "quic_calls ((types, new) # packets) m =
     Returns (replicate (Suc (length packets)) (Some (Cause1 ErrNeedMoreData (LengthErr 2))),
       m\<lparr>mc_SniffContext := Some fs, mc_Protocol := ''quic''\<rparr>)"
  using assms
proof (induction packets arbitrary: types new m again fs)
  case Nil
  then show ?case
    using quic_finish_again [OF refl Nil.prems(1-4), of types] by simp
next
  case (Cons packet packets)
  let ?held = "new @ (case mc_SniffContext m of Some old \<Rightarrow> old | None \<Rightarrow> [])"
  let ?m1 = "m\<lparr>mc_SniffContext := Some ?held, mc_Protocol := ''quic''\<rparr>"
  obtain types1 new1 where packet: "packet = (types1, new1)" by (cases packet)
  have "sum_list (map (\<lambda>fragment. fst (snd fragment)) ?held) \<le> 65535"
    using Cons.prems(6,7) by simp
  then have first: "quic_finish types new m = Returns (Some (Cause1 ErrNeedMoreData (LengthErr 2)), ?m1)"
    by (rule quic_finish_again [OF refl Cons.prems(1-4)])
  have "mset (new1 @ ?held) = mset (pieces 0 ps) + mset (new1 @ again)"
    using Cons.prems(1) by simp
  then have "mset (new1 @ (case mc_SniffContext ?m1 of Some old \<Rightarrow> old | None \<Rightarrow> [])) = mset (pieces 0 ps) + mset (new1 @ again)"
    by simp
  moreover have "set (new1 @ again) \<subseteq> set (pieces 0 ps)" "new1 @ again \<noteq> []"
    "\<forall>packet\<in>set packets. set (snd packet) \<subseteq> set (pieces 0 ps)"
    using Cons.prems(2,3,5) packet by auto
  moreover have "fs = concat (rev (map snd packets)) @ new1 @ (case mc_SniffContext ?m1 of Some old \<Rightarrow> old | None \<Rightarrow> [])"
    using Cons.prems(6) packet by simp
  ultimately have "quic_calls ((types1, new1) # packets) ?m1 =
     Returns (replicate (Suc (length packets)) (Some (Cause1 ErrNeedMoreData (LengthErr 2))),
       ?m1\<lparr>mc_SniffContext := Some fs, mc_Protocol := ''quic''\<rparr>)"
    using Cons.IH [OF _ _ _ Cons.prems(4) _ _ Cons.prems(7)] by blast
  then show ?case
    unfolding packet quic_calls.simps(2) [of types new "(types1, new1) # packets"] first by simp
qed

theorem quic_retransmission_witness:
  "quic_calls [([6], [(0, 2, [1, 2])]), ([6], [(2, 1, [3])])] (context_zero\<lparr>mc_SniffContext := Some [(2, 1, [3]), (0, 2, [1, 2])]\<rparr>)
     = Returns (replicate (Suc 1) (Some (Cause1 ErrNeedMoreData (LengthErr 2))),
         context_zero\<lparr>mc_SniffContext := Some [(2, 1, [3]), (0, 2, [1, 2]), (2, 1, [3]), (0, 2, [1, 2])], mc_Protocol := ''quic''\<rparr>)"
  using quic_retransmission [of "[(0, 2, [1, 2])]" "context_zero\<lparr>mc_SniffContext := Some [(2, 1, [3]), (0, 2, [1, 2])]\<rparr>"
      "[[1, 2], [3]]" "[(0, 2, [1, 2])]" "[([6], [(2, 1, [3])])]"
      "[(2, 1, [3]), (0, 2, [1, 2]), (2, 1, [3]), (0, 2, [1, 2])]" "[6]"]
  by (simp add: add_mset_commute numeral_2_eq_2 del: quic_calls.simps)

text \<open>
  C30: The reassembly of CRYPTO fragments ends exactly if the loop never reaches an index at
  which an empty fragment is the first one found; as many iterations as there are fragments
  decide it, and a loop that has not ended by then never ends.
\<close>

theorem quic_reassembly_ends:
  "(hello_input fs = None \<longleftrightarrow> (\<exists>j. visits fs 0 j \<and> stuck_at fs j)) \<and>
   (hello_input fs = None \<longleftrightarrow> (\<forall>n. find_loop n fs 0 = None))"
proof -
  have input: "hello_input fs = None \<longleftrightarrow> find_loop (length fs) fs 0 = None"
    by (simp add: hello_input_def Let_def)
  have "find_loop (length fs) fs 0 = None \<longleftrightarrow> (\<forall>n. find_loop n fs 0 = None)"
    by (rule iffI) (rule allI, erule find_loop_forever, erule spec)
  then show ?thesis
    unfolding input by (rule conjI [OF find_loop_None_iff])
qed

text \<open>
  C31: Two packets that anyone can build, since the keys of an Initial packet follow from its
  header. A CRYPTO frame with a length beyond the memory of the packet makes the sniffer panic,
  and a CRYPTO frame without payload at offset zero makes it loop forever.
\<close>

theorem quic_hostile_packets:
  assumes "quic_plaintext qx packet = Inr (pad @ crypto_frame offset n payload, behind)"
    and "idle pad" and "unat offset < 2 ^ 62" and "unat n < 2 ^ 62"
    and "unat n > length payload + length behind \<or> offset = 0 \<and> n = 0 \<and> idle payload"
  shows "QUICClientHello_sniff qx m packet =
     (if unat n > length payload + length behind then Panics else Diverges)"
proof (cases "unat n > length payload + length behind")
  case True
  then have "parse_frames (pad @ crypto_frame offset n payload) behind = Panics"
    using assms by (intro crypto_frame_panics) simp_all
  then show ?thesis using assms(1) True by (simp add: QUICClientHello_sniff_def)
next
  case False
  then have zero: "offset = 0" "n = 0" and idle: "idle payload" using assms(5) by auto
  have frame: "crypto_frame offset n payload = crypto_frame 0 0 [] @ payload"
    by (simp add: crypto_frame_def zero)
  have "parse_frames (pad @ crypto_frame 0 0 [] @ payload) behind
      = Returns (Inr (pad @ [frameTypeCrypto] @ payload, [(0, 0, [])]))"
    using crypto_frames_read [of pad 0 0 "[]" payload behind] assms(2) idle by simp
  moreover have "hello_input ((0, 0, []) # old) = None" for old
    using find_loop_stuck [of 0 "(0, 0, []) # old" "[]"] by (simp add: hello_input_def Let_def)
  then have "quic_finish types [(0, 0, [])] m = Diverges" for types
    by (simp add: quic_finish_def Let_def)
  ultimately show ?thesis
    using assms(1) False frame by (simp add: QUICClientHello_sniff_def)
qed

lemma sample_hostile_plaintexts:
  "quic_plaintext sample_quic (sample_packet ([0] @ crypto_frame 0 100 [])) = Inr ([0] @ crypto_frame 0 100 [], replicate 16 0)"
  "quic_plaintext sample_quic (sample_packet ([0] @ crypto_frame 0 0 [])) = Inr ([0] @ crypto_frame 0 0 [], replicate 16 0)"
  by code_simp+

theorem quic_hostile_packets_witness:
  "QUICClientHello_sniff sample_quic context_zero (sample_packet ([0] @ crypto_frame 0 100 [])) = Panics \<and>
   QUICClientHello_sniff sample_quic context_zero (sample_packet ([0] @ crypto_frame 0 0 [])) = Diverges"
  using quic_hostile_packets [OF sample_hostile_plaintexts(1), of context_zero]
    quic_hostile_packets [OF sample_hostile_plaintexts(2), of context_zero]
  by (simp add: idle_def)

subsection \<open>The client hello parser\<close>

text \<open>
  C32: On a well-framed ClientHello the parser panics exactly if the first extension that fails
  a check is a list of supported versions or signature algorithms whose declared length, an odd one
  rounded up to the next even number since the entries are read in pairs of bytes, exceeds the bytes
  that the extension has for it. So a list that declares three bytes and has three panics too.
\<close>

theorem hello_panics_iff:
  assumes "tls_version_ok rv" and "tls_version_ok v" and "length random = 32" and "length sid \<le> 255"
    and "length methods \<le> 255" and "length (hello_body v random sid ciphers methods exts) \<le> 65531"
  shows "Compute (hello_record rv (hello_body v random sid ciphers methods exts) @ rest) = Panics \<longleftrightarrow> panicking exts"
proof -
  let ?r = "read_extensions exts hello_zero"
  have "Compute (hello_record rv (hello_body v random sid ciphers methods exts) @ rest) = Panics \<longleftrightarrow> ?r = Panics"
    unfolding Compute_encoded [OF assms] by (cases ?r) (auto split: option.splits)
  then show ?thesis by (simp add: read_extensions_Panics)
qed

theorem hello_panics_iff_witness:
  "Compute (hello_record 0x0301 (hello_body 0x0303 (replicate 32 0) [] [0x1301] [0] [(0x1a1a, []), (43, [2])])) = Panics \<and>
   Compute (hello_record 0x0301 (hello_body 0x0303 (replicate 32 0) [] [0x1301] [0] [(43, [3, 0, 0, 0])])) = Panics \<and>
   Compute (hello_record 0x0301 (hello_body 0x0303 (replicate 32 0) [] [0x1301] [0] [(43, [2, 0, 0, 0])])) \<noteq> Panics"
  using hello_panics_iff [of "0x0301" "0x0303" "replicate 32 0" "[]" "[0]" "[0x1301]" "[(0x1a1a, []), (43, [2])]" "[]"]
    hello_panics_iff [of "0x0301" "0x0303" "replicate 32 0" "[]" "[0]" "[0x1301]" "[(43, [3, 0, 0, 0])]" "[]"]
    hello_panics_iff [of "0x0301" "0x0303" "replicate 32 0" "[]" "[0]" "[0x1301]" "[(43, [2, 0, 0, 0])]" "[]"]
  by (simp add: tls_version_ok_def hello_body_def ext_bytes_def panicking_def ext_ok_def ext_lies_def)

text \<open>
  C33: The parser ends on every input. The addition of the extension header to a 16-bit length
  would wrap and let the loop stand still, but a record has at most 65535 bytes, so no length
  that passes the check in front of it wraps.
\<close>

theorem hello_parser_ends:
  "Compute payload \<noteq> Diverges \<and>
   (\<exists>exs. length exs = 65536 \<and> (\<forall>fuel acc. extensions_loop fuel exs acc = Diverges))"
proof
  show "Compute payload \<noteq> Diverges" by (simp add: Compute_def parseSegment_ends)
  show "\<exists>exs. length exs = 65536 \<and> (\<forall>fuel acc. extensions_loop fuel exs acc = Diverges)"
    using extensions_loop_stuck [of "replicate 65532 0"]
    by (intro exI [of _ "[0xAA, 0xAA, 0xFF, 0xFC] @ replicate 65532 0"]) simp
qed

subsection \<open>Verdicts of the stream sniffers\<close>

text \<open>A verdict is definite unless the sniffer asks for more data.\<close>

definition definite :: "sniffed \<Rightarrow> bool" where
  "definite r \<longleftrightarrow> (case r of
     Returns (Some err, _) \<Rightarrow> \<not> error_Is err ErrNeedMoreData | Returns (None, _) \<Rightarrow> True | _ \<Rightarrow> False)"

lemma definite_simps [simp]:
  "definite (need_more m err) = False"
  "definite (Returns (Some ErrNeedMoreData, m)) = False"
  "definite Panics = False"
  by (simp_all add: definite_def Cause1_def)

text \<open>A field of the header as a function of the bytes: what follows does not matter.\<close>

definition stable :: "(byte list \<Rightarrow> sniffed) \<Rightarrow> bool" where
  "stable k \<longleftrightarrow> (\<forall>bs x. definite (k bs) \<longrightarrow> k (bs @ x) = k bs)"

definition bytes_field :: "nat \<Rightarrow> (byte list \<Rightarrow> bool) \<Rightarrow> inbound_context \<Rightarrow> (byte list \<Rightarrow> sniffed) \<Rightarrow> byte list \<Rightarrow> sniffed" where
  "bytes_field n good m k bs =
     (if n \<le> length bs then if good (take n bs) then k (drop n bs) else invalid m
      else need_more m (if bs = [] then EOF else UnexpectedEOF))"

lemma concat_mr_drop: "concat (mr_drop n rs) = drop n (concat rs)"
  by (induction n rs rule: mr_drop.induct) simp_all

lemma rdp_field_bytes:
  assumes "\<And>rs. k rs = k' (concat rs)"
  shows "rdp_field n good m rs k = bytes_field n good m k' (concat rs)"
  by (simp add: rdp_field_def bytes_field_def mr_ReadFull_def assms concat_mr_drop)

lemma stable_field: "stable k \<Longrightarrow> stable (bytes_field n good m k)"
  unfolding stable_def
proof (intro allI impI)
  fix bs x
  assume k: "\<forall>bs x. definite (k bs) \<longrightarrow> k (bs @ x) = k bs" and d: "definite (bytes_field n good m k bs)"
  then have "n \<le> length bs" by (auto simp: bytes_field_def split: if_splits)
  with k d show "bytes_field n good m k (bs @ x) = bytes_field n good m k bs"
    by (auto simp: bytes_field_def)
qed

lemma stable_const: "stable (\<lambda>_. r)"
  by (simp add: stable_def)

definition RDP_bytes :: "inbound_context \<Rightarrow> byte list \<Rightarrow> sniffed" where
  "RDP_bytes m =
     bytes_field 1 (\<lambda>f. f = [0x03]) m (bytes_field 1 (\<lambda>f. f = [0x00]) m
     (bytes_field 2 (\<lambda>f. be_word f = (19 :: 16 word)) m (bytes_field 1 (\<lambda>f. f = [14]) m
     (bytes_field 1 (\<lambda>f. f = [0xE0]) m (bytes_field 5 (\<lambda>_. True) m (bytes_field 1 (\<lambda>f. f = [0x01]) m
     (bytes_field 1 (\<lambda>_. True) m (bytes_field 1 (\<lambda>f. f = [8]) m
       (\<lambda>_. Returns (None, m\<lparr>mc_Protocol := ''rdp''\<rparr>))))))))))"

lemma RDP_sniff_bytes: "RDP_sniff m rs = RDP_bytes m (concat rs)"
  unfolding RDP_sniff_def RDP_bytes_def by (intro rdp_field_bytes refl)

lemma stable_RDP: "stable (RDP_bytes m)"
  unfolding RDP_bytes_def by (intro stable_field stable_const)

lemma length_string_of [simp]: "length (string_of bs) = length bs"
  by (simp add: string_of_def)

lemma string_of_take: "string_of (take n bs) = take n (string_of bs)"
  by (simp add: string_of_def take_map)

lemma take_prefix_longer:
  assumes "take n bs \<noteq> take (length (take n bs)) p"
  shows "take n (bs @ x) \<noteq> take (length (take n (bs @ x))) p"
proof
  assume eq: "take n (bs @ x) = take (length (take n (bs @ x))) p"
  have "take n bs = take (length (take n bs)) (take n (bs @ x))" by (simp add: min_def)
  also have "\<dots> = take (length (take n bs)) (take (length (take n (bs @ x))) p)"
    by (rule arg_cong [OF eq])
  also have "\<dots> = take (length (take n bs)) p" by (simp add: min_def)
  finally have "take n bs = take (length (take n bs)) p" .
  with assms show False by (rule notE)
qed

lemma stable_BitTorrent:
  assumes "definite (BitTorrent_sniff m [d])"
  shows "BitTorrent_sniff m [d @ x] = BitTorrent_sniff m [d]"
proof (cases d)
  case Nil
  then show ?thesis using assms by (simp add: BitTorrent_sniff_def mr_ReadFull_def)
next
  case (Cons b bs)
  show ?thesis
  proof (cases "b = 19 \<and> bs \<noteq> []")
    case False
    then show ?thesis
      using assms Cons by (auto simp: BitTorrent_sniff_def mr_ReadFull_def string_of_def split: if_splits)
  next
    case True
    let ?p = "''BitTorrent protocol''"
    let ?head = "\<lambda>bs. take 19 (string_of bs)"
    have go: "BitTorrent_sniff m [b # cs] =
        (if ?head cs \<noteq> take (length (?head cs)) ?p then invalid m
         else if length cs < 19 then Returns (Some ErrNeedMoreData, m)
         else Returns (None, m\<lparr>mc_Protocol := ''bittorrent''\<rparr>))" if "cs \<noteq> []" for cs
      using that True by (simp add: BitTorrent_sniff_def mr_ReadFull_def string_of_take)
    have app: "string_of (bs @ x) = string_of bs @ string_of x" by (simp add: string_of_def)
    show ?thesis
    proof (cases "?head bs \<noteq> take (length (?head bs)) ?p")
      case bad: True
      then have "?head (bs @ x) \<noteq> take (length (?head (bs @ x))) ?p"
        unfolding app by (rule take_prefix_longer)
      then show ?thesis using bad True Cons go [of bs] go [of "bs @ x"] by simp
    next
      case False
      then have "\<not> length bs < 19" using assms True Cons go [of bs] by auto
      then have "?head (bs @ x) = ?head bs" unfolding app by simp
      then show ?thesis using False True Cons go [of bs] go [of "bs @ x"] \<open>\<not> length bs < 19\<close> by simp
    qed
  qed
qed

text \<open>The checks on the bytes of a DNS message that are there already.\<close>

definition dns_bad :: "byte list \<Rightarrow> bool" where
  "dns_bad packet \<longleftrightarrow> length packet > 2 \<and> (packet ! 2) AND 0x80 \<noteq> 0 \<or>
     length packet > 5 \<and> packet ! 4 = 0 \<and> packet ! 5 = 0 \<or>
     list_ex (\<lambda>i. length packet > i \<and> packet ! i \<noteq> 0) [6..<10]"

definition dns_bytes :: "sniff_env \<Rightarrow> inbound_context \<Rightarrow> nat \<Rightarrow> byte list \<Rightarrow> sniffed" where
  "dns_bytes sx m n bs =
     (if n < 12 \<or> dns_bad (take n bs) then invalid m
      else if length bs < n then need_more m (if take n bs = [] then EOF else UnexpectedEOF)
      else DomainNameQuery_sniff sx m (take n bs))"

lemma StreamDomainNameQuery_bytes:
  "StreamDomainNameQuery_sniff sx m rs =
     (if length (concat rs) < 2 then need_more m (if concat rs = [] then EOF else UnexpectedEOF)
      else dns_bytes sx m (unat (be_word (take 2 (concat rs)) :: 16 word)) (drop 2 (concat rs)))"
  by (auto simp: StreamDomainNameQuery_sniff_def mr_ReadFull_def dns_bytes_def dns_bad_def Let_def
      concat_mr_drop not_less min_def)

lemma nth_append_less: "i < length xs \<Longrightarrow> (xs @ ys) ! i = xs ! i"
  by (simp add: nth_append)

lemma dns_bad_append: "dns_bad p \<Longrightarrow> dns_bad (p @ x)"
  unfolding dns_bad_def list_ex_iff
  by (elim disjE conjE bexE) (simp_all add: nth_append_less, auto simp: nth_append_less intro!: bexI)

lemma stable_dns_bytes:
  assumes "definite (dns_bytes sx m n bs)"
  shows "dns_bytes sx m n (bs @ x) = dns_bytes sx m n bs"
proof (cases "dns_bad (take n bs)")
  case True
  then have "dns_bad (take n (bs @ x))" using dns_bad_append by (simp add: take_append)
  with True show ?thesis by (simp add: dns_bytes_def)
next
  case False
  then have "n < 12 \<or> n \<le> length bs" using assms by (auto simp: dns_bytes_def split: if_splits)
  then show ?thesis by (auto simp: dns_bytes_def)
qed

lemma stable_StreamDomainNameQuery:
  assumes "definite (StreamDomainNameQuery_sniff sx m [d])"
  shows "StreamDomainNameQuery_sniff sx m [d @ x] = StreamDomainNameQuery_sniff sx m [d]"
proof -
  have "2 \<le> length d" using assms by (auto simp: StreamDomainNameQuery_bytes split: if_splits)
  then show ?thesis
    using assms stable_dns_bytes by (simp add: StreamDomainNameQuery_bytes)
qed

lemma ssh_line:
  assumes "take 8 (string_of bs) = ''SSH-2.0-''"
  shows "8 \<le> length (ReadLine bs)"
proof -
  have "length (take 8 (string_of bs)) = 8" using assms by simp
  then have len: "8 \<le> length bs" by (simp add: min_def split: if_splits)
  have chars: "char_of (unat (bs ! i)) = ''SSH-2.0-'' ! i" if "i < 8" for i
    using arg_cong [OF assms, of "\<lambda>s. s ! i"] that len by (simp add: string_of_def)
  have plain: "bs ! i \<noteq> 10 \<and> bs ! i \<noteq> 13" if "i < 8" for i
  proof -
    have "''SSH-2.0-'' ! i \<in> set ''SSH-2.0-''" using that by (intro nth_mem) simp
    then have "char_of (unat (bs ! i)) \<in> set ''SSH-2.0-''" using chars [OF that] by simp
    then show ?thesis by (auto simp: char_of_def)
  qed
  let ?w = "take 4096 bs"
  let ?l = "takeWhile (\<lambda>b. b \<noteq> 10) ?w"
  have prefix: "takeWhile (\<lambda>b. b \<noteq> 10) ?w = take 8 bs @ takeWhile (\<lambda>b. b \<noteq> 10) (drop 8 ?w)"
  proof -
    have w: "take 8 bs @ drop 8 ?w = ?w" using append_take_drop_id [of 8 ?w] by simp
    have "takeWhile (\<lambda>b. b \<noteq> 10) (take 8 bs @ drop 8 ?w) = take 8 bs @ takeWhile (\<lambda>b. b \<noteq> 10) (drop 8 ?w)"
      using plain len by (intro takeWhile_append2) (auto simp: in_set_conv_nth)
    then show ?thesis by (simp only: w)
  qed
  show ?thesis
  proof (cases "?l \<noteq> [] \<and> last ?l = 13")
    case False
    then show ?thesis using prefix len by (auto simp: ReadLine_def strip_cr_def Let_def)
  next
    case True
    have "?l \<noteq> take 8 bs"
    proof
      assume eq: "?l = take 8 bs"
      have "take 8 bs \<noteq> []" using len by auto
      then have "last (take 8 bs) = take 8 bs ! (length (take 8 bs) - 1)" by (rule last_conv_nth)
      then have "last (take 8 bs) = bs ! 7" using len by (simp add: min_def)
      then show False using True eq plain [of 7] by simp
    qed
    then have "8 < length ?l" using prefix len by (cases "takeWhile (\<lambda>b. b \<noteq> 10) (drop 8 ?w)") simp_all
    then show ?thesis by (auto simp: ReadLine_def strip_cr_def Let_def)
  qed
qed

lemma SSH_sniff_bytes:
  "SSH_sniff m rs =
     (let s = take 8 (string_of (concat rs)) in
      if s \<noteq> take (length s) ''SSH-2.0-'' then invalid m
      else if length (concat rs) < 8 then need_more m EOF
      else Returns (None, m\<lparr>mc_Protocol := ''ssh'', mc_Client := drop 8 (string_of (ReadLine (concat rs)))\<rparr>))"
proof -
  have "8 \<le> length (ReadLine (concat rs))"
    if "take 8 (string_of (concat rs)) = take (length (take 8 (string_of (concat rs)))) ''SSH-2.0-''"
      and "\<not> length (concat rs) < 8"
  proof (rule ssh_line)
    have "length (take 8 (string_of (concat rs))) = 8" using that(2) by simp
    then show "take 8 (string_of (concat rs)) = ''SSH-2.0-''" using that(1) by simp
  qed
  then show ?thesis
    by (auto simp: SSH_sniff_def Let_def string_of_take not_less)
qed

lemma stable_SSH:
  assumes "definite (SSH_sniff m [d])"
  shows "\<exists>err m1 m2. SSH_sniff m [d] = Returns (err, m1) \<and> SSH_sniff m [d @ x] = Returns (err, m2) \<and>
     mc_Protocol m2 = mc_Protocol m1"
proof -
  have app: "string_of (d @ x) = string_of d @ string_of x" by (simp add: string_of_def)
  let ?bad = "\<lambda>d. take 8 (string_of d) \<noteq> take (length (take 8 (string_of d))) ''SSH-2.0-''"
  show ?thesis
  proof (cases "?bad d")
    case True
    then have "?bad (d @ x)" unfolding app by (rule take_prefix_longer)
    with True show ?thesis by (simp add: SSH_sniff_bytes Let_def)
  next
    case False
    then have "8 \<le> length d" using assms by (auto simp: SSH_sniff_bytes Let_def split: if_splits)
    moreover from this have "\<not> ?bad (d @ x)" using False unfolding app by simp
    ultimately show ?thesis using False by (simp add: SSH_sniff_bytes Let_def)
  qed
qed

text \<open>
  C34: The stream sniffers for DNS, BitTorrent, SSH and RDP can be run on whatever part of the
  stream has arrived, as long as it is in one contiguous buffer: once such a sniffer has answered
  anything but that it needs more data, more data in that buffer does not change the answer or the
  protocol.
\<close>

theorem stream_sniffers_stable:
  assumes "s \<in> {StreamDomainNameQuery, BitTorrent, SSH, RDP}" and "definite (StreamSniffer sx s m [d])"
  shows "\<exists>err m1 m2. StreamSniffer sx s m [d] = Returns (err, m1) \<and>
     StreamSniffer sx s m [d @ more_data] = Returns (err, m2) \<and> mc_Protocol m2 = mc_Protocol m1"
proof -
  have same: "\<exists>err m1 m2. r = Returns (err, m1) \<and> r' = Returns (err, m2) \<and> mc_Protocol m2 = mc_Protocol m1"
    if "r' = r" and "definite r" for r r' :: sniffed
    using that by (cases r) (auto simp: definite_def)
  consider "s = StreamDomainNameQuery" | "s = BitTorrent" | "s = SSH" | "s = RDP" using assms(1) by blast
  then show ?thesis
  proof cases
    case 1
    then show ?thesis using assms(2) by (intro same) (simp_all add: stable_StreamDomainNameQuery)
  next
    case 2
    then show ?thesis using assms(2) by (intro same) (simp_all add: stable_BitTorrent)
  next
    case 3
    then show ?thesis using assms(2) stable_SSH by simp
  next
    case 4
    then show ?thesis
      using assms(2) stable_RDP [of m] by (intro same) (simp_all add: RDP_sniff_bytes stable_def)
  qed
qed

theorem stream_sniffers_stable_witness:
  "\<exists>err m1 m2. BitTorrent_sniff context_zero [19 # bytes_of ''BitTorrent protocol''] = Returns (err, m1) \<and>
     BitTorrent_sniff context_zero [(19 # bytes_of ''BitTorrent protocol'') @ [0, 0]] = Returns (err, m2) \<and>
     mc_Protocol m2 = mc_Protocol m1"
proof -
  have "definite (BitTorrent_sniff context_zero [19 # bytes_of ''BitTorrent protocol''])" by code_simp
  then show ?thesis
    using stream_sniffers_stable [of BitTorrent undefined context_zero "19 # bytes_of ''BitTorrent protocol''" "[0, 0]"]
    by simp
qed

text \<open>A stream read in two pieces hides the BitTorrent header from a single \<^verbatim>\<open>Read\<close>.\<close>

lemma BitTorrent_split:
  "BitTorrent_sniff m [[19, 66, 105, 116, 84], rest] = Returns (Some ErrNeedMoreData, m)"
proof -
  have "string_of [66, 105, 116, 84] = ''BitT''" by code_simp
  then show ?thesis by (simp add: BitTorrent_sniff_def mr_ReadFull_def)
qed

subsection \<open>Packet sniffers do not compete\<close>

lemma write_be_low: "write_be n (push_bit (8 * n) v OR w) = write_be n (w :: 'a::len word)"
proof -
  have "write_be k (push_bit (8 * n) v OR w) = write_be k w" if "k \<le> n" for k
    using that
  proof (induction k)
    case (Suc k)
    have "ucast (drop_bit (8 * k) (push_bit (8 * n) v OR w)) = (ucast (drop_bit (8 * k) w) :: byte)"
      using Suc.prems
      by (intro bit_word_eqI) (auto simp: bit_ucast_iff bit_drop_bit_eq bit_or_iff bit_push_bit_iff)
    then show ?case using Suc by simp
  qed simp
  then show ?thesis by simp
qed

lemma write_be_be_word: "8 * length bs \<le> LENGTH('a) \<Longrightarrow> write_be (length bs) (be_word bs :: 'a::len word) = bs"
proof (induction bs)
  case (Cons b bs)
  let ?n = "length bs"
  have "ucast (drop_bit (8 * ?n) (be_word (b # bs) :: 'a word)) = b"
    using Cons.prems bit_be_word [of bs, where 'a = 'a]
    by (intro bit_word_eqI) (fastforce simp: bit_ucast_iff bit_drop_bit_eq bit_or_iff bit_push_bit_iff)
  then show ?case using Cons by (simp add: write_be_low)
qed simp

definition accepts :: "sniff_env \<Rightarrow> packet_sniffer \<Rightarrow> inbound_context \<Rightarrow> byte list \<Rightarrow> bool" where
  "accepts sx s m packet \<longleftrightarrow> (\<exists>m'. PacketSniffer sx s m packet = Returns (None, m'))"

lemma accepts_UTP: "accepts sx UTP m p \<Longrightarrow> (p ! 0) AND 0x0F = 1"
  by (auto simp: accepts_def UTP_sniff_def Let_def split: if_splits)

lemma accepts_DTLS: "accepts sx DTLSRecord m p \<Longrightarrow> p ! 0 \<in> {20, 21, 22, 23, 25}"
  by (auto simp: accepts_def DTLSRecord_sniff_def split: if_splits)

lemma accepts_NTP: "accepts sx NTP m p \<Longrightarrow> (p ! 0) AND 0x07 = 3 \<and> unat (u32_at p 4) \<le> 1048576"
  by (auto simp: accepts_def NTP_sniff_def Let_def split: if_splits)

lemma accepts_STUN: "accepts sx STUNMessage m p \<Longrightarrow> u32_at p 4 = 0x2112A442"
  by (auto simp: accepts_def STUNMessage_sniff_def split: if_splits)

lemma accepts_UDPTracker:
  assumes "accepts sx UDPTracker m p"
  shows "p ! 0 = 0 \<and> u32_at p 4 = 0x27101980"
proof -
  have len: "16 \<le> length p" and magic: "be_word (take 8 p) = (0x41727101980 :: 64 word)"
    using assms by (auto simp: accepts_def UDPTracker_sniff_def u64_at_def split: if_splits)
  have "take 8 p = write_be (length (take 8 p)) (be_word (take 8 p) :: 64 word)"
    using len by (intro write_be_be_word [symmetric]) simp
  also have "\<dots> = write_be 8 (0x41727101980 :: 64 word)" using len magic by simp
  also have "\<dots> = [0, 0, 0x04, 0x17, 0x27, 0x10, 0x19, 0x80]" by code_simp
  finally have bytes: "take 8 p = [0, 0, 0x04, 0x17, 0x27, 0x10, 0x19, 0x80]" .
  have "p ! 0 = take 8 p ! 0" by simp
  moreover have "take 4 (drop 4 p) = drop 4 (take 8 p)" by (simp add: take_drop)
  ultimately show ?thesis unfolding u32_at_def bytes by simp
qed

text \<open>
  C35: Of the sniffers for STUN, uTP, the UDP tracker protocol, DTLS and NTP at most one accepts
  a packet, so their order does not matter, except that a packet with the STUN cookie can also
  pass as uTP or DTLS.
\<close>

theorem packet_sniffers_exclusive:
  assumes "accepts sx s m p" and "accepts sx t m p" and "s \<noteq> t"
    and "{s, t} \<subseteq> {STUNMessage, UTP, UDPTracker, DTLSRecord, NTP}"
  shows "STUNMessage \<in> {s, t} \<and> {s, t} \<subseteq> {STUNMessage, UTP, DTLSRecord}"
proof -
  have "\<not> (accepts sx UTP m p \<and> accepts sx DTLSRecord m p)"
    using accepts_UTP [of sx m p] accepts_DTLS [of sx m p] by auto
  moreover have "\<not> (accepts sx UTP m p \<and> accepts sx NTP m p)"
  proof
    assume *: "accepts sx UTP m p \<and> accepts sx NTP m p"
    have "(p ! 0) AND 0x07 = ((p ! 0) AND 0x0F) AND 0x07" by (simp add: and.assoc)
    then show False using accepts_UTP [of sx m p] accepts_NTP [of sx m p] * by simp
  qed
  moreover have "\<not> (accepts sx DTLSRecord m p \<and> accepts sx NTP m p)"
    using accepts_DTLS [of sx m p] accepts_NTP [of sx m p] by auto
  moreover have "\<not> (accepts sx UDPTracker m p \<and> accepts sx UTP m p)"
    using accepts_UDPTracker [of sx m p] accepts_UTP [of sx m p] by auto
  moreover have "\<not> (accepts sx UDPTracker m p \<and> accepts sx DTLSRecord m p)"
    using accepts_UDPTracker [of sx m p] accepts_DTLS [of sx m p] by auto
  moreover have "\<not> (accepts sx UDPTracker m p \<and> accepts sx NTP m p)"
    using accepts_UDPTracker [of sx m p] accepts_NTP [of sx m p] by auto
  moreover have "\<not> (accepts sx STUNMessage m p \<and> accepts sx UDPTracker m p)"
    using accepts_STUN [of sx m p] accepts_UDPTracker [of sx m p] by auto
  moreover have "\<not> (accepts sx STUNMessage m p \<and> accepts sx NTP m p)"
    using accepts_STUN [of sx m p] accepts_NTP [of sx m p] by auto
  ultimately show ?thesis using assms by auto
qed

definition stun_utp_packet :: "byte list" where
  "stun_utp_packet = [0x01, 0x00, 0x00, 0x00, 0x21, 0x12, 0xA4, 0x42, 0, 0, 0, 0, 0, 0, 0, 0, 0, 0, 0, 0]"

theorem packet_sniffers_exclusive_witness:
  "\<forall>sx. accepts sx STUNMessage context_zero stun_utp_packet \<and> accepts sx UTP context_zero stun_utp_packet \<and>
   STUNMessage \<in> {STUNMessage, UTP} \<and> {STUNMessage, UTP} \<subseteq> {STUNMessage, UTP, DTLSRecord}"
proof
  fix sx
  have stun: "accepts sx STUNMessage context_zero stun_utp_packet"
    by (simp add: accepts_def STUNMessage_sniff_def stun_utp_packet_def u32_at_def u16_at_def)
  have utp: "accepts sx UTP context_zero stun_utp_packet"
    by (simp add: accepts_def UTP_sniff_def stun_utp_packet_def utp_extensions.simps Let_def)
  show "accepts sx STUNMessage context_zero stun_utp_packet \<and> accepts sx UTP context_zero stun_utp_packet \<and>
   STUNMessage \<in> {STUNMessage, UTP} \<and> {STUNMessage, UTP} \<subseteq> {STUNMessage, UTP, DTLSRecord}"
    using packet_sniffers_exclusive [OF stun utp] stun utp by simp
qed

end
