(* ===== verification/Router.thy ===== *)
theory Router
  imports Rule_Set Fakeip Outbound_Manager Sniff
begin

text \<open>
  The router, \<^verbatim>\<open>route/route.go\<close> and \<^verbatim>\<open>route/process_cache.go\<close>: preparing the
  context of a connection, running it through the rules with the actions that refine the
  context, sniff or resolve, and handing the connection to an inbound, an outbound or the DNS
  hijacker. It composes the rules, the sniffers, the FakeIP store and the managers. What the
  other collaborators answer (process search, neighbours, DNS lookups, capabilities of the
  objects) is part of the record \<open>router\<close>. Connection trackers and the cache in front of the
  process search are not modelled.
\<close>

subsection \<open>Connections and their input\<close>

text \<open>
  A packet connection gives packets with their destination, read errors, or the end of the
  context; when the events are used up a read runs into its deadline.
\<close>

datatype packet_event = Packet_read "byte list" socksaddr | Packet_fails error | Context_done error

text \<open>
  A packet buffer is a pointer to a struct with the payload, which may be nil, and the
  destination. It is allocated for a packet read, and named here by the number of events left
  after that read, which no other read of the connection has.
\<close>

type_synonym packet_struct = "byte list option \<times> socksaddr"

type_synonym packet_buffer = "nat \<times> byte list \<times> socksaddr"

text \<open>
  \<^verbatim>\<open>bufio.NewCachedConn(conn, buffer)\<close> and its packet counterpart are constructors: what a
  wrapped connection delivers is up to the wrapper.
\<close>

datatype conn = Raw stream | Cached "byte list" conn

datatype packet_conn = Raw_packets "packet_event list" | Cached_packet packet_struct packet_conn

datatype PreMatchAction = PreMatchContinue | PreMatchFlow | PreMatchReject | PreMatchDrop | PreMatchBypass
  | PreMatchHijackDNS

subsection \<open>State\<close>

record ('x, 's) router =
  rt_rules :: "('x rule \<times> rule_action option) list"
  rt_env :: "'x env"
  rt_sets :: "string \<Rightarrow> 'x ruleset_iface"
  rt_sniff :: sniff_env
  rt_inbound :: manager
  rt_endpoint :: manager
  rt_outbound :: outbound_manager
  rt_fakeip :: "('s storage_ops \<times> 's Store) option"
  rt_find_process :: "(string \<Rightarrow> socksaddr \<Rightarrow> socksaddr \<Rightarrow> connection_owner result) option"
  rt_my_addresses :: "netip_addr list"
  rt_lookup_neighbor :: "(netip_addr \<Rightarrow> byte list option \<times> string option) option"
  rt_reverse_mapping :: "netip_addr \<Rightarrow> string option"
  rt_dns_transport :: "string \<Rightarrow> bool"
  rt_dns_lookup :: "inbound_context \<Rightarrow> string \<Rightarrow> RuleActionResolve \<Rightarrow> netip_addr list result"
  rt_is_timeout :: "error \<Rightarrow> bool"
  rt_PutPacketBuffer :: "packet_struct \<Rightarrow> packet_struct"
  rt_mux_Fqdn :: string
  rt_vmess_mux_Fqdn :: string
  rt_uot_MagicAddress :: string
  rt_uot_LegacyMagicAddress :: string
  rt_Network :: "object \<Rightarrow> string list"
  rt_tcp_injectable :: "object \<Rightarrow> bool"
  rt_udp_injectable :: "object \<Rightarrow> bool"
  rt_group_now :: "object \<Rightarrow> string option"
  rt_flow :: "object \<Rightarrow> (string \<Rightarrow> netip_addr \<Rightarrow> PreMatchAction) option"

subsection \<open>Preparing the context\<close>

fun addr_IsLoopback :: "netip_addr \<Rightarrow> bool" where
  "addr_IsLoopback (A4 w) = (drop_bit 24 w = 127)"
| "addr_IsLoopback (A6 w _) = (w = 1)"
| "addr_IsLoopback (Z0 _) = False"

definition isLocalSource :: "('x, 's) router \<Rightarrow> netip_addr \<Rightarrow> bool" where
  "isLocalSource r source =
     (if addr_IsLoopback source then True
      else if source \<in> set (rt_my_addresses r) then True
      else list_ex (\<lambda>netInterface. list_ex (\<lambda>prefix. pfx_ip prefix = source) (ni_Addresses netInterface))
             (w_FinderInterfaces (rt_env r)))"

definition searchProcessInfo :: "('x, 's) router \<Rightarrow> inbound_context \<Rightarrow> inbound_context" where
  "searchProcessInfo r metadata =
     (case rt_find_process r of
        None \<Rightarrow> metadata
      | Some find_process \<Rightarrow>
          if mc_ProcessInfo metadata \<noteq> None \<or> \<not> isLocalSource r (sa_Addr (mc_Source metadata)) then metadata
          else let originDestination =
                     (if x_IsValid (rt_env r) (mc_OriginDestination metadata) then mc_OriginDestination metadata
                      else if x_IsIP (rt_env r) (mc_Destination metadata) then mc_Destination metadata
                      else socksaddr_zero)
               in case find_process (mc_Network metadata) (mc_Source metadata) originDestination of
                    Inl err \<Rightarrow> metadata
                  | Inr processInfo \<Rightarrow> metadata\<lparr>mc_ProcessInfo := Some processInfo\<rparr>)"

definition search_neighbor :: "('x, 's) router \<Rightarrow> inbound_context \<Rightarrow> inbound_context" where
  "search_neighbor r metadata =
     (case rt_lookup_neighbor r of
        None \<Rightarrow> metadata
      | Some lookup \<Rightarrow>
          if mc_SourceMACAddress metadata = None \<and> addr_IsValid (sa_Addr (mc_Source metadata))
          then case lookup (sa_Addr (mc_Source metadata)) of (mac, hostname) \<Rightarrow>
            let metadata = (case mac of Some m \<Rightarrow> metadata\<lparr>mc_SourceMACAddress := Some m\<rparr> | None \<Rightarrow> metadata)
            in (case hostname of Some h \<Rightarrow> metadata\<lparr>mc_SourceHostname := h\<rparr> | None \<Rightarrow> metadata)
          else metadata)"

text \<open>A FakeIP store that was not started panics in \<^verbatim>\<open>Lookup\<close>.\<close>

definition map_destination :: "('x, 's) router \<Rightarrow> inbound_context \<Rightarrow> (error option \<times> inbound_context) exec" where
  "map_destination r metadata =
     (let address = sa_Addr (mc_Destination metadata);
          reverse = (if mc_Domain metadata = [] then
                       (case rt_reverse_mapping r address of
                          Some domain \<Rightarrow> metadata\<lparr>mc_Domain := domain\<rparr> | None \<Rightarrow> metadata)
                     else metadata)
      in case rt_fakeip r of
           None \<Rightarrow> Returns (None, reverse)
         | Some (ops, store) \<Rightarrow>
             if addr_IsValid address \<and> Store_Contains store address
             then case Store_Lookup ops address store of
                    None \<Rightarrow> Panics
                  | Some None \<Rightarrow>
                      Returns (Some (E_New ''missing fakeip record, try enable `experimental.cache_file`''), metadata)
                  | Some (Some domain) \<Rightarrow>
                      if domain \<noteq> []
                      then Returns (None, metadata\<lparr>mc_OriginDestination := mc_Destination metadata,
                             mc_Destination := \<lparr>sa_Addr = addr_zero, sa_Port = sa_Port (mc_Destination metadata), sa_Fqdn = domain\<rparr>,
                             mc_FakeIP := True\<rparr>)
                      else Returns (None, metadata)
             else Returns (None, reverse))"

definition set_ip_version :: "('x, 's) router \<Rightarrow> inbound_context \<Rightarrow> inbound_context" where
  "set_ip_version r metadata =
     (if x_IsIPv4 (rt_env r) (mc_Destination metadata) then metadata\<lparr>mc_IPVersion := 4\<rparr>
      else if x_IsIPv6 (rt_env r) (mc_Destination metadata) then metadata\<lparr>mc_IPVersion := 6\<rparr>
      else metadata)"

definition prepareMatchMetadata :: "('x, 's) router \<Rightarrow> inbound_context \<Rightarrow> (error option \<times> inbound_context) exec" where
  "prepareMatchMetadata r metadata =
     exec_bind (map_destination r (search_neighbor r (searchProcessInfo r metadata))) (\<lambda>(err, metadata).
       case err of
         Some err \<Rightarrow> Returns (Some err, metadata)
       | None \<Rightarrow> Returns (None, set_ip_version r metadata))"

subsection \<open>Route options\<close>

definition applyRouteOptionsOverride :: "'x env \<Rightarrow> RuleActionRouteOptions \<Rightarrow> inbound_context \<Rightarrow> inbound_context" where
  "applyRouteOptionsOverride e options metadata =
     (let metadata = (if x_IsValid e (ao_OverrideAddress options)
            then metadata\<lparr>mc_Destination := \<lparr>sa_Addr = sa_Addr (ao_OverrideAddress options),
                   sa_Port = sa_Port (mc_Destination metadata), sa_Fqdn = sa_Fqdn (ao_OverrideAddress options)\<rparr>\<rparr>
            else metadata);
          metadata = (if ao_OverridePort options > 0
            then metadata\<lparr>mc_Destination := (mc_Destination metadata)\<lparr>sa_Port := ao_OverridePort options\<rparr>\<rparr>
            else metadata)
      in if ao_UDPTimeout options > 0 then metadata\<lparr>mc_UDPTimeout := ao_UDPTimeout options\<rparr> else metadata)"

definition route_options_of :: "rule_action option \<Rightarrow> RuleActionRouteOptions option" where
  "route_options_of action = (case action of
     Some (ActRoute _ options) \<Rightarrow> Some options
   | Some (ActRouteOptions options) \<Rightarrow> Some options
   | Some (ActBypass outbound options) \<Rightarrow> if outbound \<noteq> [] then Some options else None
   | _ \<Rightarrow> None)"

definition apply_route_options :: "'x env \<Rightarrow> RuleActionRouteOptions \<Rightarrow> inbound_context \<Rightarrow> inbound_context" where
  "apply_route_options e options m =
     (let m = (if (x_IsValid e (ao_OverrideAddress options) \<or> ao_OverridePort options > 0) \<and>
                  \<not> x_IsValid e (mc_RouteOriginalDestination m)
               then m\<lparr>mc_RouteOriginalDestination := mc_Destination m\<rparr> else m);
          m = (if x_IsValid e (ao_OverrideAddress options) then m\<lparr>mc_DestinationAddresses := []\<rparr> else m);
          m = applyRouteOptionsOverride e options m;
          m = (if ao_NetworkStrategy options \<noteq> None then m\<lparr>mc_NetworkStrategy := ao_NetworkStrategy options\<rparr> else m);
          m = (if ao_NetworkType options \<noteq> [] then m\<lparr>mc_NetworkType := ao_NetworkType options\<rparr> else m);
          m = (if ao_FallbackNetworkType options \<noteq> [] then m\<lparr>mc_FallbackNetworkType := ao_FallbackNetworkType options\<rparr> else m);
          m = (if ao_FallbackDelay options \<noteq> 0 then m\<lparr>mc_FallbackDelay := ao_FallbackDelay options\<rparr> else m);
          m = (if ao_UDPDisableDomainUnmapping options then m\<lparr>mc_UDPDisableDomainUnmapping := True\<rparr> else m);
          m = (if ao_UDPConnect options then m\<lparr>mc_UDPConnect := True\<rparr> else m);
          m = (if ao_UDPTimeout options > 0 then m\<lparr>mc_UDPTimeout := ao_UDPTimeout options\<rparr> else m);
          m = (if ao_TLSFragment options
               then m\<lparr>mc_TLSFragment := True, mc_TLSFragmentFallbackDelay := ao_TLSFragmentFallbackDelay options\<rparr> else m);
          m = (if ao_TLSRecordFragment options then m\<lparr>mc_TLSRecordFragment := True\<rparr> else m)
      in if ao_TLSSpoof options \<noteq> []
         then m\<lparr>mc_TLSSpoof := ao_TLSSpoof options, mc_TLSSpoofMethod := ao_TLSSpoofMethod options\<rparr> else m)"

subsection \<open>Sniffing\<close>

text \<open>
  What matching a connection works on. Exactly one of \<open>ms_conn\<close> and \<open>ms_packet_conn\<close> is
  there; the buffers hold what was read from it.
\<close>

record match_state =
  ms_metadata :: inbound_context
  ms_conn :: "stream option"
  ms_packet_conn :: "packet_event list option"
  ms_buffers :: "byte list list"
  ms_packet_buffers :: "packet_buffer list"

definition default_stream_sniffers :: "stream_sniffer list" where
  "default_stream_sniffers = [TLSClientHello, HTTPHost, StreamDomainNameQuery, BitTorrent, SSH, RDP]"

definition defaultPacketSniffers :: "packet_sniffer list" where
  "defaultPacketSniffers = [DomainNameQuery, QUICClientHello, STUNMessage, UTP, UDPTracker, DTLSRecord, NTP]"

definition is_need_more :: "error option \<Rightarrow> bool" where
  "is_need_more err = (case err of None \<Rightarrow> False | Some err \<Rightarrow> error_Is err ErrNeedMoreData)"

text \<open>Sniffing with the same sniffers failed before, and not for want of data.\<close>

definition sniff_hopeless :: "RuleActionSniff \<Rightarrow> inbound_context \<Rightarrow> bool" where
  "sniff_hopeless action m =
     (mc_SnifferNames m = sn_SnifferNames action \<and> mc_SniffError m \<noteq> None \<and> \<not> is_need_more (mc_SniffError m))"

definition quicMoreData :: "RuleActionSniff \<Rightarrow> inbound_context \<Rightarrow> bool" where
  "quicMoreData action m = (mc_SnifferNames m = sn_SnifferNames action \<and> is_need_more (mc_SniffError m))"

definition note_sniff :: "RuleActionSniff \<Rightarrow> error option \<Rightarrow> inbound_context \<Rightarrow> inbound_context" where
  "note_sniff action err m = m\<lparr>mc_SnifferNames := sn_SnifferNames action, mc_SniffError := err\<rparr>"

definition override_sniffed :: "'x env \<Rightarrow> RuleActionSniff \<Rightarrow> error option \<Rightarrow> inbound_context \<Rightarrow> inbound_context" where
  "override_sniffed e action err m =
     (if err = None \<and> sn_OverrideDestination action \<and> x_IsDomainName e (mc_Domain m)
      then m\<lparr>mc_Destination := \<lparr>sa_Addr = addr_zero, sa_Port = sa_Port (mc_Destination m), sa_Fqdn = mc_Domain m\<rparr>\<rparr>
      else m)"

definition sniff_packet ::
  "sniff_env \<Rightarrow> RuleActionSniff \<Rightarrow> packet_sniffer list \<Rightarrow> inbound_context \<Rightarrow> byte list \<Rightarrow> sniffed" where
  "sniff_packet sx action sniffers m packet =
     exec_bind (PeekPacket sx m packet (if quicMoreData action m then [QUICClientHello] else sniffers))
       (\<lambda>(err, m). Returns (err, note_sniff action err m))"

text \<open>
  The packets buffered by earlier sniff actions; \<open>Some err\<close> is the jump to \<^verbatim>\<open>finally\<close>.
\<close>

fun sniff_buffered ::
  "sniff_env \<Rightarrow> RuleActionSniff \<Rightarrow> packet_sniffer list \<Rightarrow> packet_buffer list \<Rightarrow> inbound_context
   \<Rightarrow> (error option option \<times> inbound_context) exec" where
  "sniff_buffered sx action sniffers [] m = Returns (None, m)"
| "sniff_buffered sx action sniffers (p # ps) m =
     exec_bind (sniff_packet sx action sniffers m (fst (snd p))) (\<lambda>(err, m).
       if is_need_more err then sniff_buffered sx action sniffers ps m else Returns (Some err, m))"

text \<open>
  The loop that reads packets. It ends in \<^verbatim>\<open>finally\<close> with an error or nil (\<open>Inr\<close>), or with
  a fatal error (\<open>Inl\<close>).
\<close>

fun sniff_read ::
  "('x, 's) router \<Rightarrow> RuleActionSniff \<Rightarrow> packet_sniffer list \<Rightarrow> packet_event list \<Rightarrow> packet_buffer list \<Rightarrow> inbound_context
   \<Rightarrow> ((error + error option) \<times> inbound_context \<times> packet_event list \<times> packet_buffer list) exec" where
  "sniff_read r action sniffers [] buffers m = Returns (Inr (Some ErrTimeout), m, [], buffers)"
| "sniff_read r action sniffers (Context_done err # input) buffers m = Returns (Inl err, m, input, buffers)"
| "sniff_read r action sniffers (Packet_fails err # input) buffers m =
     (if rt_is_timeout r err then Returns (Inr (Some err), m, input, buffers) else Returns (Inl err, m, input, buffers))"
| "sniff_read r action sniffers (Packet_read bs destination # input) buffers m =
     exec_bind (sniff_packet (rt_sniff r) action sniffers m bs) (\<lambda>(err, m).
       if is_need_more err then sniff_read r action sniffers input (buffers @ [(length input, bs, destination)]) m
       else Returns (Inr err, m, input, buffers @ [(length input, bs, destination)]))"

definition action_sniff_stream ::
  "('x, 's) router \<Rightarrow> RuleActionSniff \<Rightarrow> stream \<Rightarrow> match_state \<Rightarrow> match_state exec" where
  "action_sniff_stream r action stream s =
     (let m = ms_metadata s in
      if sn_StreamSniffers action = [] \<and> sn_PacketSniffers action \<noteq> [] then Returns s
      else if sniff_hopeless action m then Returns s
      else let sniffers = (if sn_StreamSniffers action \<noteq> [] then sn_StreamSniffers action else default_stream_sniffers)
           in exec_bind (PeekStream (rt_sniff r) m stream (ms_buffers s) sniffers) (\<lambda>(err, m, sniffBuffer, stream).
                Returns (s\<lparr>ms_metadata := override_sniffed (rt_env r) action err (note_sniff action err m),
                           ms_conn := Some stream,
                           ms_buffers := ms_buffers s @ (if sniffBuffer \<noteq> [] then [sniffBuffer] else [])\<rparr>)))"

text \<open>
  The buffers a packet sniff returns start with those it was given, \<^verbatim>\<open>packetBuffers =
  inputPacketBuffers\<close>, and the caller appends all of them.
\<close>

definition action_sniff_packets ::
  "('x, 's) router \<Rightarrow> RuleActionSniff \<Rightarrow> packet_event list \<Rightarrow> match_state \<Rightarrow> (error option \<times> match_state) exec" where
  "action_sniff_packets r action input s =
     (let m = ms_metadata s;
          sniffers = (if sn_PacketSniffers action \<noteq> [] then sn_PacketSniffers action else defaultPacketSniffers)
      in if sn_PacketSniffers action = [] \<and> sn_StreamSniffers action \<noteq> [] then Returns (None, s)
         else if sniff_hopeless action m then Returns (None, s)
         else exec_bind (sniff_buffered (rt_sniff r) action sniffers (ms_packet_buffers s) m) (\<lambda>(jump, m).
           case jump of
             Some err \<Rightarrow> Returns (None, s\<lparr>ms_metadata := override_sniffed (rt_env r) action err m\<rparr>)
           | None \<Rightarrow>
               exec_bind (sniff_read r action sniffers input (ms_packet_buffers s) m) (\<lambda>(outcome, m, input, packetBuffers).
                 let s = s\<lparr>ms_packet_conn := Some input, ms_packet_buffers := ms_packet_buffers s @ packetBuffers\<rparr> in
                 case outcome of
                   Inl fatalErr \<Rightarrow> Returns (Some fatalErr, s\<lparr>ms_metadata := m\<rparr>)
                 | Inr err \<Rightarrow> Returns (None, s\<lparr>ms_metadata := override_sniffed (rt_env r) action err m\<rparr>))))"

text \<open>\<^verbatim>\<open>actionSniff\<close> and what \<^verbatim>\<open>matchRule\<close> does with its results.\<close>

definition actionSniff :: "('x, 's) router \<Rightarrow> RuleActionSniff \<Rightarrow> match_state \<Rightarrow> (error option \<times> match_state) exec" where
  "actionSniff r action s =
     (if Skip (ms_metadata s) then Returns (None, s)
      else if mc_Protocol (ms_metadata s) \<noteq> [] then Returns (None, s)
      else case ms_conn s of
             Some stream \<Rightarrow> exec_bind (action_sniff_stream r action stream s) (\<lambda>s. Returns (None, s))
           | None \<Rightarrow>
               (case ms_packet_conn s of
                  Some input \<Rightarrow> action_sniff_packets r action input s
                | None \<Rightarrow> Returns (None, s)))"

definition actionResolve :: "('x, 's) router \<Rightarrow> RuleActionResolve \<Rightarrow> inbound_context \<Rightarrow> error option \<times> inbound_context" where
  "actionResolve r action m =
     (if x_IsDomain (rt_env r) (mc_Destination m)
      then if rs_Server action \<noteq> [] \<and> \<not> rt_dns_transport r (rs_Server action)
           then (Some (E_New (''DNS server not found: '' @ rs_Server action)), m)
           else (case rt_dns_lookup r m (sa_Fqdn (mc_Destination m)) action of
                   Inl err \<Rightarrow> (Some err, m)
                 | Inr addresses \<Rightarrow> (None, m\<lparr>mc_DestinationAddresses := addresses\<rparr>))
      else (None, m))"

subsection \<open>Matching\<close>

definition is_final :: "rule_action \<Rightarrow> bool" where
  "is_final action = (case action of
     ActRoute _ _ \<Rightarrow> True | ActReject _ _ \<Rightarrow> True | ActHijackDNS \<Rightarrow> True | ActBypass outbound _ \<Rightarrow> outbound \<noteq> [] | _ \<Rightarrow> False)"

text \<open>
  The body of the loop for a rule that matches: the options, then sniffing or resolving, then
  whether the rule is selected. A rule without action panics in \<^verbatim>\<open>Action().Type()\<close>.
\<close>

definition run_action :: "('x, 's) router \<Rightarrow> rule_action option \<Rightarrow> match_state \<Rightarrow> (error option \<times> bool \<times> match_state) exec" where
  "run_action r action s =
     (let s = (case route_options_of action of
                 Some options \<Rightarrow> s\<lparr>ms_metadata := apply_route_options (rt_env r) options (ms_metadata s)\<rparr>
               | None \<Rightarrow> s)
      in case action of
           None \<Rightarrow> Panics
         | Some (ActSniff sniff) \<Rightarrow> exec_bind (actionSniff r sniff s) (\<lambda>(err, s). Returns (err, False, s))
         | Some (ActResolve resolve) \<Rightarrow>
             (case actionResolve r resolve (ms_metadata s) of
                (err, m) \<Rightarrow> Returns (err, False, s\<lparr>ms_metadata := m\<rparr>))
         | Some a \<Rightarrow> Returns (None, is_final a, s))"

text \<open>
  The loop over the rules from index \<open>i\<close> on; the selected rule is its index and action.
\<close>

fun match_rules ::
  "('x, 's) router \<Rightarrow> nat \<Rightarrow> ('x rule \<times> rule_action option) list \<Rightarrow> match_state
   \<Rightarrow> (error option \<times> (nat \<times> rule_action) option \<times> match_state) exec" where
  "match_rules r i [] s = Returns (None, None, s)"
| "match_rules r i ((rule, action) # rules) s =
     (case rule_Match (rt_env r) (rt_sets r) rule (ResetRuleCache (ms_metadata s)) of (matched, m) \<Rightarrow>
        let s = s\<lparr>ms_metadata := m\<rparr> in
        if \<not> matched then match_rules r (i + 1) rules s
        else exec_bind (run_action r action s) (\<lambda>(err, final, s).
          case err of
            Some err \<Rightarrow> Returns (Some err, None, s)
          | None \<Rightarrow> if final then Returns (None, Some (i, the action), s) else match_rules r (i + 1) rules s))"

definition matchRule ::
  "('x, 's) router \<Rightarrow> match_state \<Rightarrow> (error option \<times> (nat \<times> rule_action) option \<times> match_state) exec" where
  "matchRule r s =
     exec_bind (prepareMatchMetadata r (ms_metadata s)) (\<lambda>(err, m).
       case err of
         Some err \<Rightarrow> Returns (Some err, None, s\<lparr>ms_metadata := m\<rparr>)
       | None \<Rightarrow> match_rules r 0 (rt_rules r) (s\<lparr>ms_metadata := m\<rparr>))"

subsection \<open>Routing\<close>

datatype route_result =
    Route_error error
  | Rejected string bool
  | Injected object inbound_context
  | DNS_stream conn inbound_context
  | DNS_packets "packet_event list" "packet_buffer list" inbound_context
  | Handed object conn inbound_context
  | Handed_packets object packet_conn bool inbound_context

definition stream_input :: "stream \<Rightarrow> inbound_context \<Rightarrow> match_state" where
  "stream_input stream m = \<lparr>ms_metadata = m, ms_conn = Some stream, ms_packet_conn = None, ms_buffers = [], ms_packet_buffers = []\<rparr>"

definition packet_input :: "packet_event list \<Rightarrow> inbound_context \<Rightarrow> match_state" where
  "packet_input input m = \<lparr>ms_metadata = m, ms_conn = None, ms_packet_conn = Some input, ms_buffers = [], ms_packet_buffers = []\<rparr>"

text \<open>\<^verbatim>\<open>for _, buffer := range buffers\<close> around the connection.\<close>

definition cache_conn :: "byte list list \<Rightarrow> stream \<Rightarrow> conn" where
  "cache_conn buffers stream = foldl (\<lambda>conn buffer. Cached buffer conn) (Raw stream) buffers"

text \<open>
  For packets every buffer goes back to its pool after it was wrapped; \<^verbatim>\<open>N.PutPacketBuffer\<close>
  may change the struct behind the pointer.
\<close>

fun cache_packet_loop ::
  "(packet_struct \<Rightarrow> packet_struct) \<Rightarrow> (nat \<Rightarrow> packet_struct) \<Rightarrow> packet_buffer list \<Rightarrow> packet_conn \<Rightarrow> packet_conn" where
  "cache_packet_loop put heap [] conn = conn"
| "cache_packet_loop put heap (buffer # buffers) conn =
     cache_packet_loop put (heap(fst buffer := put (heap (fst buffer)))) buffers (Cached_packet (heap (fst buffer)) conn)"

definition packet_heap :: "packet_buffer list \<Rightarrow> nat \<Rightarrow> packet_struct" where
  "packet_heap buffers p = (case map_of buffers p of
     Some (bs, destination) \<Rightarrow> (Some bs, destination) | None \<Rightarrow> (None, socksaddr_zero))"

definition cache_packets :: "(packet_struct \<Rightarrow> packet_struct) \<Rightarrow> packet_buffer list \<Rightarrow> packet_event list \<Rightarrow> packet_conn" where
  "cache_packets put buffers input = cache_packet_loop put (packet_heap buffers) buffers (Raw_packets input)"

text \<open>The detour to another inbound, with the text of the error for one that is not injectable.\<close>

definition route_detour :: "('x, 's) router \<Rightarrow> (object \<Rightarrow> bool) \<Rightarrow> string \<Rightarrow> inbound_context \<Rightarrow> route_result" where
  "route_detour r injectable kind m =
     (if mc_LastInbound m = mc_InboundDetour m then Route_error (E_New (''routing loop on detour: '' @ mc_InboundDetour m))
      else case inbound_Get (rt_endpoint r) (rt_inbound r) (mc_InboundDetour m) of
             None \<Rightarrow> Route_error (E_New (''inbound detour not found: '' @ mc_InboundDetour m))
           | Some detour \<Rightarrow>
               if \<not> injectable detour
               then Route_error (E_New (''inbound detour is not '' @ kind @ '' injectable: '' @ mc_InboundDetour m))
               else Injected detour (m\<lparr>mc_LastInbound := mc_Inbound m, mc_Inbound := mc_InboundDetour m, mc_InboundDetour := []\<rparr>))"

text \<open>The outbound of a route or bypass action, and the default one.\<close>

definition select_outbound :: "('x, 's) router \<Rightarrow> string \<Rightarrow> string \<Rightarrow> string \<Rightarrow> object result" where
  "select_outbound r network kind tag =
     (case outbound_Outbound (rt_endpoint r) (rt_outbound r) tag of
        None \<Rightarrow> Inl (E_New (''outbound not found: '' @ tag))
      | Some outbound \<Rightarrow>
          if network \<notin> set (rt_Network r outbound) then Inl (E_New (kind @ '' is not supported by outbound: '' @ ob_Tag outbound))
          else Inr outbound)"

definition default_outbound :: "('x, 's) router \<Rightarrow> string \<Rightarrow> string \<Rightarrow> object result exec" where
  "default_outbound r network msg =
     (case outbound_Default (rt_outbound r) of
        None \<Rightarrow> Panics
      | Some outbound \<Rightarrow>
          if network \<notin> set (rt_Network r outbound) then Returns (Inl (E_New (msg @ ob_Tag outbound)))
          else Returns (Inr outbound))"

text \<open>
  The switch on the selected action. A bypass action without outbound is never selected; its
  branch, which leaves the outbound nil, is the panic of the call on it.
\<close>

definition selected_outbound :: "('x, 's) router \<Rightarrow> string \<Rightarrow> string \<Rightarrow> string \<Rightarrow> (nat \<times> rule_action) option \<Rightarrow> object result exec" where
  "selected_outbound r network kind msg selected =
     (case selected of
        None \<Rightarrow> default_outbound r network msg
      | Some (_, ActRoute outbound _) \<Rightarrow> Returns (select_outbound r network kind outbound)
      | Some (_, ActBypass outbound _) \<Rightarrow> if outbound = [] then Panics else Returns (select_outbound r network kind outbound)
      | Some _ \<Rightarrow> Panics)"

text \<open>
  The switch on the domain of the destination. The four names are constants of the multiplex, VMess
  and UDP-over-TCP packages and fields of the router here.
\<close>

definition magic_error :: "('x, 's) router \<Rightarrow> string \<Rightarrow> error option" where
  "magic_error r fqdn =
     (if fqdn = rt_mux_Fqdn r
      then Some (E_New ''global multiplex is deprecated since sing-box v1.7.0, enable multiplex in Inbound fields instead.'')
      else if fqdn = rt_vmess_mux_Fqdn r
      then Some (E_New ''global multiplex (v2ray legacy) not supported since sing-box v1.7.0.'')
      else if fqdn = rt_uot_MagicAddress r then Some (E_New ''global UoT not supported since sing-box v1.7.0.'')
      else if fqdn = rt_uot_LegacyMagicAddress r
      then Some (E_New ''global UoT (legacy) not supported since sing-box v1.7.0.'')
      else None)"

definition routeConnection :: "('x, 's) router \<Rightarrow> stream \<Rightarrow> inbound_context \<Rightarrow> route_result exec" where
  "routeConnection r stream m =
     (if mc_InboundDetour m \<noteq> [] then Returns (route_detour r (rt_tcp_injectable r) ''TCP'' m)
      else let m = m\<lparr>mc_Network := ''tcp''\<rparr> in
        case magic_error r (sa_Fqdn (mc_Destination m)) of
          Some err \<Rightarrow> Returns (Route_error err)
        | None \<Rightarrow>
            if mc_InboundType m = ''tun'' \<and> mc_Protocol m = ''dns'' then Returns (DNS_stream (Raw stream) m)
            else exec_bind (matchRule r (stream_input stream m)) (\<lambda>(err, selected, s).
              case err of
                Some err \<Rightarrow> Returns (Route_error err)
              | None \<Rightarrow>
                  let conn = cache_conn (ms_buffers s) (the (ms_conn s)) in
                  (case selected of
                     Some (_, ActReject reject noDrop) \<Rightarrow>
                       if reject = ''reply'' then Returns (Route_error (E_New ''reject method `reply` is not supported for TCP connections''))
                       else Returns (Rejected reject noDrop)
                   | Some (_, ActHijackDNS) \<Rightarrow> Returns (DNS_stream conn (ms_metadata s))
                   | _ \<Rightarrow>
                       exec_bind (selected_outbound r ''tcp'' ''TCP'' ''TCP is not supported by default outbound: '' selected)
                         (\<lambda>outbound. case outbound of
                            Inl err \<Rightarrow> Returns (Route_error err)
                          | Inr outbound \<Rightarrow> Returns (Handed outbound conn (ms_metadata s))))))"

definition routePacketConnection :: "('x, 's) router \<Rightarrow> packet_event list \<Rightarrow> inbound_context \<Rightarrow> route_result exec" where
  "routePacketConnection r input m =
     (if mc_InboundDetour m \<noteq> [] then Returns (route_detour r (rt_udp_injectable r) ''UDP'' m)
      else let m = m\<lparr>mc_Network := ''udp''\<rparr> in
        if mc_InboundType m = ''tun'' \<and> mc_Protocol m = ''dns'' then Returns (DNS_packets input [] m)
        else exec_bind (matchRule r (packet_input input m)) (\<lambda>(err, selected, s).
          case err of
            Some err \<Rightarrow> Returns (Route_error err)
          | None \<Rightarrow>
              (case selected of
                 Some (_, ActReject reject noDrop) \<Rightarrow>
                   if reject = ''reply'' then Returns (Route_error (E_New ''reject method `reply` is not supported for UDP connections''))
                   else Returns (Rejected reject noDrop)
               | Some (_, ActHijackDNS) \<Rightarrow> Returns (DNS_packets (the (ms_packet_conn s)) (ms_packet_buffers s) (ms_metadata s))
               | _ \<Rightarrow>
                   exec_bind (selected_outbound r ''udp'' ''UDP'' ''UDP is not supported by outbound: '' selected)
                     (\<lambda>outbound. case outbound of
                        Inl err \<Rightarrow> Returns (Route_error err)
                      | Inr outbound \<Rightarrow>
                          Returns (Handed_packets outbound (cache_packets (rt_PutPacketBuffer r) (ms_packet_buffers s) (the (ms_packet_conn s)))
                            (mc_FakeIP (ms_metadata s)) (ms_metadata s))))))"

subsection \<open>Matching before a connection exists\<close>

record PreMatchResult =
  pm_Action :: PreMatchAction
  pm_Outbound :: "object option"
  pm_Destination :: "(netip_addr \<times> 16 word) option"
  pm_UDPTimeout :: int

definition pre_result :: "PreMatchAction \<Rightarrow> object option \<Rightarrow> PreMatchResult" where
  "pre_result action outbound = \<lparr>pm_Action = action, pm_Outbound = outbound, pm_Destination = None, pm_UDPTimeout = 0\<rparr>"

definition PortProtocols :: "(16 word \<times> string) list" where
  "PortProtocols = [(53, ''dns''), (123, ''ntp''), (3478, ''stun''), (443, ''quic'')]"

definition ProtocolTimeouts :: "(string \<times> int) list" where
  "ProtocolTimeouts = [(''dns'', 10000000000), (''ntp'', 10000000000), (''stun'', 10000000000),
     (''quic'', 30000000000), (''dtls'', 30000000000)]"

text \<open>A Go map yields the zero value for a missing key.\<close>

definition flow_timeout :: "inbound_context \<Rightarrow> int" where
  "flow_timeout m =
     (if mc_Network m = ''udp'' then
        if mc_UDPTimeout m > 0 then mc_UDPTimeout m
        else let protocol = (if mc_Protocol m = []
                             then (case map_of PortProtocols (sa_Port (mc_Destination m)) of Some p \<Rightarrow> p | None \<Rightarrow> [])
                             else mc_Protocol m)
             in if protocol \<noteq> [] then (case map_of ProtocolTimeouts protocol of Some t \<Rightarrow> t | None \<Rightarrow> 0) else 0
      else 0)"

text \<open>\<^verbatim>\<open>for range 8\<close> through the selected members of groups; \<open>None\<close> for a missing one.\<close>

fun follow_groups :: "('x, 's) router \<Rightarrow> nat \<Rightarrow> object \<Rightarrow> object option" where
  "follow_groups r 0 outbound = Some outbound"
| "follow_groups r (Suc n) outbound =
     (case rt_group_now r outbound of
        None \<Rightarrow> Some outbound
      | Some tag \<Rightarrow>
          (case outbound_Outbound (rt_endpoint r) (rt_outbound r) tag of
             None \<Rightarrow> None
           | Some selected \<Rightarrow> follow_groups r n selected))"

text \<open>The address a flow to a FakeIP domain is rewritten to: the first of the right family.\<close>

definition flow_destination :: "('x, 's) router \<Rightarrow> socksaddr \<Rightarrow> inbound_context \<Rightarrow> netip_addr option" where
  "flow_destination r packetDestination m =
     find (\<lambda>address. addr_Is4 address = x_IsIPv4 (rt_env r) packetDestination) (mc_DestinationAddresses m)"

definition pre_match_outbound ::
  "('x, 's) router \<Rightarrow> inbound_context \<Rightarrow> socksaddr \<Rightarrow> object \<Rightarrow> PreMatchResult" where
  "pre_match_outbound r m packetDestination outbound =
     (if mc_Network m \<notin> set (rt_Network r outbound) then pre_result PreMatchContinue None
      else case rt_flow r outbound of
             None \<Rightarrow> pre_result PreMatchContinue None
           | Some flow \<Rightarrow>
               let flowAction = flow (mc_Network m) (sa_Addr (mc_Destination m));
                   result = (pre_result PreMatchFlow (Some outbound))\<lparr>pm_UDPTimeout := flow_timeout m\<rparr>
               in if flowAction \<noteq> PreMatchFlow then pre_result flowAction (Some outbound)
                  else if x_IsDomain (rt_env r) (mc_Destination m) then
                    if \<not> mc_FakeIP m then pre_result PreMatchContinue None
                    else (case flow_destination r packetDestination m of
                            None \<Rightarrow> pre_result PreMatchReject None
                          | Some newDestination \<Rightarrow>
                              if \<not> addr_IsValid newDestination then pre_result PreMatchReject None
                              else let flowAction = flow (mc_Network m) newDestination in
                                if flowAction \<noteq> PreMatchFlow then pre_result flowAction (Some outbound)
                                else result\<lparr>pm_Destination := Some (newDestination, sa_Port (mc_Destination m))\<rparr>)
                  else if mc_Destination m \<noteq> packetDestination
                  then result\<lparr>pm_Destination := Some (sa_Addr (mc_Destination m), sa_Port (mc_Destination m))\<rparr>
                  else result)"

definition preMatchFlow ::
  "('x, 's) router \<Rightarrow> inbound_context \<Rightarrow> socksaddr \<Rightarrow> string \<Rightarrow> PreMatchResult exec" where
  "preMatchFlow r m packetDestination outboundTag =
     (case (if outboundTag = [] then map_option Some (outbound_Default (rt_outbound r))
            else Some (outbound_Outbound (rt_endpoint r) (rt_outbound r) outboundTag)) of
        None \<Rightarrow> Panics
      | Some None \<Rightarrow> Returns (pre_result PreMatchContinue None)
      | Some (Some outbound) \<Rightarrow>
          (case follow_groups r 8 outbound of
             None \<Rightarrow> Returns (pre_result PreMatchContinue None)
           | Some outbound \<Rightarrow> Returns (pre_match_outbound r m packetDestination outbound)))"

text \<open>
  A sniff action before the connection: \<open>Inl\<close> when matching has to wait for the connection,
  \<open>Inr\<close> the context to go on with.
\<close>

definition pre_match_sniff ::
  "('x, 's) router \<Rightarrow> byte list \<Rightarrow> RuleActionSniff \<Rightarrow> inbound_context \<Rightarrow> (unit + inbound_context) exec" where
  "pre_match_sniff r firstPacket action m =
     (if mc_Network m = ''icmp'' then Returns (Inr m)
      else if mc_Network m \<noteq> ''udp'' \<or> length firstPacket = 0 then Returns (Inl ())
      else if Skip m \<or> mc_Protocol m \<noteq> [] then Returns (Inr m)
      else if sn_PacketSniffers action = [] \<and> sn_StreamSniffers action \<noteq> [] then Returns (Inr m)
      else if mc_SnifferNames m = sn_SnifferNames action \<and> mc_SniffError m \<noteq> None then Returns (Inr m)
      else let sniffers = (if sn_PacketSniffers action = [] then defaultPacketSniffers else sn_PacketSniffers action)
           in exec_bind (PeekPacket (rt_sniff r) m firstPacket sniffers) (\<lambda>(err, m).
                let m = note_sniff action err m in
                if is_need_more err then Returns (Inl ())
                else Returns (Inr (override_sniffed (rt_env r) action err m))))"

text \<open>\<open>reject_answer\<close> is what \<^verbatim>\<open>RuleActionReject.Error\<close> answers at this moment.\<close>

fun pre_match_rules ::
  "('x, 's) router \<Rightarrow> (string \<Rightarrow> bool \<Rightarrow> reject_error) \<Rightarrow> byte list \<Rightarrow> socksaddr
   \<Rightarrow> ('x rule \<times> rule_action option) list \<Rightarrow> inbound_context \<Rightarrow> PreMatchResult exec" where
  "pre_match_rules r reject_answer firstPacket packetDestination [] m = preMatchFlow r m packetDestination []"
| "pre_match_rules r reject_answer firstPacket packetDestination ((rule, action) # rules) m =
     (case rule_Match (rt_env r) (rt_sets r) rule (ResetRuleCache m) of (matched, m) \<Rightarrow>
        if \<not> matched then pre_match_rules r reject_answer firstPacket packetDestination rules m
        else (case action of
          Some (ActSniff sniff) \<Rightarrow>
            exec_bind (pre_match_sniff r firstPacket sniff m) (\<lambda>next. case next of
              Inl _ \<Rightarrow> Returns (pre_result PreMatchContinue None)
            | Inr m \<Rightarrow> pre_match_rules r reject_answer firstPacket packetDestination rules m)
        | Some (ActRouteOptions options) \<Rightarrow>
            pre_match_rules r reject_answer firstPacket packetDestination rules (applyRouteOptionsOverride (rt_env r) options m)
        | Some (ActRoute outbound options) \<Rightarrow>
            preMatchFlow r (applyRouteOptionsOverride (rt_env r) options m) packetDestination outbound
        | Some (ActBypass outbound options) \<Rightarrow>
            let m = applyRouteOptionsOverride (rt_env r) options m in
            if outbound = [] then
              if x_IsDomain (rt_env r) (mc_Destination m) \<or> mc_Destination m \<noteq> packetDestination
              then Returns (pre_result PreMatchContinue None)
              else Returns (pre_result PreMatchBypass None)
            else preMatchFlow r m packetDestination outbound
        | Some (ActReject reject noDrop) \<Rightarrow>
            (case reject_answer reject noDrop of
               ErrDrop \<Rightarrow> Returns (pre_result PreMatchDrop None)
             | ErrPanic \<Rightarrow> Panics
             | _ \<Rightarrow> Returns (pre_result PreMatchReject None))
        | Some ActHijackDNS \<Rightarrow>
            if mc_Network m \<noteq> ''udp'' then Returns (pre_result PreMatchContinue None)
            else Returns (pre_result PreMatchHijackDNS None)
        | Some (ActResolve resolve) \<Rightarrow>
            (case actionResolve r resolve m of
               (Some err, m) \<Rightarrow> Returns (pre_result PreMatchReject None)
             | (None, m) \<Rightarrow> pre_match_rules r reject_answer firstPacket packetDestination rules m)
        | _ \<Rightarrow> Returns (pre_result PreMatchContinue None)))"

definition PreMatch ::
  "('x, 's) router \<Rightarrow> (string \<Rightarrow> bool \<Rightarrow> reject_error) \<Rightarrow> inbound_context \<Rightarrow> byte list \<Rightarrow> PreMatchResult exec" where
  "PreMatch r reject_answer m firstPacket =
     (let packetDestination = mc_Destination m in
      exec_bind (prepareMatchMetadata r (m\<lparr>mc_PreMatch := True\<rparr>)) (\<lambda>(err, m).
        case err of
          Some err \<Rightarrow> Returns (pre_result PreMatchContinue None)
        | None \<Rightarrow> pre_match_rules r reject_answer firstPacket packetDestination (rt_rules r) m))"

end
