(* ===== verification/Prematch.thy ===== *)
theory Prematch
  imports Router
begin

text \<open>
  What matching before a connection exists does to the context, and what a flow it lets through
  satisfies.
\<close>

subsection \<open>The network of a context\<close>

lemma ResetRuleCache_Network: "mc_Network (ResetRuleCache m) = mc_Network m"
  by (simp add: ResetRuleCache_def ResetRuleMatchCache_def)

lemma rule_Match_Network: "mc_Network (snd (rule_Match e sets rule m)) = mc_Network m"
proof -
  obtain b where "snd (rule_Match e sets rule m) = mark b m" using rule_Match_snd by blast
  then show ?thesis by (simp add: mark_def)
qed

lemma quic_finish_Network:
  assumes "quic_finish types fragments m = Returns (err, m')"
  shows "mc_Network m' = mc_Network m"
proof -
  let ?fs = "fragments @ (case mc_SniffContext m of Some old \<Rightarrow> old | None \<Rightarrow> [])"
  obtain payload where payload: "hello_input ?fs = Some payload"
    using assms by (cases "hello_input ?fs") (simp_all add: quic_finish_def Let_def)
  obtain e fp where "Compute payload = Returns (e, fp)"
    using assms payload by (cases "Compute payload") (auto simp: quic_finish_def Let_def)
  then show ?thesis
    using assms payload by (cases e) (auto simp: quic_finish_def Let_def split: if_split_asm)
qed

lemma QUICClientHello_Network:
  assumes "QUICClientHello_sniff qx m packet = Returns (err, m')"
  shows "mc_Network m' = mc_Network m"
proof (cases "quic_plaintext qx packet")
  case (Inl e)
  then show ?thesis using assms by (simp add: QUICClientHello_sniff_def)
next
  case (Inr plain)
  then obtain frames where frames: "parse_frames (fst plain) (snd plain) = Returns frames"
    using assms by (cases plain; cases "parse_frames (fst plain) (snd plain)") (auto simp: QUICClientHello_sniff_def)
  show ?thesis
  proof (cases frames)
    case (Inl e)
    then show ?thesis using assms frames \<open>quic_plaintext qx packet = Inr plain\<close>
      by (cases plain) (simp add: QUICClientHello_sniff_def)
  next
    case (Inr read)
    then show ?thesis using assms frames \<open>quic_plaintext qx packet = Inr plain\<close> quic_finish_Network
      by (cases plain; cases read) (simp add: QUICClientHello_sniff_def)
  qed
qed

lemma PacketSniffer_Network:
  assumes "PacketSniffer sx sniffer m packet = Returns (err, m')"
  shows "mc_Network m' = mc_Network m"
proof (cases sniffer)
  case QUICClientHello
  then show ?thesis using assms QUICClientHello_Network by simp
qed (use assms in \<open>auto simp: DomainNameQuery_sniff_def STUNMessage_sniff_def UTP_sniff_def UDPTracker_sniff_def
    DTLSRecord_sniff_def NTP_sniff_def Let_def split: sum.split_asm if_split_asm option.split_asm\<close>)

lemma PeekPacket_loop_Network:
  "PeekPacket_loop sx m packet sniffers errs = Returns (err, m') \<Longrightarrow> mc_Network m' = mc_Network m"
proof (induction sniffers arbitrary: m errs)
  case (Cons sniffer sniffers)
  then obtain e m1 where run: "PacketSniffer sx sniffer m packet = Returns (e, m1)" by auto
  note m1 = PacketSniffer_Network [OF run]
  show ?case
  proof (cases e)
    case None
    then show ?thesis using Cons.prems run m1 by auto
  next
    case (Some x)
    then have "PeekPacket_loop sx m1 packet sniffers (errs @ [x]) = Returns (err, m')" using Cons.prems run by simp
    from Cons.IH [OF this] m1 show ?thesis by simp
  qed
qed simp

lemma pre_match_sniff_Network:
  assumes "pre_match_sniff r firstPacket action m = Returns (Inr m')"
  shows "mc_Network m' = mc_Network m"
proof (cases "m' = m")
  case False
  let ?sniffers = "if sn_PacketSniffers action = [] then defaultPacketSniffers else sn_PacketSniffers action"
  from False assms obtain err m1 where peek: "PeekPacket (rt_sniff r) m firstPacket ?sniffers = Returns (err, m1)"
    and m': "m' = override_sniffed (rt_env r) action err (note_sniff action err m1)"
    unfolding pre_match_sniff_def Let_def
    by (cases "PeekPacket (rt_sniff r) m firstPacket ?sniffers") (simp_all split: if_split_asm prod.split_asm)
  show ?thesis
    using PeekPacket_loop_Network [OF peek [unfolded PeekPacket_def]]
    by (simp add: m' override_sniffed_def note_sniff_def)
qed simp

lemma applyRouteOptionsOverride_Network: "mc_Network (applyRouteOptionsOverride e options m) = mc_Network m"
  by (simp add: applyRouteOptionsOverride_def Let_def)

lemma actionResolve_Network: "mc_Network (snd (actionResolve r action m)) = mc_Network m"
  by (simp add: actionResolve_def split: sum.split)

lemma searchProcessInfo_same:
  "mc_Destination (searchProcessInfo r m) = mc_Destination m" "mc_Network (searchProcessInfo r m) = mc_Network m"
  by (cases "rt_find_process r"; simp add: searchProcessInfo_def Let_def split: sum.split)+

lemma search_neighbor_same:
  "mc_Destination (search_neighbor r m) = mc_Destination m" "mc_Network (search_neighbor r m) = mc_Network m"
proof -
  have "mc_Destination (search_neighbor r m) = mc_Destination m \<and> mc_Network (search_neighbor r m) = mc_Network m"
  proof (cases "rt_lookup_neighbor r")
    case (Some f)
    then show ?thesis
      by (cases "f (sa_Addr (mc_Source m))") (auto simp: search_neighbor_def Let_def split: option.split)
  qed (simp add: search_neighbor_def)
  then show "mc_Destination (search_neighbor r m) = mc_Destination m" "mc_Network (search_neighbor r m) = mc_Network m"
    by simp_all
qed

lemma map_destination_Network:
  assumes "map_destination r m = Returns (err, m')"
  shows "mc_Network m' = mc_Network m"
  using assms by (auto simp: map_destination_def Let_def split: option.split_asm prod.split_asm if_split_asm)

lemma prepareMatchMetadata_Network:
  assumes "prepareMatchMetadata r m = Returns (None, m')"
  shows "mc_Network m' = mc_Network m"
proof -
  from assms obtain m1 where run: "map_destination r (search_neighbor r (searchProcessInfo r m)) = Returns (None, m1)"
    and m': "m' = set_ip_version r m1"
    by (auto simp: prepareMatchMetadata_def split: option.split_asm)
  have "mc_Network m1 = mc_Network m"
    using map_destination_Network [OF run] by (simp only: search_neighbor_same searchProcessInfo_same)
  then show ?thesis by (simp add: m' set_ip_version_def)
qed

subsection \<open>Flows\<close>

text \<open>
  A flow that may be forwarded: through an outbound that the manager finds under a tag or holds as
  its default, that is for the network of the flow, can forward flows and accepts the address the
  packets will go to. The default need not be registered any more: creating an outbound over the
  default one can leave the closed old one in its place.
\<close>

definition held_outbound :: "('x, 's) router \<Rightarrow> object \<Rightarrow> bool" where
  "held_outbound r ob \<longleftrightarrow> outbound_Default (rt_outbound r) = Some ob \<or>
     (\<exists>tag. outbound_Outbound (rt_endpoint r) (rt_outbound r) tag = Some ob)"

definition flow_ok :: "('x, 's) router \<Rightarrow> string \<Rightarrow> socksaddr \<Rightarrow> PreMatchResult \<Rightarrow> bool" where
  "flow_ok r nw packetDestination res \<longleftrightarrow> (\<exists>ob flow. pm_Outbound res = Some ob \<and> held_outbound r ob \<and>
     nw \<in> set (rt_Network r ob) \<and> rt_flow r ob = Some flow \<and>
     flow nw (case pm_Destination res of Some (address, port) \<Rightarrow> address | None \<Rightarrow> sa_Addr packetDestination) = PreMatchFlow)"

lemma follow_groups_held:
  "follow_groups r n ob = Some ob' \<Longrightarrow> held_outbound r ob \<Longrightarrow> held_outbound r ob'"
proof (induction n arbitrary: ob)
  case (Suc n)
  show ?case
  proof (cases "rt_group_now r ob")
    case (Some tag)
    with Suc.prems(1) obtain next_ob where "outbound_Outbound (rt_endpoint r) (rt_outbound r) tag = Some next_ob"
      "follow_groups r n next_ob = Some ob'" by (auto split: option.split_asm)
    then show ?thesis using Suc.IH by (auto simp: held_outbound_def)
  qed (use Suc.prems in simp)
qed simp

lemma pre_match_outbound_flow:
  assumes flow: "pm_Action (pre_match_outbound r m d ob) = PreMatchFlow" and "held_outbound r ob"
  shows "flow_ok r (mc_Network m) d (pre_match_outbound r m d ob)"
  using assms
  by (auto simp: pre_match_outbound_def pre_result_def flow_ok_def Let_def split: if_split_asm option.split_asm)

lemma preMatchFlow_flow:
  assumes "preMatchFlow r m d tag = Returns res" and "pm_Action res = PreMatchFlow"
  shows "flow_ok r (mc_Network m) d res"
proof -
  from assms obtain start ob where "held_outbound r start" "follow_groups r 8 start = Some ob"
    and res: "res = pre_match_outbound r m d ob"
    by (auto simp: preMatchFlow_def pre_result_def held_outbound_def split: if_split_asm option.split_asm)
  then show ?thesis using pre_match_outbound_flow follow_groups_held assms(2) by blast
qed

lemma pre_match_rules_flow:
  "pre_match_rules r answer packet d rules m = Returns res \<Longrightarrow> pm_Action res = PreMatchFlow \<Longrightarrow> flow_ok r (mc_Network m) d res"
proof (induction rules arbitrary: m)
  case Nil
  then show ?case using preMatchFlow_flow by simp
next
  case (Cons p rules)
  obtain rule action where p: "p = (rule, action)" by (cases p)
  obtain matched m1 where m1: "rule_Match (rt_env r) (rt_sets r) rule (ResetRuleCache m) = (matched, m1)" by fastforce
  have nw: "mc_Network m1 = mc_Network m"
    using rule_Match_Network [of "rt_env r" "rt_sets r" rule "ResetRuleCache m"] by (simp add: m1 ResetRuleCache_Network)
  have IH: "flow_ok r (mc_Network m) d res"
    if "pre_match_rules r answer packet d rules m2 = Returns res" "mc_Network m2 = mc_Network m" for m2
    using Cons.IH [OF that(1) Cons.prems(2)] that(2) by simp
  have stop: "flow_ok r (mc_Network m) d res"
    if "preMatchFlow r m2 d tag = Returns res" "mc_Network m2 = mc_Network m" for m2 tag
    using preMatchFlow_flow [OF that(1) Cons.prems(2)] that(2) by simp
  note run = Cons.prems(1) [unfolded p pre_match_rules.simps m1 prod.case]
  show ?case
  proof (cases matched)
    case False
    then show ?thesis using run IH nw by simp
  next
    case True
    show ?thesis
    proof (cases action)
      case None
      then show ?thesis using run True Cons.prems(2) by (auto simp: pre_result_def)
    next
      case (Some a)
      show ?thesis
      proof (cases a)
        case (ActSniff sniff)
        then obtain next_m where sniffed: "pre_match_sniff r packet sniff m1 = Returns next_m"
          using run True Some by auto
        show ?thesis
        proof (cases next_m)
          case (Inl u)
          then show ?thesis using run True Some ActSniff sniffed Cons.prems(2) by (auto simp: pre_result_def)
        next
          case (Inr m2)
          then show ?thesis using run True Some ActSniff sniffed IH pre_match_sniff_Network [of r packet sniff m1 m2] nw by simp
        qed
      next
        case (ActResolve resolve)
        obtain e m2 where "actionResolve r resolve m1 = (e, m2)" by fastforce
        then show ?thesis
          using run True Some ActResolve IH nw Cons.prems(2) actionResolve_Network [of r resolve m1]
          by (cases e) (auto simp: pre_result_def)
      qed (use run True Some IH stop nw Cons.prems(2) in
        \<open>auto simp: pre_result_def applyRouteOptionsOverride_Network Let_def split: if_split_asm reject_error.split_asm\<close>)
    qed
  qed
qed

lemma PreMatch_flow:
  assumes "PreMatch r answer m packet = Returns res" and "pm_Action res = PreMatchFlow"
  shows "flow_ok r (mc_Network m) (mc_Destination m) res"
proof -
  from assms obtain m1 where "prepareMatchMetadata r (m\<lparr>mc_PreMatch := True\<rparr>) = Returns (None, m1)"
    "pre_match_rules r answer packet (mc_Destination m) (rt_rules r) m1 = Returns res"
    by (auto simp: PreMatch_def pre_result_def Let_def split: option.split_asm)
  then show ?thesis
    using pre_match_rules_flow assms(2) prepareMatchMetadata_Network by fastforce
qed

end
