(* ===== verification/Router_Spec.thy ===== *)
theory Router_Spec
  imports "HOL-Library.Multiset" Prematch Fakeip_Spec Sniff_Spec Sample_Env
begin

text \<open>
  What routing promises: the first rule with a deciding action that matches is selected, a
  connection reaches only an outbound that exists and supports it, no byte read while sniffing
  is lost, and a FakeIP address is routed as the domain it stands for.
\<close>

subsection \<open>The deciding rule\<close>

lemma match_rules_append:
  "match_rules r i (pre @ post) s =
     exec_bind (match_rules r i pre s) (\<lambda>(err, selected, s).
       if err = None \<and> selected = None then match_rules r (i + length pre) post s else Returns (err, selected, s))"
proof (induction pre arbitrary: i s)
  case (Cons p pre)
  obtain rule action where p: "p = (rule, action)" by (cases p)
  obtain matched m where m: "rule_Match (rt_env r) (rt_sets r) rule (ResetRuleCache (ms_metadata s)) = (matched, m)"
    by fastforce
  show ?case
  proof (cases "matched")
    case False
    then show ?thesis by (simp add: p m Cons.IH cong: if_cong)
  next
    case True
    show ?thesis
    proof (cases "run_action r action (s\<lparr>ms_metadata := m\<rparr>)")
      case (Returns x)
      then show ?thesis
        using True by (cases x) (simp add: p m Cons.IH cong: if_cong split: option.split)
    qed (simp_all add: p m True)
  qed
qed simp

lemma match_rules_pass:
  assumes "match_rules r i (pre @ post) s = Returns (None, None, s2)"
  obtains s1 where "match_rules r i pre s = Returns (None, None, s1)"
proof (cases "match_rules r i pre s")
  case (Returns x)
  obtain err selected s1 where x: "x = (err, selected, s1)" by (cases x)
  with assms Returns have "err = None \<and> selected = None"
    by (cases "err = None \<and> selected = None") (auto simp: match_rules_append)
  then show ?thesis using that Returns x by simp
qed (use assms in \<open>simp_all add: match_rules_append\<close>)

definition final_state :: "('x, 's) router \<Rightarrow> rule_action \<Rightarrow> match_state \<Rightarrow> match_state" where
  "final_state r a s = (case route_options_of (Some a) of
     Some options \<Rightarrow> s\<lparr>ms_metadata := apply_route_options (rt_env r) options (ms_metadata s)\<rparr> | None \<Rightarrow> s)"

lemma run_action_final:
  "run_action r action s = Returns (None, True, s') \<longleftrightarrow>
     (\<exists>a. action = Some a \<and> is_final a \<and> s' = final_state r a s)"
  by (auto simp: run_action_def final_state_def is_final_def route_options_of_def Let_def
      split: option.splits rule_action.splits prod.splits if_splits)

text \<open>The state in which the rule with index \<open>j\<close> is tried, and whether it matches then.\<close>

definition tried_in :: "('x, 's) router \<Rightarrow> match_state \<Rightarrow> nat \<Rightarrow> match_state \<Rightarrow> bool" where
  "tried_in r s j s' \<longleftrightarrow> match_rules r 0 (take j (rt_rules r)) s = Returns (None, None, s')"

definition matches_rule :: "('x, 's) router \<Rightarrow> nat \<Rightarrow> match_state \<Rightarrow> bool" where
  "matches_rule r j s = fst (rule_Match (rt_env r) (rt_sets r) (fst (rt_rules r ! j)) (ResetRuleCache (ms_metadata s)))"

definition matched_state :: "('x, 's) router \<Rightarrow> nat \<Rightarrow> match_state \<Rightarrow> match_state" where
  "matched_state r j s = s\<lparr>ms_metadata :=
     snd (rule_Match (rt_env r) (rt_sets r) (fst (rt_rules r ! j)) (ResetRuleCache (ms_metadata s)))\<rparr>"

lemma match_rules_selected:
  "match_rules r k rules s = Returns (None, Some (i, a), s') \<Longrightarrow>
   \<exists>j s1. i = k + j \<and> j < length rules \<and> match_rules r k (take j rules) s = Returns (None, None, s1) \<and>
     fst (rule_Match (rt_env r) (rt_sets r) (fst (rules ! j)) (ResetRuleCache (ms_metadata s1))) \<and>
     snd (rules ! j) = Some a \<and> is_final a \<and>
     s' = final_state r a (s1\<lparr>ms_metadata :=
       snd (rule_Match (rt_env r) (rt_sets r) (fst (rules ! j)) (ResetRuleCache (ms_metadata s1)))\<rparr>)"
proof (induction rules arbitrary: k s)
  case (Cons p rules)
  obtain rule action where p: "p = (rule, action)" by (cases p)
  obtain matched m where m: "rule_Match (rt_env r) (rt_sets r) rule (ResetRuleCache (ms_metadata s)) = (matched, m)"
    by fastforce
  have later: ?case if pass: "\<And>post. match_rules r k (p # post) s = match_rules r (k + 1) post s2" for s2
  proof -
    from Cons.prems pass have "match_rules r (k + 1) rules s2 = Returns (None, Some (i, a), s')" by simp
    from Cons.IH [OF this] obtain j s1 where j: "i = k + 1 + j" "j < length rules"
      "match_rules r (k + 1) (take j rules) s2 = Returns (None, None, s1)"
      "fst (rule_Match (rt_env r) (rt_sets r) (fst (rules ! j)) (ResetRuleCache (ms_metadata s1)))"
      "snd (rules ! j) = Some a" "is_final a"
      "s' = final_state r a (s1\<lparr>ms_metadata :=
         snd (rule_Match (rt_env r) (rt_sets r) (fst (rules ! j)) (ResetRuleCache (ms_metadata s1)))\<rparr>)"
      by blast
    then show ?thesis by (intro exI [of _ "Suc j"] exI [of _ s1]) (simp add: pass)
  qed
  show ?case
  proof (cases matched)
    case False
    then have "match_rules r k (p # post) s = match_rules r (k + 1) post (s\<lparr>ms_metadata := m\<rparr>)" for post
      by (simp add: p m)
    then show ?thesis by (rule later)
  next
    case True
    with Cons.prems obtain final s2 where run: "run_action r action (s\<lparr>ms_metadata := m\<rparr>) = Returns (None, final, s2)"
      by (auto simp: p m split: option.splits)
    show ?thesis
    proof (cases final)
      case False
      then have "match_rules r k (p # post) s = match_rules r (k + 1) post s2" for post
        using True run by (simp add: p m)
      then show ?thesis by (rule later)
    next
      case final: True
      with run obtain b where b: "action = Some b" "is_final b" "s2 = final_state r b (s\<lparr>ms_metadata := m\<rparr>)"
        using run_action_final [of r action] by auto
      have "i = k" "a = b" "s' = s2" using Cons.prems True run final b(1) by (auto simp: p m)
      then show ?thesis
        using b True by (intro exI [of _ 0] exI [of _ s]) (simp add: p m)
    qed
  qed
qed simp

lemma match_rules_deciding:
  assumes "j < length rules" and "match_rules r k (take j rules) s = Returns (None, None, s1)"
    and "fst (rule_Match (rt_env r) (rt_sets r) (fst (rules ! j)) (ResetRuleCache (ms_metadata s1)))"
    and "snd (rules ! j) = Some a" and "is_final a"
  shows "match_rules r k rules s = Returns (None, Some (k + j, a),
     final_state r a (s1\<lparr>ms_metadata :=
       snd (rule_Match (rt_env r) (rt_sets r) (fst (rules ! j)) (ResetRuleCache (ms_metadata s1)))\<rparr>))"
proof -
  have rules: "rules = take j rules @ (fst (rules ! j), Some a) # drop (Suc j) rules"
    using assms(1,4) by (metis id_take_nth_drop prod.collapse)
  let ?s = "s1\<lparr>ms_metadata :=
       snd (rule_Match (rt_env r) (rt_sets r) (fst (rules ! j)) (ResetRuleCache (ms_metadata s1)))\<rparr>"
  have "run_action r (Some a) ?s = Returns (None, True, final_state r a ?s)"
    using assms(5) by (simp add: run_action_final)
  then have "match_rules r (k + j) ((fst (rules ! j), Some a) # drop (Suc j) rules) s1
      = Returns (None, Some (k + j, a), final_state r a ?s)"
    using assms(3) by (simp add: split_beta)
  then show ?thesis
    using assms(1,2) by (subst rules) (simp add: match_rules_append)
qed

text \<open>A router for examples: no rules yet, one outbound for TCP and UDP that is the default.\<close>

definition sample_outbound :: object where
  "sample_outbound = \<lparr>ob_id = 1, ob_Type = ''direct'', ob_Tag = ''out'', ob_Dependencies = [], ob_starter = Has_Legacy False False False,
     ob_closer = False, ob_committer = False, ob_activator = False\<rparr>"

definition sample_sniff :: sniff_env where
  "sample_sniff = \<lparr>sx_quic = sample_quic,
     sx_Unpack = (\<lambda>_. Inl ErrInvalid), sx_Handshake = (\<lambda>_. (None, Some ErrInvalid)),
     sx_ReadRequest = (\<lambda>_. Inl ErrInvalid), sx_AddrString = (\<lambda>s. s)\<rparr>"

definition sample_router ::
  "((string list \<times> string list) rule \<times> rule_action option) list \<Rightarrow> (string list \<times> string list, MemoryStorage) router" where
  "sample_router rules = \<lparr>rt_rules = rules, rt_env = sample_env, rt_sets = no_sets, rt_sniff = sample_sniff,
     rt_inbound = NewManager, rt_endpoint = NewManager,
     rt_outbound = (outbound_NewManager ''out'')\<lparr>mgr_byTag := [(''out'', sample_outbound)], om_default := Some sample_outbound\<rparr>,
     rt_fakeip = Some (memory_ops, small_store1), rt_find_process = None, rt_my_addresses = [], rt_lookup_neighbor = None,
     rt_reverse_mapping = (\<lambda>_. None), rt_dns_transport = (\<lambda>_. False), rt_dns_lookup = (\<lambda>_ _ _. Inr []),
     rt_is_timeout = (\<lambda>_. False), rt_PutPacketBuffer = (\<lambda>_. (None, socksaddr_zero)), rt_mux_Fqdn = ''mux.test'',
     rt_vmess_mux_Fqdn = ''vmess.test'', rt_uot_MagicAddress = ''uot.test'',
     rt_uot_LegacyMagicAddress = ''legacy.test'', rt_Network = (\<lambda>_. [''tcp'', ''udp'']),
     rt_tcp_injectable = (\<lambda>_. False), rt_udp_injectable = (\<lambda>_. False), rt_group_now = (\<lambda>_. None),
     rt_flow = (\<lambda>_. Some (\<lambda>_ _. PreMatchFlow))\<rparr>"

text \<open>A rule without items, which matches every connection.\<close>

abbreviation any_rule :: "'x rule" where
  "any_rule \<equiv> DefaultRule (rule_zero False)"

lemma any_rule_matches: "rule_Match e sets any_rule m = (True, m)"
  by (simp add: abstractDefaultRule_Match_def no_items_def rule_zero_def)

lemma sample_router_sel [simp]:
  "rt_rules (sample_router rules) = rules" "rt_env (sample_router rules) = sample_env"
  "rt_sets (sample_router rules) = no_sets" "rt_sniff (sample_router rules) = sample_sniff"
  "rt_fakeip (sample_router rules) = Some (memory_ops, small_store1)"
  "rt_find_process (sample_router rules) = None" "rt_lookup_neighbor (sample_router rules) = None"
  "rt_reverse_mapping (sample_router rules) a = None" "rt_mux_Fqdn (sample_router rules) = ''mux.test''"
  "rt_vmess_mux_Fqdn (sample_router rules) = ''vmess.test''"
  "rt_uot_MagicAddress (sample_router rules) = ''uot.test''"
  "rt_uot_LegacyMagicAddress (sample_router rules) = ''legacy.test''"
  "rt_Network (sample_router rules) ob = [''tcp'', ''udp'']" "rt_PutPacketBuffer (sample_router rules) p = (None, socksaddr_zero)"
  "outbound_Default (rt_outbound (sample_router rules)) = Some sample_outbound"
  by (simp_all add: sample_router_def outbound_Default_def)

lemma sample_env_sel [simp]:
  "x_IsIPv4 sample_env a = addr_Is4 (sa_Addr a)" "x_IsIPv6 sample_env a = addr_Is6 (sa_Addr a)"
  "x_IsValid sample_env a \<longleftrightarrow> addr_IsValid (sa_Addr a) \<or> sa_Fqdn a \<noteq> []"
  by (simp_all add: sample_env_def)

lemma sample_prepare:
  assumes "\<not> addr_IsValid (sa_Addr (mc_Destination m))"
  shows "prepareMatchMetadata (sample_router rules) m = Returns (None, m)"
  using assms by (cases "sa_Addr (mc_Destination m)")
    (simp_all add: prepareMatchMetadata_def searchProcessInfo_def search_neighbor_def map_destination_def set_ip_version_def Let_def)

text \<open>
  C36: The router selects the first rule with a deciding action that matches. After a successful
  preparation of the context, rule \<open>i\<close> with action \<open>a\<close> is selected exactly if the rules in
  front of it passed the connection on, it matches the context as those rules left it, and its
  action is to route, to reject, to hijack DNS or to bypass to an outbound. Every rule in front
  of it either did not match the context it was tried on or has no deciding action.
\<close>

theorem route_first_match:
  assumes prepared: "prepareMatchMetadata r (ms_metadata s) = Returns (None, m)"
  shows "(matchRule r s = Returns (None, Some (i, a), s') \<longleftrightarrow>
      (\<exists>s1. i < length (rt_rules r) \<and> tried_in r (s\<lparr>ms_metadata := m\<rparr>) i s1 \<and> matches_rule r i s1 \<and>
         snd (rt_rules r ! i) = Some a \<and> is_final a \<and> s' = final_state r a (matched_state r i s1))) \<and>
    (matchRule r s = Returns (None, Some (i, a), s') \<longrightarrow>
      (\<forall>j < i. \<exists>s1. tried_in r (s\<lparr>ms_metadata := m\<rparr>) j s1 \<and>
         (matches_rule r j s1 \<longrightarrow> (\<forall>b. snd (rt_rules r ! j) = Some b \<longrightarrow> \<not> is_final b))))"
proof -
  let ?s = "s\<lparr>ms_metadata := m\<rparr>"
  let ?R = "\<exists>s1. i < length (rt_rules r) \<and> tried_in r ?s i s1 \<and> matches_rule r i s1 \<and>
         snd (rt_rules r ! i) = Some a \<and> is_final a \<and> s' = final_state r a (matched_state r i s1)"
  have run: "matchRule r s = match_rules r 0 (rt_rules r) ?s" by (simp add: matchRule_def prepared)
  have sel: "matchRule r s = Returns (None, Some (i, a), s') \<longleftrightarrow> ?R"
  proof
    assume "matchRule r s = Returns (None, Some (i, a), s')"
    from match_rules_selected [OF this [unfolded run]] show ?R
      by (auto simp: tried_in_def matches_rule_def matched_state_def)
  next
    assume ?R
    then obtain s1 where s1: "i < length (rt_rules r)" "tried_in r ?s i s1" "matches_rule r i s1"
      "snd (rt_rules r ! i) = Some a" "is_final a" "s' = final_state r a (matched_state r i s1)" by blast
    from match_rules_deciding [OF s1(1) s1(2) [unfolded tried_in_def] s1(3) [unfolded matches_rule_def] s1(4,5)]
    show "matchRule r s = Returns (None, Some (i, a), s')"
      by (simp add: run s1(6) matched_state_def)
  qed
  have "\<exists>s1. tried_in r ?s j s1 \<and> (matches_rule r j s1 \<longrightarrow> (\<forall>b. snd (rt_rules r ! j) = Some b \<longrightarrow> \<not> is_final b))"
    if "matchRule r s = Returns (None, Some (i, a), s')" and j: "j < i" for j
  proof -
    from that(1) sel obtain s2 where i: "i < length (rt_rules r)" and s2: "tried_in r ?s i s2" by blast
    let ?pre = "take i (rt_rules r)"
    have split: "?pre = take j (rt_rules r) @ drop j ?pre" using j by (metis append_take_drop_id min.absorb1 nless_le take_take)
    have "match_rules r 0 (take j (rt_rules r) @ drop j ?pre) ?s = Returns (None, None, s2)"
      using s2 split by (simp add: tried_in_def)
    then obtain s1 where s1: "tried_in r ?s j s1"
      unfolding tried_in_def by (rule match_rules_pass)
    have "\<not> is_final b" if "matches_rule r j s1" and "snd (rt_rules r ! j) = Some b" for b
    proof
      assume "is_final b"
      moreover have "j < length ?pre" using j i by simp
      moreover have "?pre ! j = rt_rules r ! j" using j by simp
      moreover have "take j ?pre = take j (rt_rules r)" using j by (simp add: min_def)
      ultimately have "match_rules r 0 ?pre ?s \<noteq> Returns (None, None, s2)"
        using match_rules_deciding [of j ?pre r 0 ?s s1 b] s1 that by (simp add: tried_in_def matches_rule_def)
      then show False using s2 by (simp add: tried_in_def)
    qed
    with s1 show ?thesis by blast
  qed
  with sel show ?thesis by blast
qed

theorem route_first_match_witness:
  "\<exists>s'. matchRule (sample_router [(any_rule, Some (ActDirect '''')), (any_rule, Some ActHijackDNS), (any_rule, Some (ActReject ''drop'' False))])
     (stream_input [] context_zero) = Returns (None, Some (1, ActHijackDNS), s')"
proof -
  let ?r = "sample_router [(any_rule, Some (ActDirect '''')), (any_rule, Some ActHijackDNS), (any_rule, Some (ActReject ''drop'' False))]"
  let ?s = "stream_input [] context_zero"
  have prepared: "prepareMatchMetadata ?r (ms_metadata ?s) = Returns (None, context_zero)"
    by (simp add: stream_input_def sample_prepare context_zero_def socksaddr_zero_def)
  have "match_rules ?r 0 [(any_rule, Some (ActDirect ''''))] ?s
      = Returns (None, None, ?s\<lparr>ms_metadata := ResetRuleCache context_zero\<rparr>)"
    by (simp add: any_rule_matches run_action_def route_options_of_def is_final_def stream_input_def del: rule_Match.simps)
  then have "tried_in ?r (?s\<lparr>ms_metadata := context_zero\<rparr>) 1 (?s\<lparr>ms_metadata := ResetRuleCache context_zero\<rparr>)"
    by (simp add: tried_in_def stream_input_def)
  moreover have "matches_rule ?r 1 s1" for s1
    by (simp add: matches_rule_def any_rule_matches del: rule_Match.simps)
  moreover have "snd (rt_rules ?r ! 1) = Some ActHijackDNS" "1 < length (rt_rules ?r)" by simp_all
  moreover have "is_final ActHijackDNS" by (simp add: is_final_def)
  ultimately show ?thesis
    using route_first_match [OF prepared, of 1 ActHijackDNS] by blast
qed

subsection \<open>Outbounds\<close>

text \<open>The outbound that belongs to the result of matching.\<close>

definition chosen_outbound :: "('x, 's) router \<Rightarrow> (nat \<times> rule_action) option \<Rightarrow> object \<Rightarrow> bool" where
  "chosen_outbound r selected ob = (case selected of
     None \<Rightarrow> outbound_Default (rt_outbound r) = Some ob
   | Some (_, ActRoute tag _) \<Rightarrow> outbound_Outbound (rt_endpoint r) (rt_outbound r) tag = Some ob
   | Some (_, ActBypass tag _) \<Rightarrow> tag \<noteq> [] \<and> outbound_Outbound (rt_endpoint r) (rt_outbound r) tag = Some ob
   | _ \<Rightarrow> False)"

lemma select_outbound_Inr:
  "select_outbound r nw kind tag = Inr ob \<longleftrightarrow>
     outbound_Outbound (rt_endpoint r) (rt_outbound r) tag = Some ob \<and> nw \<in> set (rt_Network r ob)"
  by (auto simp: select_outbound_def split: option.splits)

lemma selected_outbound_Inr:
  "selected_outbound r nw kind msg selected = Returns (Inr ob) \<longleftrightarrow>
     chosen_outbound r selected ob \<and> nw \<in> set (rt_Network r ob)"
  by (auto simp: selected_outbound_def chosen_outbound_def default_outbound_def select_outbound_Inr
      split: option.splits prod.splits rule_action.splits if_splits)

lemma hand_over_Returns:
  "(case x of Inl err \<Rightarrow> Returns (Route_error err) | Inr ob \<Rightarrow> Returns (f ob)) = Returns v \<longleftrightarrow>
     (\<exists>err. x = Inl err \<and> v = Route_error err) \<or> (\<exists>ob. x = Inr ob \<and> v = f ob)"
  by (auto split: sum.split)

lemma routeConnection_Handed:
  assumes "routeConnection r stream m = Returns (Handed ob conn m')"
  obtains selected s where "matchRule r (stream_input stream (m\<lparr>mc_Network := ''tcp''\<rparr>)) = Returns (None, selected, s)"
    and "selected_outbound r ''tcp'' ''TCP'' ''TCP is not supported by default outbound: '' selected = Returns (Inr ob)"
    and "conn = cache_conn (ms_buffers s) (the (ms_conn s))" and "m' = ms_metadata s"
  using assms
  by (auto simp: routeConnection_def route_detour_def Let_def hand_over_Returns
      split: if_splits option.splits prod.splits rule_action.splits)

lemma routePacketConnection_Handed:
  assumes "routePacketConnection r input m = Returns (Handed_packets ob conn fake m')"
  obtains selected s where "matchRule r (packet_input input (m\<lparr>mc_Network := ''udp''\<rparr>)) = Returns (None, selected, s)"
    and "selected_outbound r ''udp'' ''UDP'' ''UDP is not supported by outbound: '' selected = Returns (Inr ob)"
    and "conn = cache_packets (rt_PutPacketBuffer r) (ms_packet_buffers s) (the (ms_packet_conn s))" and "m' = ms_metadata s"
  using assms
  by (auto simp: routePacketConnection_def route_detour_def Let_def hand_over_Returns
      split: if_splits option.splits prod.splits rule_action.splits)

text \<open>
  C37: A connection reaches only the outbound that the manager finds under the tag its rule names
  or, when no rule decides, the one that the manager holds as its default, and only if that outbound
  supports the network of the connection; a rule that rejects or hijacks never hands the connection
  on. A flow that is let through before a connection exists gets an outbound found under a tag, or
  the one held as the default, that supports its network and accepts flows to the address the packets
  will be sent to, also after groups were followed and the destination was overridden. The router
  takes the default as it is: it does not check that it is still registered, and after an outbound
  was created over it, it may be the closed old one.
\<close>

theorem route_outbound_ok:
  "(routeConnection r stream m = Returns (Handed ob conn m') \<longrightarrow>
      (\<exists>selected s. matchRule r (stream_input stream (m\<lparr>mc_Network := ''tcp''\<rparr>)) = Returns (None, selected, s) \<and>
        m' = ms_metadata s \<and> chosen_outbound r selected ob \<and> ''tcp'' \<in> set (rt_Network r ob))) \<and>
    (routePacketConnection r input m_p = Returns (Handed_packets ob_p conn_p fake m_p') \<longrightarrow>
      (\<exists>selected s. matchRule r (packet_input input (m_p\<lparr>mc_Network := ''udp''\<rparr>)) = Returns (None, selected, s) \<and>
        m_p' = ms_metadata s \<and> chosen_outbound r selected ob_p \<and> ''udp'' \<in> set (rt_Network r ob_p))) \<and>
    (PreMatch r answer m_f packet = Returns res \<and> pm_Action res = PreMatchFlow \<longrightarrow>
      flow_ok r (mc_Network m_f) (mc_Destination m_f) res)"
proof (intro conjI impI, goal_cases)
  case 1
  then obtain sel s where "matchRule r (stream_input stream (m\<lparr>mc_Network := ''tcp''\<rparr>)) = Returns (None, sel, s)"
    "selected_outbound r ''tcp'' ''TCP'' ''TCP is not supported by default outbound: '' sel = Returns (Inr ob)"
    "m' = ms_metadata s" by (rule routeConnection_Handed)
  then show ?case unfolding selected_outbound_Inr by blast
next
  case 2
  then obtain sel s where "matchRule r (packet_input input (m_p\<lparr>mc_Network := ''udp''\<rparr>)) = Returns (None, sel, s)"
    "selected_outbound r ''udp'' ''UDP'' ''UDP is not supported by outbound: '' sel = Returns (Inr ob_p)"
    "m_p' = ms_metadata s" by (rule routePacketConnection_Handed)
  then show ?case unfolding selected_outbound_Inr by blast
next
  case 3
  then show ?case using PreMatch_flow by blast
qed

definition web_context :: inbound_context where
  "web_context = context_zero\<lparr>mc_Destination := \<lparr>sa_Addr = addr_zero, sa_Port = 80, sa_Fqdn = ''a.b''\<rparr>\<rparr>"

lemma web_context_sel [simp]:
  "mc_Destination web_context = \<lparr>sa_Addr = addr_zero, sa_Port = 80, sa_Fqdn = ''a.b''\<rparr>"
  "mc_InboundDetour web_context = []" "mc_InboundType web_context = []" "mc_Protocol web_context = []"
  "mc_SniffError web_context = None" "mc_SnifferNames web_context = []" "mc_SniffContext web_context = None"
  by (simp_all add: web_context_def context_zero_def)

lemma sample_route:
  "routeConnection (sample_router []) [] web_context = Returns (Handed sample_outbound (Raw []) (web_context\<lparr>mc_Network := ''tcp''\<rparr>))"
  "routePacketConnection (sample_router []) [] web_context
     = Returns (Handed_packets sample_outbound (Raw_packets []) (mc_FakeIP web_context) (web_context\<lparr>mc_Network := ''udp''\<rparr>))"
  by (simp_all add: routeConnection_def magic_error_def routePacketConnection_def matchRule_def stream_input_def packet_input_def
      sample_prepare selected_outbound_def default_outbound_def cache_conn_def cache_packets_def Let_def)

text \<open>A rule that names the outbound, with a second outbound as the default.\<close>

definition plain_options :: RuleActionRouteOptions where
  "plain_options = \<lparr>ao_OverrideAddress = socksaddr_zero, ao_OverridePort = 0, ao_NetworkStrategy = None, ao_NetworkType = [],
     ao_FallbackNetworkType = [], ao_FallbackDelay = 0, ao_UDPDisableDomainUnmapping = False, ao_UDPConnect = False, ao_UDPTimeout = 0,
     ao_TLSFragment = False, ao_TLSFragmentFallbackDelay = 0, ao_TLSRecordFragment = False, ao_TLSSpoof = [],
     ao_TLSSpoofMethod = MethodWrongSequence\<rparr>"

definition named_router :: "(string list \<times> string list, MemoryStorage) router" where
  "named_router = (sample_router [(any_rule, Some (ActRoute ''out'' plain_options))])
     \<lparr>rt_outbound := (outbound_NewManager [])\<lparr>mgr_byTag := [(''out'', sample_outbound)], om_default := Some (sample_outbound\<lparr>ob_id := 2\<rparr>)\<rparr>\<rparr>"

lemma named_route:
  "case routeConnection named_router [] web_context of Returns (Handed ob conn m') \<Rightarrow> ob = sample_outbound | _ \<Rightarrow> False"
  by code_simp

lemma magic_route:
  "routeConnection named_router [] (web_context\<lparr>mc_Destination := (mc_Destination web_context)\<lparr>sa_Fqdn := ''uot.test''\<rparr>\<rparr>)
     = Returns (Route_error (E_New ''global UoT not supported since sing-box v1.7.0.''))"
  by (simp add: routeConnection_def magic_error_def named_router_def)

definition flow_context :: inbound_context where
  "flow_context = context_zero\<lparr>mc_Network := ''udp'', mc_Destination := \<lparr>sa_Addr = A4 0x01020304, sa_Port = 443, sa_Fqdn = []\<rparr>\<rparr>"

lemma sample_flow:
  "case PreMatch (sample_router []) (\<lambda>_ _. ErrDrop) flow_context [] of
     Returns res \<Rightarrow> pm_Action res = PreMatchFlow \<and> pm_Destination res = None | _ \<Rightarrow> False"
  by code_simp

theorem route_outbound_ok_witness:
  "(\<exists>selected s. matchRule (sample_router []) (stream_input [] (web_context\<lparr>mc_Network := ''tcp''\<rparr>)) = Returns (None, selected, s) \<and>
      chosen_outbound (sample_router []) selected sample_outbound) \<and>
   (\<exists>selected s. matchRule (sample_router []) (packet_input [] (web_context\<lparr>mc_Network := ''udp''\<rparr>)) = Returns (None, selected, s) \<and>
      chosen_outbound (sample_router []) selected sample_outbound) \<and>
   (\<exists>res. PreMatch (sample_router []) (\<lambda>_ _. ErrDrop) flow_context [] = Returns res \<and>
      flow_ok (sample_router []) ''udp'' (mc_Destination flow_context) res) \<and>
   (\<exists>selected s. matchRule named_router (stream_input [] (web_context\<lparr>mc_Network := ''tcp''\<rparr>)) = Returns (None, selected, s) \<and>
      chosen_outbound named_router selected sample_outbound \<and> ''tcp'' \<in> set (rt_Network named_router sample_outbound))"
proof -
  obtain res where flow: "PreMatch (sample_router []) (\<lambda>_ _. ErrDrop) flow_context [] = Returns res" "pm_Action res = PreMatchFlow"
    using sample_flow by (auto split: exec.split_asm)
  obtain conn m' where "routeConnection named_router [] web_context = Returns (Handed sample_outbound conn m')"
    using named_route by (auto split: exec.split_asm route_result.split_asm)
  then have named: "\<exists>selected s. matchRule named_router (stream_input [] (web_context\<lparr>mc_Network := ''tcp''\<rparr>)) = Returns (None, selected, s) \<and>
      chosen_outbound named_router selected sample_outbound \<and> ''tcp'' \<in> set (rt_Network named_router sample_outbound)"
    using route_outbound_ok [THEN conjunct1, THEN mp] by blast
  have "mc_Network flow_context = ''udp''" by (simp add: flow_context_def)
  then show ?thesis
    using flow named route_outbound_ok [of "sample_router []" "[]" web_context sample_outbound "Raw []" "web_context\<lparr>mc_Network := ''tcp''\<rparr>"
        "[]" web_context sample_outbound "Raw_packets []" "mc_FakeIP web_context" "web_context\<lparr>mc_Network := ''udp''\<rparr>"
        "\<lambda>_ _. ErrDrop" flow_context "[]" res] sample_route by auto
qed

subsection \<open>What is read while sniffing\<close>

fun event_bytes :: "read_event \<Rightarrow> byte list" where
  "event_bytes (Read_returns bs _) = bs"
| "event_bytes (Deadline_fails _) = []"

definition stream_bytes :: "stream \<Rightarrow> byte list" where
  "stream_bytes stream = concat (map event_bytes stream)"

lemma stream_bytes_simps [simp]:
  "stream_bytes [] = []" "stream_bytes (e # es) = event_bytes e @ stream_bytes es"
  by (simp_all add: stream_bytes_def)

lemma PeekStream_loop_bytes:
  "PeekStream_loop sx buffers sniffers first sniffError m buffer conn = Returns (err, m', buffer', conn') \<Longrightarrow>
   buffer' @ stream_bytes conn' = buffer @ stream_bytes conn"
proof (induction conn arbitrary: first sniffError m buffer)
  case (Cons ev conn)
  show ?case
  proof (cases "\<exists>bs. ev = Read_returns bs None")
    case True
    then obtain bs where ev: "ev = Read_returns bs None" by blast
    from Cons.prems ev obtain found e m1 where
      tried: "try_sniffers sx m (buffers @ [buffer @ bs]) sniffers None = Returns (found, e, m1)"
      by auto
    show ?thesis
    proof (cases "found \<or> \<not> (case e of None \<Rightarrow> False | Some e \<Rightarrow> error_Is e ErrNeedMoreData)")
      case True
      then show ?thesis using Cons.prems ev tried by (auto split: if_splits)
    next
      case False
      then have "PeekStream_loop sx buffers sniffers False e m1 (buffer @ bs) conn = Returns (err, m', buffer', conn')"
        using Cons.prems ev tried by simp
      from Cons.IH [OF this] ev show ?thesis by simp
    qed
  next
    case False
    then show ?thesis using Cons.prems by (cases ev; cases "\<exists>bs err. ev = Read_returns bs (Some err)") auto
  qed
qed auto

fun packets_of :: "packet_event list \<Rightarrow> packet_buffer list" where
  "packets_of [] = []"
| "packets_of (Packet_read bs destination # input) = (length input, bs, destination) # packets_of input"
| "packets_of (Packet_fails _ # input) = packets_of input"
| "packets_of (Context_done _ # input) = packets_of input"

lemma sniff_read_packets:
  "sniff_read r action sniffers input buffers m = Returns (outcome, m', input', buffers') \<Longrightarrow>
   \<exists>new. buffers' = buffers @ new \<and> new @ packets_of input' = packets_of input"
proof (induction input arbitrary: buffers m)
  case (Cons ev input)
  show ?case
  proof (cases ev)
    case (Packet_read bs destination)
    with Cons.prems obtain err m1 where sniffed: "sniff_packet (rt_sniff r) action sniffers m bs = Returns (err, m1)"
      by auto
    show ?thesis
    proof (cases "is_need_more err")
      case True
      then have "sniff_read r action sniffers input (buffers @ [(length input, bs, destination)]) m1 = Returns (outcome, m', input', buffers')"
        using Cons.prems Packet_read sniffed by simp
      from Cons.IH [OF this] Packet_read show ?thesis by auto
    next
      case False
      then show ?thesis using Cons.prems Packet_read sniffed by auto
    qed
  qed (use Cons.prems in \<open>auto split: if_split_asm\<close>)
qed simp

text \<open>
  The contract of matching for a relation between the state before and after, indexed by the
  number of sniff actions run: rules and actions other than sniffing change the context only.
\<close>

abbreviation is_sniff :: "rule_action option \<Rightarrow> bool" where
  "is_sniff action \<equiv> (case action of Some (ActSniff _) \<Rightarrow> True | _ \<Rightarrow> False)"

definition sniff_rules :: "('x rule \<times> rule_action option) list \<Rightarrow> nat" where
  "sniff_rules rules = length (filter (\<lambda>p. is_sniff (snd p)) rules)"

locale match_relation =
  fixes r :: "('x, 's) router" and P :: "nat \<Rightarrow> match_state \<Rightarrow> match_state \<Rightarrow> bool"
  assumes metadata_only: "P 0 s (s\<lparr>ms_metadata := m\<rparr>)"
    and composed: "P i s1 s2 \<Longrightarrow> P j s2 s3 \<Longrightarrow> P (i + j) s1 s3"
    and weaker: "P i s1 s2 \<Longrightarrow> i \<le> j \<Longrightarrow> P j s1 s2"
    and sniffed: "actionSniff r action s = Returns (err, s') \<Longrightarrow> P 1 s s'"
begin

lemma same: "P 0 s s"
  using metadata_only [of s "ms_metadata s"] by simp

lemma run_action_related:
  assumes run: "run_action r action s = Returns (err, final, s')"
  shows "P (if is_sniff action then 1 else 0) s s'"
proof -
  let ?s = "case route_options_of action of
      Some options \<Rightarrow> s\<lparr>ms_metadata := apply_route_options (rt_env r) options (ms_metadata s)\<rparr> | None \<Rightarrow> s"
  have opts: "P 0 s ?s" by (simp add: same metadata_only split: option.split)
  show ?thesis
  proof (cases "is_sniff action")
    case True
    then obtain sniff where action: "action = Some (ActSniff sniff)"
      by (simp split: option.split_asm rule_action.split_asm)
    from run have "actionSniff r sniff ?s = Returns (err, s')" by (auto simp: run_action_def action Let_def)
    from composed [OF opts sniffed [OF this]] True show ?thesis by simp
  next
    case False
    obtain m where "s' = ?s\<lparr>ms_metadata := m\<rparr>"
    proof (cases "\<exists>a. action = Some (ActResolve a)")
      case True
      then show ?thesis using run that by (auto simp: run_action_def Let_def split: prod.split_asm)
    next
      case no_resolve: False
      have "s' = ?s"
        using run False no_resolve by (simp add: run_action_def Let_def split: option.split_asm rule_action.split_asm)
      then show ?thesis using that [of "ms_metadata ?s"] by simp
    qed
    then have "P 0 ?s s'" by (simp only: metadata_only)
    from composed [OF opts this] False show ?thesis by simp
  qed
qed

lemma match_rules_related: "match_rules r i rules s = Returns (err, selected, s') \<Longrightarrow> P (sniff_rules rules) s s'"
proof (induction rules arbitrary: i s)
  case Nil
  then show ?case by (simp add: sniff_rules_def same)
next
  case (Cons p rules)
  obtain rule action where p: "p = (rule, action)" by (cases p)
  obtain matched m where m: "rule_Match (rt_env r) (rt_sets r) rule (ResetRuleCache (ms_metadata s)) = (matched, m)"
    by fastforce
  let ?n = "if is_sniff action then 1 else 0 :: nat"
  have count: "sniff_rules (p # rules) = ?n + sniff_rules rules" by (simp add: sniff_rules_def p)
  show ?case
  proof (cases matched)
    case False
    then have "match_rules r (i + 1) rules (s\<lparr>ms_metadata := m\<rparr>) = Returns (err, selected, s')"
      using Cons.prems by (simp add: p m)
    from weaker [OF composed [OF metadata_only Cons.IH [OF this]]] show ?thesis by (simp add: count)
  next
    case True
    with Cons.prems obtain e final s2 where run: "run_action r action (s\<lparr>ms_metadata := m\<rparr>) = Returns (e, final, s2)"
      by (auto simp: p m)
    have s2: "P ?n s s2" using composed [OF metadata_only run_action_related [OF run]] by simp
    show ?thesis
    proof (cases "s' = s2")
      case True
      with weaker [OF s2] show ?thesis by (simp only: count le_add1)
    next
      case False
      then have "match_rules r (i + 1) rules s2 = Returns (err, selected, s')"
        using Cons.prems True run by (simp add: p m split: option.split_asm if_split_asm)
      from composed [OF s2 Cons.IH [OF this]] show ?thesis by (simp only: count)
    qed
  qed
qed

lemma matchRule_related:
  assumes "matchRule r s = Returns (None, selected, s')"
  shows "P (sniff_rules (rt_rules r)) s s'"
proof -
  from assms obtain m where "match_rules r 0 (rt_rules r) (s\<lparr>ms_metadata := m\<rparr>) = Returns (None, selected, s')"
    by (auto simp: matchRule_def split: option.split_asm)
  from composed [OF metadata_only match_rules_related [OF this]] show ?thesis by simp
qed

end

text \<open>Streams: nothing read is lost, and every sniff adds at most one buffer.\<close>

definition stream_kept :: "nat \<Rightarrow> match_state \<Rightarrow> match_state \<Rightarrow> bool" where
  "stream_kept n s s' \<longleftrightarrow> (\<forall>stream. ms_conn s = Some stream \<longrightarrow>
     (\<exists>stream'. ms_conn s' = Some stream' \<and> length (ms_buffers s') \<le> length (ms_buffers s) + n \<and>
        concat (ms_buffers s') @ stream_bytes stream' = concat (ms_buffers s) @ stream_bytes stream))"

lemma action_sniff_stream_kept:
  assumes "action_sniff_stream r action stream s = Returns s'" and conn: "ms_conn s = Some stream"
  shows "stream_kept 1 s s'"
proof (cases "s' = s")
  case True
  then show ?thesis by (simp add: stream_kept_def)
next
  case False
  let ?sniffers = "if sn_StreamSniffers action \<noteq> [] then sn_StreamSniffers action else default_stream_sniffers"
  from False assms(1) obtain err m1 buffer stream' where
    peek: "PeekStream (rt_sniff r) (ms_metadata s) stream (ms_buffers s) ?sniffers = Returns (err, m1, buffer, stream')"
    and s': "s' = s\<lparr>ms_metadata := override_sniffed (rt_env r) action err (note_sniff action err m1),
       ms_conn := Some stream', ms_buffers := ms_buffers s @ (if buffer \<noteq> [] then [buffer] else [])\<rparr>"
    unfolding action_sniff_stream_def Let_def
    by (cases "PeekStream (rt_sniff r) (ms_metadata s) stream (ms_buffers s) ?sniffers")
       (simp_all split: if_split_asm prod.split_asm)
  from PeekStream_loop_bytes [OF peek [unfolded PeekStream_def]]
  have "buffer @ stream_bytes stream' = stream_bytes stream" by simp
  then show ?thesis using conn by (auto simp: stream_kept_def s')
qed

lemma actionSniff_stream_kept:
  assumes "actionSniff r action s = Returns (err, s')"
  shows "stream_kept 1 s s'"
proof (cases "ms_conn s")
  case None
  then show ?thesis by (simp add: stream_kept_def)
next
  case (Some stream)
  have "s' = s \<or> action_sniff_stream r action stream s = Returns s'"
    using assms Some by (auto simp: actionSniff_def split: if_split_asm)
  then show ?thesis
  proof
    assume "s' = s"
    then show ?thesis by (simp add: stream_kept_def)
  next
    assume "action_sniff_stream r action stream s = Returns s'"
    then show ?thesis using Some by (rule action_sniff_stream_kept)
  qed
qed

lemma stream_kept_trans: "stream_kept i s1 s2 \<Longrightarrow> stream_kept j s2 s3 \<Longrightarrow> stream_kept (i + j) s1 s3"
  unfolding stream_kept_def
proof (intro allI impI)
  fix stream
  assume one: "\<forall>stream. ms_conn s1 = Some stream \<longrightarrow> (\<exists>stream'. ms_conn s2 = Some stream' \<and>
      length (ms_buffers s2) \<le> length (ms_buffers s1) + i \<and>
      concat (ms_buffers s2) @ stream_bytes stream' = concat (ms_buffers s1) @ stream_bytes stream)"
    and two: "\<forall>stream. ms_conn s2 = Some stream \<longrightarrow> (\<exists>stream'. ms_conn s3 = Some stream' \<and>
      length (ms_buffers s3) \<le> length (ms_buffers s2) + j \<and>
      concat (ms_buffers s3) @ stream_bytes stream' = concat (ms_buffers s2) @ stream_bytes stream)"
    and "ms_conn s1 = Some stream"
  with one obtain st2 where st2: "ms_conn s2 = Some st2" "length (ms_buffers s2) \<le> length (ms_buffers s1) + i"
    "concat (ms_buffers s2) @ stream_bytes st2 = concat (ms_buffers s1) @ stream_bytes stream" by blast
  with two obtain st3 where "ms_conn s3 = Some st3" "length (ms_buffers s3) \<le> length (ms_buffers s2) + j"
    "concat (ms_buffers s3) @ stream_bytes st3 = concat (ms_buffers s2) @ stream_bytes st2" by blast
  with st2 show "\<exists>stream'. ms_conn s3 = Some stream' \<and> length (ms_buffers s3) \<le> length (ms_buffers s1) + (i + j) \<and>
      concat (ms_buffers s3) @ stream_bytes stream' = concat (ms_buffers s1) @ stream_bytes stream"
    by (intro exI [of _ st3]) simp
qed

interpretation streams: match_relation r stream_kept for r :: "('x, 's) router"
proof
  show "stream_kept 1 s s'" if "actionSniff r action s = Returns (err, s')" for action s err s'
    using that by (rule actionSniff_stream_kept)
  show "stream_kept 0 s (s\<lparr>ms_metadata := m\<rparr>)" for s m by (simp add: stream_kept_def)
  show "stream_kept j s1 s2" if "stream_kept i s1 s2" "i \<le> j" for i j s1 s2
    using that by (force simp: stream_kept_def)
qed (rule stream_kept_trans)

lemma cache_conn_reads:
  assumes "\<And>s. reads (Raw s) = stream_bytes s" and "\<And>b c. reads (Cached b c) = b @ reads c"
  shows "reads (cache_conn buffers stream) = concat (rev buffers) @ stream_bytes stream"
  by (induction buffers rule: rev_induct) (simp_all add: cache_conn_def assms)

lemma concat_rev_short: "length bs \<le> 1 \<Longrightarrow> concat (rev bs) = concat bs"
  by (cases bs) auto

lemma mset_concat_rev: "mset (concat (rev bs)) = mset (concat bs)"
  by (induction bs) (simp_all add: ac_simps)

text \<open>
  C38: Sniffing loses nothing of a stream. If a cached connection delivers its buffer before
  the connection it wraps, the connection handed to an outbound delivers the bytes the client
  sent, all of them and each as often as it was sent. With at most one sniff rule they come in
  their order; several buffers are wrapped so that the one read last is delivered first.
\<close>

theorem route_stream_kept:
  assumes "routeConnection r stream m = Returns (Handed ob conn m')"
    and raw: "\<And>s. reads (Raw s) = stream_bytes s" and cached: "\<And>b c. reads (Cached b c) = b @ reads c"
  shows "mset (reads conn) = mset (stream_bytes stream) \<and>
    (sniff_rules (rt_rules r) \<le> 1 \<longrightarrow> reads conn = stream_bytes stream) \<and>
    (\<exists>buffers rest. concat buffers @ rest = stream_bytes stream \<and> reads conn = concat (rev buffers) @ rest)"
proof -
  from assms(1) obtain sel s where run: "matchRule r (stream_input stream (m\<lparr>mc_Network := ''tcp''\<rparr>)) = Returns (None, sel, s)"
    and conn: "conn = cache_conn (ms_buffers s) (the (ms_conn s))" by (rule routeConnection_Handed)
  from streams.matchRule_related [OF run] obtain rest where rest: "ms_conn s = Some rest"
    "length (ms_buffers s) \<le> sniff_rules (rt_rules r)" "concat (ms_buffers s) @ stream_bytes rest = stream_bytes stream"
    by (auto simp: stream_kept_def stream_input_def)
  have reads: "reads conn = concat (rev (ms_buffers s)) @ stream_bytes rest"
    by (simp add: conn rest(1) cache_conn_reads [OF raw cached])
  have "mset (reads conn) = mset (stream_bytes stream)" by (simp add: reads mset_concat_rev flip: rest(3))
  moreover have "reads conn = stream_bytes stream" if "sniff_rules (rt_rules r) \<le> 1"
    using that rest(2,3) by (simp add: reads concat_rev_short)
  ultimately show ?thesis using rest(3) reads by blast
qed

fun conn_reads :: "conn \<Rightarrow> byte list" where
  "conn_reads (Raw s) = stream_bytes s"
| "conn_reads (Cached b c) = b @ conn_reads c"

definition ssh_sniff :: RuleActionSniff where
  "ssh_sniff = \<lparr>sn_SnifferNames = [''ssh''], sn_StreamSniffers = [SSH], sn_PacketSniffers = [], sn_Timeout = 0,
     sn_OverrideDestination = False\<rparr>"

text \<open>A client that sends its banner in two parts, with the deadline of a sniff in between.\<close>

definition slow_client :: stream where
  "slow_client = [Read_returns (bytes_of ''S'') None, Read_returns [] (Some ErrTimeout),
     Read_returns (bytes_of ''SH-2.0-x'') None]"

lemma match_any_sniff:
  "match_rules r i ((any_rule, Some (ActSniff a)) # rules) s =
     exec_bind (actionSniff r a (s\<lparr>ms_metadata := ResetRuleCache (ms_metadata s)\<rparr>)) (\<lambda>(err, s).
       case err of Some err \<Rightarrow> Returns (Some err, None, s) | None \<Rightarrow> match_rules r (i + 1) rules s)"
  by (cases "actionSniff r a (s\<lparr>ms_metadata := ResetRuleCache (ms_metadata s)\<rparr>)")
     (simp_all add: any_rule_matches run_action_def route_options_of_def split_beta del: rule_Match.simps)

lemma ResetRuleCache_sel [simp]:
  "mc_Destination (ResetRuleCache m) = mc_Destination m" "mc_Protocol (ResetRuleCache m) = mc_Protocol m"
  "mc_SniffError (ResetRuleCache m) = mc_SniffError m" "mc_SnifferNames (ResetRuleCache m) = mc_SnifferNames m"
  "mc_SniffContext (ResetRuleCache m) = mc_SniffContext m"
  by (simp_all add: ResetRuleCache_def ResetRuleMatchCache_def)

abbreviation fresh :: "inbound_context \<Rightarrow> bool" where
  "fresh m \<equiv> sa_Port (mc_Destination m) = 80 \<and> mc_Protocol m = []"

lemma ssh_part: "SSH_sniff m [bytes_of ''S''] = need_more m EOF"
proof -
  have "string_of (take 8 (concat [bytes_of ''S''])) = ''S''" by code_simp
  then show ?thesis by (simp only: SSH_sniff_def Let_def) simp
qed

lemma ssh_banner:
  "SSH_sniff m [bytes_of ''S'', bytes_of ''SH-2.0-x''] = Returns (None, m\<lparr>mc_Protocol := ''ssh'', mc_Client := ''x''\<rparr>)"
proof -
  have "string_of (take 8 (concat [bytes_of ''S'', bytes_of ''SH-2.0-x''])) = ''SSH-2.0-''"
    "length (ReadLine (concat [bytes_of ''S'', bytes_of ''SH-2.0-x''])) = 9"
    "drop 8 (string_of (ReadLine (concat [bytes_of ''S'', bytes_of ''SH-2.0-x'']))) = ''x''" by code_simp+
  then show ?thesis by (simp only: SSH_sniff_def Let_def) simp
qed

lemma bytes_of_Cons_nonempty [simp]: "bytes_of (c # s) \<noteq> []"
  by (simp add: bytes_of_def)

lemmas sniff_simps = actionSniff_def Skip_def action_sniff_stream_def sniff_hopeless_def PeekStream_def
  note_sniff_def override_sniffed_def is_need_more_def Let_def

lemma ssh_first:
  assumes "fresh m" and "mc_SniffError m = None"
  shows "actionSniff (sample_router rules) ssh_sniff (stream_input slow_client m) =
     Returns (None, (stream_input [Read_returns (bytes_of ''SH-2.0-x'') None] (m\<lparr>mc_SnifferNames := [''ssh''],
       mc_SniffError := Some (Cause1 ErrNeedMoreData EOF)\<rparr>))\<lparr>ms_buffers := [bytes_of ''S'']\<rparr>)"
  using assms
  by (simp add: sniff_simps ssh_sniff_def slow_client_def stream_input_def ssh_part Cause1_def del: exec_bind_eq_Returns)

lemma ssh_second:
  assumes "fresh m" and "mc_SniffError m = Some (Cause1 ErrNeedMoreData EOF)"
  shows "actionSniff (sample_router rules) ssh_sniff
      ((stream_input [Read_returns (bytes_of ''SH-2.0-x'') None] m)\<lparr>ms_buffers := [bytes_of ''S'']\<rparr>) =
     Returns (None, (stream_input [] (m\<lparr>mc_Protocol := ''ssh'', mc_Client := ''x'', mc_SnifferNames := [''ssh''],
       mc_SniffError := None\<rparr>))\<lparr>ms_buffers := [bytes_of ''S'', bytes_of ''SH-2.0-x'']\<rparr>)"
  using assms
  by (simp add: sniff_simps ssh_sniff_def stream_input_def ssh_banner Cause1_def del: exec_bind_eq_Returns)

lemma stream_input_metadata:
  "ms_metadata (stream_input stream m) = m" "ms_conn (stream_input stream m) = Some stream"
  "(stream_input stream m)\<lparr>ms_metadata := m'\<rparr> = stream_input stream m'"
  "(stream_input stream m)\<lparr>ms_buffers := b, ms_metadata := m'\<rparr> = (stream_input stream m')\<lparr>ms_buffers := b\<rparr>"
  by (simp_all add: stream_input_def)

lemma slow_client_route:
  "\<exists>m'. routeConnection (sample_router (replicate 2 (any_rule, Some (ActSniff ssh_sniff)))) slow_client web_context
     = Returns (Handed sample_outbound (Cached (bytes_of ''SH-2.0-x'') (Cached (bytes_of ''S'') (Raw []))) m')"
  by (simp add: routeConnection_def magic_error_def matchRule_def stream_input_metadata sample_prepare numeral_2_eq_2 match_any_sniff
      ssh_first ssh_second selected_outbound_def default_outbound_def cache_conn_def Let_def
      del: match_rules.simps(2) exec_bind_eq_Returns)

theorem route_stream_kept_witness:
  "\<exists>conn m'. routeConnection (sample_router (replicate 2 (any_rule, Some (ActSniff ssh_sniff)))) slow_client web_context
       = Returns (Handed sample_outbound conn m') \<and>
     mset (conn_reads conn) = mset (bytes_of ''SSH-2.0-x'') \<and> conn_reads conn = bytes_of ''SH-2.0-xS''"
proof -
  obtain m' where route: "routeConnection (sample_router (replicate 2 (any_rule, Some (ActSniff ssh_sniff)))) slow_client web_context
     = Returns (Handed sample_outbound (Cached (bytes_of ''SH-2.0-x'') (Cached (bytes_of ''S'') (Raw []))) m')"
    using slow_client_route by blast
  have "stream_bytes slow_client = bytes_of ''SSH-2.0-x''" by code_simp
  with route_stream_kept [OF route conn_reads.simps] route show ?thesis
    by (intro exI [of _ "Cached (bytes_of ''SH-2.0-x'') (Cached (bytes_of ''S'') (Raw []))"] exI [of _ m'])
       (simp add: bytes_of_def)
qed

text \<open>
  Packets: nothing read is lost, but a sniff that asks for more data appends the buffers from
  before it again.
\<close>

definition packets_kept :: "nat \<Rightarrow> match_state \<Rightarrow> match_state \<Rightarrow> bool" where
  "packets_kept n s s' \<longleftrightarrow> (\<forall>input. ms_conn s = None \<and> ms_packet_conn s = Some input \<longrightarrow> ms_conn s' = None \<and>
     (\<exists>new rest. ms_packet_conn s' = Some rest \<and> packets_of input = new @ packets_of rest \<and>
        set (ms_packet_buffers s') = set (ms_packet_buffers s) \<union> set new \<and>
        (n = 0 \<longrightarrow> ms_packet_buffers s' = ms_packet_buffers s \<and> new = []) \<and>
        (n \<le> 1 \<and> ms_packet_buffers s = [] \<longrightarrow> ms_packet_buffers s' = new)))"

lemma packets_keptI:
  assumes "\<And>input. ms_conn s = None \<Longrightarrow> ms_packet_conn s = Some input \<Longrightarrow> ms_conn s' = None \<and>
     (\<exists>new rest. ms_packet_conn s' = Some rest \<and> packets_of input = new @ packets_of rest \<and>
        set (ms_packet_buffers s') = set (ms_packet_buffers s) \<union> set new \<and>
        (n = 0 \<longrightarrow> ms_packet_buffers s' = ms_packet_buffers s \<and> new = []) \<and>
        (n \<le> 1 \<and> ms_packet_buffers s = [] \<longrightarrow> ms_packet_buffers s' = new))"
  shows "packets_kept n s s'"
  unfolding packets_kept_def by (intro allI impI, elim conjE) (rule assms)

lemma packets_keptD:
  assumes "packets_kept n s s'" and "ms_conn s = None" and "ms_packet_conn s = Some input"
  obtains new rest where "ms_conn s' = None" and "ms_packet_conn s' = Some rest" and "packets_of input = new @ packets_of rest"
    and "set (ms_packet_buffers s') = set (ms_packet_buffers s) \<union> set new"
    and "n = 0 \<Longrightarrow> ms_packet_buffers s' = ms_packet_buffers s \<and> new = []"
    and "n \<le> 1 \<Longrightarrow> ms_packet_buffers s = [] \<Longrightarrow> ms_packet_buffers s' = new"
  using assms unfolding packets_kept_def by blast

lemma packets_kept_metadata: "packets_kept n s (s\<lparr>ms_metadata := m\<rparr>)"
  by (rule packets_keptI) simp

lemma packets_kept_appended:
  assumes "ms_packet_conn s = Some input" and "new @ packets_of rest = packets_of input"
  shows "packets_kept 1 s (s\<lparr>ms_packet_conn := Some rest,
     ms_packet_buffers := ms_packet_buffers s @ ms_packet_buffers s @ new, ms_metadata := m\<rparr>)"
  using assms by (intro packets_keptI conjI exI [of _ new] exI [of _ rest]) auto

lemma action_sniff_packets_cases:
  assumes run: "action_sniff_packets r action input s = Returns (err, s')"
  obtains (same) m where "s' = s\<lparr>ms_metadata := m\<rparr>"
  | (read) sniffers m1 outcome m2 rest buffers m where
      "sniff_read r action sniffers input (ms_packet_buffers s) m1 = Returns (outcome, m2, rest, buffers)"
      "s' = s\<lparr>ms_packet_conn := Some rest, ms_packet_buffers := ms_packet_buffers s @ buffers, ms_metadata := m\<rparr>"
proof (cases "sn_PacketSniffers action = [] \<and> sn_StreamSniffers action \<noteq> [] \<or> sniff_hopeless action (ms_metadata s)")
  case True
  then have "s' = s" using run by (auto simp: action_sniff_packets_def Let_def split: if_split_asm)
  then show ?thesis using same [of "ms_metadata s"] by simp
next
  case False
  then have off: "(sn_PacketSniffers action = [] \<and> sn_StreamSniffers action \<noteq> []) = False"
    "sniff_hopeless action (ms_metadata s) = False" by auto
  define sniffers where "sniffers = (if sn_PacketSniffers action \<noteq> [] then sn_PacketSniffers action else defaultPacketSniffers)"
  note run = run [unfolded action_sniff_packets_def Let_def off if_False, folded sniffers_def]
  then obtain jump m1 where
    buffered: "sniff_buffered (rt_sniff r) action sniffers (ms_packet_buffers s) (ms_metadata s) = Returns (jump, m1)"
    by auto
  show ?thesis
  proof (cases jump)
    case (Some e)
    then show ?thesis using run buffered by (intro same) (simp add: eq_commute)
  next
    case None
    with run buffered obtain outcome m2 rest buffers where
      reads: "sniff_read r action sniffers input (ms_packet_buffers s) m1 = Returns (outcome, m2, rest, buffers)"
      by auto
    obtain m where "s' = s\<lparr>ms_packet_conn := Some rest, ms_packet_buffers := ms_packet_buffers s @ buffers, ms_metadata := m\<rparr>"
      using run buffered None reads by (cases outcome) auto
    with reads show ?thesis by (rule read)
  qed
qed

lemma action_sniff_packets_kept:
  assumes run: "action_sniff_packets r action input s = Returns (err, s')"
    and s: "ms_conn s = None" "ms_packet_conn s = Some input"
  shows "packets_kept 1 s s'"
  using run
proof (cases rule: action_sniff_packets_cases)
  case same
  then show ?thesis by (simp only: packets_kept_metadata)
next
  case (read sniffers m1 outcome m2 rest buffers m)
  from sniff_read_packets [OF read(1)] obtain new where "buffers = ms_packet_buffers s @ new"
    "new @ packets_of rest = packets_of input" by blast
  with packets_kept_appended [OF s(2)] read(2) show ?thesis by simp
qed

lemma actionSniff_packets_kept:
  assumes "actionSniff r action s = Returns (err, s')"
  shows "packets_kept 1 s s'"
proof (cases "ms_conn s = None \<and> ms_packet_conn s \<noteq> None")
  case False
  then show ?thesis by (auto simp: packets_kept_def)
next
  case True
  then obtain input where s: "ms_conn s = None" "ms_packet_conn s = Some input" by auto
  then have "s' = s \<or> action_sniff_packets r action input s = Returns (err, s')"
    using assms by (auto simp: actionSniff_def split: if_split_asm)
  then show ?thesis
  proof
    assume "s' = s"
    then show ?thesis using packets_kept_metadata [of 1 s "ms_metadata s"] by simp
  next
    assume "action_sniff_packets r action input s = Returns (err, s')"
    then show ?thesis using s by (rule action_sniff_packets_kept)
  qed
qed

lemma packets_kept_trans:
  assumes "packets_kept i s1 s2" and "packets_kept j s2 s3"
  shows "packets_kept (i + j) s1 s3"
proof (rule packets_keptI)
  fix input
  assume "ms_conn s1 = None" and "ms_packet_conn s1 = Some input"
  with assms(1) obtain new2 rest2 where two: "ms_conn s2 = None" "ms_packet_conn s2 = Some rest2"
    "packets_of input = new2 @ packets_of rest2" "set (ms_packet_buffers s2) = set (ms_packet_buffers s1) \<union> set new2"
    "i = 0 \<Longrightarrow> ms_packet_buffers s2 = ms_packet_buffers s1 \<and> new2 = []"
    "i \<le> 1 \<Longrightarrow> ms_packet_buffers s1 = [] \<Longrightarrow> ms_packet_buffers s2 = new2" by (rule packets_keptD) blast
  from assms(2) two(1,2) obtain new3 rest3 where three: "ms_conn s3 = None" "ms_packet_conn s3 = Some rest3"
    "packets_of rest2 = new3 @ packets_of rest3" "set (ms_packet_buffers s3) = set (ms_packet_buffers s2) \<union> set new3"
    "j = 0 \<Longrightarrow> ms_packet_buffers s3 = ms_packet_buffers s2 \<and> new3 = []"
    "j \<le> 1 \<Longrightarrow> ms_packet_buffers s2 = [] \<Longrightarrow> ms_packet_buffers s3 = new3" by (rule packets_keptD) blast
  have "ms_packet_buffers s3 = new2 @ new3" if "i + j \<le> 1" "ms_packet_buffers s1 = []"
    using that two(5,6) three(5,6) by (cases "i = 0") auto
  with two three show "ms_conn s3 = None \<and>
     (\<exists>new rest. ms_packet_conn s3 = Some rest \<and> packets_of input = new @ packets_of rest \<and>
        set (ms_packet_buffers s3) = set (ms_packet_buffers s1) \<union> set new \<and>
        (i + j = 0 \<longrightarrow> ms_packet_buffers s3 = ms_packet_buffers s1 \<and> new = []) \<and>
        (i + j \<le> 1 \<and> ms_packet_buffers s1 = [] \<longrightarrow> ms_packet_buffers s3 = new))"
    by (intro conjI exI [of _ "new2 @ new3"] exI [of _ rest3]) auto
qed

interpretation packets: match_relation r packets_kept for r :: "('x, 's) router"
proof
  show "packets_kept 1 s s'" if "actionSniff r action s = Returns (err, s')" for action s err s'
    using that by (rule actionSniff_packets_kept)
  show "packets_kept j s1 s2" if "packets_kept i s1 s2" "i \<le> j" for i j s1 s2
  proof (rule packets_keptI)
    fix input
    assume "ms_conn s1 = None" and "ms_packet_conn s1 = Some input"
    with that(1) obtain new rest where "ms_conn s2 = None" "ms_packet_conn s2 = Some rest"
      "packets_of input = new @ packets_of rest" "set (ms_packet_buffers s2) = set (ms_packet_buffers s1) \<union> set new"
      "i = 0 \<Longrightarrow> ms_packet_buffers s2 = ms_packet_buffers s1 \<and> new = []"
      "i \<le> 1 \<Longrightarrow> ms_packet_buffers s1 = [] \<Longrightarrow> ms_packet_buffers s2 = new" by (rule packets_keptD) blast
    with that(2) show "ms_conn s2 = None \<and>
      (\<exists>new rest. ms_packet_conn s2 = Some rest \<and> packets_of input = new @ packets_of rest \<and>
        set (ms_packet_buffers s2) = set (ms_packet_buffers s1) \<union> set new \<and>
        (j = 0 \<longrightarrow> ms_packet_buffers s2 = ms_packet_buffers s1 \<and> new = []) \<and>
        (j \<le> 1 \<and> ms_packet_buffers s1 = [] \<longrightarrow> ms_packet_buffers s2 = new))"
      by (intro conjI exI [of _ new] exI [of _ rest]) auto
  qed
qed (rule packets_kept_metadata, rule packets_kept_trans)

text \<open>Every packet read has a buffer of its own.\<close>

lemma packets_of_pointers: "x \<in> set (packets_of input) \<Longrightarrow> fst x < length input"
  by (induction input rule: packets_of.induct) auto

lemma distinct_pointers: "distinct (map fst (packets_of input))"
proof (induction input rule: packets_of.induct)
  case (2 bs destination input)
  then show ?case using packets_of_pointers [of _ input] by force
qed simp_all

text \<open>The buffers wrapped for the first time, given those wrapped before.\<close>

fun firsts :: "nat set \<Rightarrow> packet_buffer list \<Rightarrow> packet_buffer list" where
  "firsts seen [] = []"
| "firsts seen (x # xs) = (if fst x \<in> seen then firsts seen xs else x # firsts (insert (fst x) seen) xs)"

lemma set_firsts: "inj_on fst (set xs) \<Longrightarrow> set (firsts seen xs) = {x \<in> set xs. fst x \<notin> seen}"
proof (induction xs arbitrary: seen)
  case (Cons x xs)
  then have IH: "set (firsts seen xs) = {x \<in> set xs. fst x \<notin> seen}" for seen by (simp add: inj_on_def)
  have "y = x" if "y \<in> set xs" "fst y = fst x" for y using Cons.prems that by (simp add: inj_on_def)
  then show ?case by (auto simp: IH)
qed simp

lemma distinct_firsts: "inj_on fst (set xs) \<Longrightarrow> distinct (firsts seen xs)"
proof (induction xs arbitrary: seen)
  case (Cons x xs)
  then have "inj_on fst (set xs)" by (simp add: inj_on_def)
  with Cons.IH set_firsts show ?case by auto
qed simp

lemma mset_firsts:
  assumes "inj_on fst (set xs)"
  shows "mset (firsts {} xs) = mset_set (set xs)"
  using mset_set_set [OF distinct_firsts [OF assms], of "{}"] set_firsts [OF assms, of "{}"] by simp

lemma packet_heap_in:
  assumes "inj_on fst (set bufs)" and "x \<in> set bufs"
  shows "packet_heap bufs (fst x) = (Some (fst (snd x)), snd (snd x))"
proof -
  have "map_of bufs (fst x) \<noteq> None" using assms(2) by (auto simp: map_of_eq_None_iff)
  then obtain y where y: "map_of bufs (fst x) = Some y" by blast
  then have "(fst x, y) \<in> set bufs" by (rule map_of_SomeD)
  with assms have "(fst x, y) = x" by (auto simp: inj_on_def)
  then show ?thesis using y by (cases x) (auto simp: packet_heap_def)
qed

text \<open>No buffer is wrapped again with a packet in it.\<close>

definition no_echo :: "(packet_struct \<Rightarrow> packet_struct) \<Rightarrow> (nat \<Rightarrow> packet_struct) \<Rightarrow> nat set \<Rightarrow> packet_buffer list \<Rightarrow> bool" where
  "no_echo put heap seen bufs \<longleftrightarrow> fst ` set bufs \<inter> seen = {} \<and> distinct (map fst bufs) \<or>
     (\<forall>p \<in> seen. fst (heap p) = None) \<and> (\<forall>p. fst (put p) = None)"

lemma no_echo_Cons:
  assumes "no_echo put heap seen (x # bufs)"
  shows "no_echo put (heap(fst x := put (heap (fst x)))) (insert (fst x) seen) bufs"
  using assms unfolding no_echo_def
proof (elim disjE conjE, goal_cases)
  case 1 then show ?case by (intro disjI1) auto
next
  case 2 then show ?case by (intro disjI2) (simp del: split_paired_All)
qed

lemma no_echo_seen: "no_echo put heap seen (x # bufs) \<Longrightarrow> fst x \<in> seen \<Longrightarrow> fst (heap (fst x)) = None"
  by (auto simp: no_echo_def)

lemma cache_packet_loop_delivers:
  assumes some: "\<And>b d c. delivers (Cached_packet (Some b, d) c) = (b, d) # delivers c"
    and none: "\<And>d c. delivers (Cached_packet (None, d) c) = delivers c"
  shows "\<forall>x \<in> set bufs. fst x \<notin> seen \<longrightarrow> heap (fst x) = (Some (fst (snd x)), snd (snd x)) \<Longrightarrow>
    \<exists>again. mset (delivers (cache_packet_loop put heap bufs conn)) = mset (map snd (firsts seen bufs)) + again + mset (delivers conn) \<and>
      (no_echo put heap seen bufs \<longrightarrow> again = {#})"
proof (induction bufs arbitrary: seen heap conn)
  case (Cons x bufs)
  let ?heap = "heap(fst x := put (heap (fst x)))" and ?seen = "insert (fst x) seen"
  let ?conn = "Cached_packet (heap (fst x)) conn"
  have "\<forall>y \<in> set bufs. fst y \<notin> ?seen \<longrightarrow> ?heap (fst y) = (Some (fst (snd y)), snd (snd y))"
    using Cons.prems by simp
  from Cons.IH [OF this, of ?conn] obtain again where again:
    "mset (delivers (cache_packet_loop put ?heap bufs ?conn)) = mset (map snd (firsts ?seen bufs)) + again + mset (delivers ?conn)"
    "no_echo put heap seen (x # bufs) \<Longrightarrow> again = {#}" using no_echo_Cons by blast
  show ?case
  proof (cases "fst x \<in> seen")
    case False
    then have "heap (fst x) = (Some (fst (snd x)), snd (snd x))" using Cons.prems by simp
    then have "delivers ?conn = snd x # delivers conn" by (simp add: some)
    with again False show ?thesis by (intro exI [of _ again]) simp
  next
    case True
    then have seen: "?seen = seen" by auto
    obtain more where "delivers ?conn = more @ delivers conn" "fst (heap (fst x)) = None \<Longrightarrow> more = []"
      by (cases "heap (fst x)"; cases "fst (heap (fst x))") (auto simp: some none)
    with again True no_echo_seen show ?thesis
      unfolding seen by (intro exI [of _ "again + mset more"]) simp
  qed
qed simp

text \<open>
  C39: Sniffing loses no packet of a packet connection. If a cached connection delivers its
  packet before those of the connection it wraps, the connection handed to an outbound delivers
  every packet the client sent. It delivers each of them once if there is at most one sniff
  rule, or if \<^verbatim>\<open>PutPacketBuffer\<close> clears the buffer it takes back: a further sniff that
  needs more data lists the buffers from before it twice.
\<close>

theorem route_packets_kept:
  assumes "routePacketConnection r input m = Returns (Handed_packets ob conn fake m')"
    and raw: "\<And>i. delivers (Raw_packets i) = map snd (packets_of i)"
    and some: "\<And>b d c. delivers (Cached_packet (Some b, d) c) = (b, d) # delivers c"
    and none: "\<And>d c. delivers (Cached_packet (None, d) c) = delivers c"
  shows "mset (map snd (packets_of input)) \<subseteq># mset (delivers conn) \<and>
    (sniff_rules (rt_rules r) \<le> 1 \<or> (\<forall>p. fst (rt_PutPacketBuffer r p) = None) \<longrightarrow>
      mset (delivers conn) = mset (map snd (packets_of input)))"
proof -
  let ?s = "packet_input input (m\<lparr>mc_Network := ''udp''\<rparr>)"
  from assms(1) obtain sel s where run: "matchRule r ?s = Returns (None, sel, s)"
    and conn: "conn = cache_packets (rt_PutPacketBuffer r) (ms_packet_buffers s) (the (ms_packet_conn s))"
    by (rule routePacketConnection_Handed)
  let ?bufs = "ms_packet_buffers s"
  have "ms_conn ?s = None" "ms_packet_conn ?s = Some input" "ms_packet_buffers ?s = []" by (simp_all add: packet_input_def)
  with packets.matchRule_related [OF run] obtain new rest where rest: "ms_packet_conn s = Some rest"
    "packets_of input = new @ packets_of rest" "set ?bufs = set new"
    "sniff_rules (rt_rules r) \<le> 1 \<Longrightarrow> ?bufs = new" by (auto elim: packets_keptD)
  have "distinct (map fst new)" using distinct_pointers [of input] by (simp add: rest(2))
  then have inj: "inj_on fst (set ?bufs)" and new: "distinct new" by (simp_all add: rest(3) distinct_map)
  obtain again where again: "mset (delivers conn) = mset (map snd (firsts {} ?bufs)) + again + mset (map snd (packets_of rest))"
    "distinct (map fst ?bufs) \<or> (\<forall>p. fst (rt_PutPacketBuffer r p) = None) \<Longrightarrow> again = {#}"
    using cache_packet_loop_delivers [of delivers ?bufs "{}" "packet_heap ?bufs" "rt_PutPacketBuffer r" "Raw_packets rest", OF some none]
      packet_heap_in [OF inj] by (auto simp: conn cache_packets_def rest(1) raw no_echo_def)
  have "mset (map snd (firsts {} ?bufs)) = mset (map snd new)"
    using mset_firsts [OF inj] mset_set_set [OF new] by (simp add: rest(3))
  with again(1) have once: "mset (delivers conn) = mset (map snd (packets_of input)) + again" by (simp add: rest(2))
  moreover have "again = {#}" if "sniff_rules (rt_rules r) \<le> 1 \<or> (\<forall>p. fst (rt_PutPacketBuffer r p) = None)"
    using that again(2) rest(4) \<open>distinct (map fst new)\<close> by auto
  ultimately show ?thesis by simp
qed

fun packet_delivers :: "packet_conn \<Rightarrow> (byte list \<times> socksaddr) list" where
  "packet_delivers (Raw_packets i) = map snd (packets_of i)"
| "packet_delivers (Cached_packet (Some b, d) c) = (b, d) # packet_delivers c"
| "packet_delivers (Cached_packet (None, d) c) = packet_delivers c"

definition packet_sniff :: "string \<Rightarrow> packet_sniffer \<Rightarrow> RuleActionSniff" where
  "packet_sniff name sniffer = \<lparr>sn_SnifferNames = [name], sn_StreamSniffers = [], sn_PacketSniffers = [sniffer], sn_Timeout = 0,
     sn_OverrideDestination = False\<rparr>"

text \<open>The first packet of a QUIC connection, with a part of the client hello.\<close>

abbreviation quic_part :: "byte list" where
  "quic_part \<equiv> sample_packet (crypto_frame 0 20 (take 20 sample_message))"

lemma stun_quic_part: "STUNMessage_sniff m quic_part = invalid m"
proof -
  have "length quic_part < 20 \<or> u32_at quic_part 4 \<noteq> 0x2112A442" by code_simp
  then show ?thesis by (auto simp: STUNMessage_sniff_def)
qed

lemma quic_quic_part:
  assumes "mc_SniffContext m = None"
  shows "\<exists>err m'. QUICClientHello_sniff sample_quic m quic_part = Returns (Some (Cause1 ErrNeedMoreData err), m')"
proof -
  have frames: "parse_frames (crypto_frame 0 20 (take 20 sample_message)) (replicate 16 0)
      = Returns (Inr ([frameTypeCrypto], [(0, 20, take 20 sample_message)]))" by code_simp
  have "case hello_input [(0, 20, take 20 sample_message)] of None \<Rightarrow> False
      | Some payload \<Rightarrow> (case Compute payload of Returns (Some err, _) \<Rightarrow> True | _ \<Rightarrow> False)" by code_simp
  then obtain payload err fp where "hello_input [(0, 20, take 20 sample_message)] = Some payload"
    "Compute payload = Returns (Some err, fp)"
    by (auto split: option.split_asm exec.split_asm prod.split_asm)
  then show ?thesis
    using assms by (auto simp: QUICClientHello_sniff_def sample_plaintext frames quic_finish_def Let_def)
qed

lemma sample_sniff_quic [simp]: "sx_quic sample_sniff = sample_quic"
  by (simp add: sample_sniff_def)

lemmas packet_sniff_simps = actionSniff_def Skip_def action_sniff_packets_def sniff_hopeless_def sniff_packet_def
  quicMoreData_def PeekPacket_def note_sniff_def override_sniffed_def is_need_more_def packet_sniff_def packet_input_def

lemma packet_first:
  assumes "fresh m" and "mc_SniffError m = None"
  shows "actionSniff (sample_router rules) (packet_sniff ''stun'' STUNMessage) (packet_input [Packet_read quic_part d] m) =
     Returns (None, (packet_input [] (m\<lparr>mc_SnifferNames := [''stun''], mc_SniffError := Some ErrInvalid\<rparr>))
       \<lparr>ms_packet_buffers := [(0, quic_part, d)]\<rparr>)"
  using assms by (simp add: packet_sniff_simps stun_quic_part Let_def del: exec_bind_eq_Returns)

lemma packet_second:
  assumes "fresh m" and "mc_SnifferNames m = [''stun'']" and "mc_SniffContext m = None"
  shows "\<exists>m'. actionSniff (sample_router rules) (packet_sniff ''quic'' QUICClientHello)
       ((packet_input [] m)\<lparr>ms_packet_buffers := [(0, quic_part, d)]\<rparr>) =
     Returns (None, (packet_input [] m')\<lparr>ms_packet_buffers := [(0, quic_part, d), (0, quic_part, d)]\<rparr>)"
proof -
  obtain err m' where "QUICClientHello_sniff sample_quic m quic_part = Returns (Some (Cause1 ErrNeedMoreData err), m')"
    using quic_quic_part [OF assms(3)] by blast
  then show ?thesis
    using assms by (simp add: packet_sniff_simps Cause1_def Let_def del: exec_bind_eq_Returns)
qed

lemma packet_input_sel:
  "ms_metadata (packet_input input m) = m" "(packet_input input m)\<lparr>ms_metadata := m'\<rparr> = packet_input input m'"
  "ms_packet_conn (packet_input input m) = Some input"
  "(packet_input input m)\<lparr>ms_packet_buffers := b, ms_metadata := m'\<rparr> = (packet_input input m')\<lparr>ms_packet_buffers := b\<rparr>"
  by (simp_all add: packet_input_def)

abbreviation two_sniffs :: "((string list \<times> string list) rule \<times> rule_action option) list" where
  "two_sniffs \<equiv> [(any_rule, Some (ActSniff (packet_sniff ''stun'' STUNMessage))),
     (any_rule, Some (ActSniff (packet_sniff ''quic'' QUICClientHello)))]"

lemma two_sniffs_route:
  "\<exists>fake m'. routePacketConnection (sample_router two_sniffs) [Packet_read quic_part d] web_context
     = Returns (Handed_packets sample_outbound
         (Cached_packet (None, socksaddr_zero) (Cached_packet (Some quic_part, d) (Raw_packets []))) fake m')"
proof -
  let ?m = "ResetRuleCache (ResetRuleCache (web_context\<lparr>mc_Network := ''udp''\<rparr>)
     \<lparr>mc_SnifferNames := [''stun''], mc_SniffError := Some ErrInvalid\<rparr>)"
  obtain m' where "actionSniff (sample_router two_sniffs) (packet_sniff ''quic'' QUICClientHello)
       ((packet_input [] ?m)\<lparr>ms_packet_buffers := [(0, quic_part, d)]\<rparr>) =
     Returns (None, (packet_input [] m')\<lparr>ms_packet_buffers := [(0, quic_part, d), (0, quic_part, d)]\<rparr>)"
    using packet_second [of ?m two_sniffs d] by auto
  then show ?thesis
    by (simp add: routePacketConnection_def matchRule_def packet_input_sel sample_prepare match_any_sniff packet_first
        selected_outbound_def default_outbound_def cache_packets_def packet_heap_def Let_def
        del: match_rules.simps(2) exec_bind_eq_Returns)
qed

theorem route_packets_kept_witness:
  "\<exists>conn fake m'. routePacketConnection (sample_router two_sniffs) [Packet_read quic_part socksaddr_zero] web_context
       = Returns (Handed_packets sample_outbound conn fake m') \<and>
     conn = Cached_packet (None, socksaddr_zero) (Cached_packet (Some quic_part, socksaddr_zero) (Raw_packets [])) \<and>
     mset (packet_delivers conn) = {#(quic_part, socksaddr_zero)#}"
proof -
  obtain fake m' where route: "routePacketConnection (sample_router two_sniffs) [Packet_read quic_part socksaddr_zero] web_context
     = Returns (Handed_packets sample_outbound
         (Cached_packet (None, socksaddr_zero) (Cached_packet (Some quic_part, socksaddr_zero) (Raw_packets []))) fake m')"
    using two_sniffs_route by blast
  have "mset (packet_delivers (Cached_packet (None, socksaddr_zero)
      (Cached_packet (Some quic_part, socksaddr_zero) (Raw_packets [])))) = {#(quic_part, socksaddr_zero)#}"
    using route_packets_kept [OF route packet_delivers.simps] by simp
  then show ?thesis using route by blast
qed

subsection \<open>FakeIP\<close>

text \<open>
  C40: A connection to a FakeIP address is routed as a connection to its domain. When the FakeIP
  ranges are of their families and have room for an address, and the domain is not empty, after the
  store gave an address for a domain, a connection to that address gets the domain as its
  destination, with its port, before any rule is tried; the address is kept as the original
  destination, and the context is marked.
\<close>

theorem fakeip_route:
  assumes reach: "fakeip_reach memory_ops r4 r6 s" and cfg: "good_config r4 r6"
    and create: "Store_Create memory_ops domain v6 s = Some (Inr a, s')" and "domain \<noteq> []"
    and store: "rt_fakeip r = Some (memory_ops, s')" and a: "sa_Addr (mc_Destination m) = a"
  shows "\<exists>m'. prepareMatchMetadata r m = Returns (None, m') \<and>
    mc_Destination m' = \<lparr>sa_Addr = addr_zero, sa_Port = sa_Port (mc_Destination m), sa_Fqdn = domain\<rparr> \<and>
    mc_OriginDestination m' = mc_Destination m \<and> mc_FakeIP m'"
proof -
  note step = memory.store_inv_create [OF cfg memory.store_inv_reach [OF reach cfg] create]
  let ?m = "search_neighbor r (searchProcessInfo r m)"
  have m: "mc_Destination ?m = mc_Destination m"
    by (simp only: search_neighbor_same searchProcessInfo_same)
  have lookup: "Store_Lookup memory_ops a s' = Some (Some domain)" and alloc: "allocatable (range_of r4 r6 v6) a"
    using step(2) by auto
  have "Store_Contains s' a"
    using step(1) alloc by (auto simp: Store_Contains_def store_inv_def allocatable_def range_of_def split: if_split_asm)
  moreover have "addr_IsValid a" using allocatable_family [OF alloc] by simp
  ultimately have "map_destination r ?m = Returns (None, ?m\<lparr>mc_OriginDestination := mc_Destination m,
     mc_Destination := \<lparr>sa_Addr = addr_zero, sa_Port = sa_Port (mc_Destination m), sa_Fqdn = domain\<rparr>, mc_FakeIP := True\<rparr>)"
    using lookup store a m \<open>domain \<noteq> []\<close> by (simp add: map_destination_def Let_def)
  then show ?thesis by (simp add: prepareMatchMetadata_def set_ip_version_def)
qed

theorem fakeip_route_witness:
  "\<exists>m'. prepareMatchMetadata (sample_router []) (web_context\<lparr>mc_Destination := \<lparr>sa_Addr = A4 0xC6120002, sa_Port = 443, sa_Fqdn = []\<rparr>\<rparr>)
     = Returns (None, m') \<and> mc_Destination m' = \<lparr>sa_Addr = addr_zero, sa_Port = 443, sa_Fqdn = ''example.com''\<rparr> \<and> mc_FakeIP m'"
proof -
  let ?m = "web_context\<lparr>mc_Destination := \<lparr>sa_Addr = A4 0xC6120002, sa_Port = 443, sa_Fqdn = []\<rparr>\<rparr>"
  have "rt_fakeip (sample_router []) = Some (memory_ops, small_store1)" "sa_Addr (mc_Destination ?m) = A4 0xC6120002" by simp_all
  from fakeip_route [OF small_reach small_config small_create1 _ this] show ?thesis by auto
qed

end
