(* ===== verification/Spec2Isabelle.thy ===== *)
theory Spec2Isabelle
  imports Rule_Spec Fakeip_Spec Srs_Spec Lifecycle_Spec Sniff_Spec Router_Spec
begin

text \<open>
  A verification library for sidera-core, a proxy platform written in Go.

  \<^bold>\<open>The program.\<close> Inbounds accept connections and describe each of them in an
  \<^verbatim>\<open>InboundContext\<close>. The router runs that context through a list of rules; a rule
  consists of items and of references to rule-sets, and carries an action that selects an
  outbound, rejects, hijacks DNS or refines the context, for example by sniffing the first bytes
  or packets for a protocol and a domain. Rule-sets are loaded from source or
  from the binary SRS format. The FakeIP store hands out reserved addresses for domains so
  that a later connection to such an address can be mapped back. Managers own the inbounds,
  endpoints, outbounds, certificate providers and services and start and close them in stages.

  \<^bold>\<open>Common conventions\<close> (\<^verbatim>\<open>Sidera_Prelude\<close>). A call that returns
  \<^verbatim>\<open>(T, error)\<close> is a value of \<open>error + T\<close>; a panic is a value of its own, never an
  error. Machine integers are words of their width. A slice is a list, a Go map an association
  list with unique keys or a partial function. Code outside the repository (netipx, the domain
  matchers, regular expressions, varbin, zlib, the objects behind the adapter interfaces) is a
  parameter, with what the sources rely on stated as a named hypothesis.

  \<^bold>\<open>Theories and sources.\<close>

    \<^item> \<^verbatim>\<open>Netip\<close>, \<^verbatim>\<open>Netip_Text\<close>: addresses and prefixes of Go's
      \<^verbatim>\<open>net/netip\<close> with parsing and printing.
    \<^item> \<^verbatim>\<open>Metadata\<close>: \<^verbatim>\<open>adapter/inbound.go\<close>, the context of a connection and
      the record of third-party functions rule items call.
    \<^item> \<^verbatim>\<open>Rule_Item\<close>, \<^verbatim>\<open>Rule_Match\<close>, \<^verbatim>\<open>Rule_Action\<close>,
      \<^verbatim>\<open>Rule_Build\<close>, \<^verbatim>\<open>Rule_Set\<close>: \<^verbatim>\<open>route/rule\<close>, the items, the group
      evaluation with rule-set merging, the actions, the construction of rules from options and
      the life of a rule-set with its reference counts.
    \<^item> \<^verbatim>\<open>Fakeip\<close>: \<^verbatim>\<open>dns/transport/fakeip\<close>, the store over an abstract
      storage (locale \<open>fakeip_storage\<close>) and the in-memory storage that interprets it.
    \<^item> \<^verbatim>\<open>Binary_Io\<close>, \<^verbatim>\<open>Srs\<close>, \<^verbatim>\<open>Srs_Codec\<close>: \<^verbatim>\<open>common/srs\<close>, reader
      and writer of the binary rule-set format over the locale \<open>codec\<close>.
    \<^item> \<^verbatim>\<open>Lifecycle\<close>, \<^verbatim>\<open>Managers\<close>, \<^verbatim>\<open>Outbound_Manager\<close>,
      \<^verbatim>\<open>Service_Manager\<close>: \<^verbatim>\<open>adapter/lifecycle*.go\<close> and the five managers under
      \<^verbatim>\<open>adapter/*/manager.go\<close>. The contract of a registry is the locale
      \<open>registry_manager\<close>, interpreted for inbounds, endpoints, certificate providers and
      outbounds. The service manager releases its mutex around calls, so its operations are
      frames run by any number of goroutines under the step relation \<open>system_step\<close>; the theory
      says which stretches of calls are one step.
    \<^item> \<^verbatim>\<open>Service_Inv\<close>, \<^verbatim>\<open>Service_Trace\<close>: the invariants of that relation.
    \<^item> \<^verbatim>\<open>Tls_Hello\<close>: \<^verbatim>\<open>common/ja3\<close>, the ClientHello parser with its panics, an
      encoder as its reference and the JA3 string.
    \<^item> \<^verbatim>\<open>Quic\<close>, \<^verbatim>\<open>Sniff\<close>: \<^verbatim>\<open>common/sniff\<close>, the QUIC sniffer with header,
      frames and reassembly over packets, the other stream and packet sniffers, and the loops
      that run them over what a connection delivers.
    \<^item> \<^verbatim>\<open>Router\<close>: \<^verbatim>\<open>route/route.go\<close> and \<^verbatim>\<open>route/process_cache.go\<close>, from the
      preparation of the context over matching, sniffing and resolving to the outbound a
      connection is handed to, and the matching of flows before a connection exists. It runs on
      the rules, the sniffers, the outbound manager and the FakeIP store of the theories above.
      \<^verbatim>\<open>Prematch\<close> has the lemmas on flows.
      What matching does to the data read while sniffing is the locale \<open>match_relation\<close> of
      \<^verbatim>\<open>Router_Spec\<close>, interpreted for streams and for packets.

  \<^bold>\<open>What is shown.\<close> \<^verbatim>\<open>Rule_Spec\<close>: a rule built from options matches exactly the
  connections the documented grouping describes, with and without rule-sets; references to
  rule-sets are safe while fewer than \<open>2 ^ 31\<close> are held; the answers of reject. \<^verbatim>\<open>Fakeip_Spec\<close>: create and
  lookup are inverse in every reachable state of a store whose ranges have room, and the addresses are dealt round robin.
  \<^verbatim>\<open>Srs_Spec\<close>: what is written is read back and matches the same connections; reading
  always ends; the version gates. \<^verbatim>\<open>Lifecycle_Spec\<close>: outbounds start in dependency
  order, or a real cycle or a missing dependency is named; no service is activated after it was
  closed, under any interleaving of the steps of \<open>system_step\<close>. \<^verbatim>\<open>Sniff_Spec\<close>: a fragmented QUIC client hello is
  found in any order of its pieces; exactly when the parsers end, panic or spin; answers of
  sniffers are stable. \<^verbatim>\<open>Router_Spec\<close>: the first matching rule with a deciding action is
  selected; a connection reaches only the outbound its rule names or the one the manager holds as
  its default, and only if that supports its network; sniffing loses no
  byte and no packet; a FakeIP address is routed as its domain.

  \<^bold>\<open>Bounds and fuel.\<close> The nesting of a binary rule-set is read with fuel equal to the
  number of bytes left; reading always ends within it (\<^verbatim>\<open>srs_read_ends\<close>). The rounds of
  the outbound start are bounded by the number of outbounds, as every round but the last starts
  one. The extensions of a ClientHello and the frames of a QUIC packet are read with fuel equal
  to the bytes left. Reassembly has fuel equal to the number of fragments: the Go loop can spin
  forever, and that it does exactly when this fuel runs out is \<^verbatim>\<open>quic_reassembly_ends\<close>.
  A run of Go code that can panic or spin is a value of \<open>exec\<close>. Everything else is structural
  recursion.

  \<^bold>\<open>Not modelled.\<close> Protocol implementations, transports, TLS and the platform layers
  are cryptography and I/O on third-party code; the command line, the mobile bindings and the
  HTTP APIs are glue around them. Behind the routing decision, the copying of data between
  connections, connection trackers and the DNS router are not modelled. The cipher of a QUIC
  packet and the decoding of DNS, HTTP and TLS records are parameters of the sniffers. Logging, timing and the display
  strings of rules do not influence a decision.
\<close>

end
